(* ===== verification/Prelude.thy ===== *)
theory Prelude
  imports Main "HOL-Library.Char_ord" "HOL-Library.List_Lexorder" "HOL-Library.Product_Lexorder"
    "HOL-Library.Word"
begin

text \<open>
  The vocabulary every component shares: Rust's byte strings and 64-bit integers, fallible results,
  the ordered map \<open>BTreeMap\<close>, decimal text, and the lemmas about them.

  A Rust \<open>String\<close> or \<open>Vec<u8>\<close> is its list of bytes, a HOL \<^typ>\<open>string\<close>: \<open>len()\<close> is
  the number of bytes, and Rust's byte-wise order is the lexicographic order of the list. An
  \<open>i64\<close> is an \<^typ>\<open>int\<close>, with the saturating and the checked operations of the source
  written out at \<open>i64_max\<close>.
\<close>

named_theorems result_simps \<open>when a fallible computation succeeds or fails\<close>
named_theorems bt_simps \<open>lookups in an ordered map after an update\<close>
named_theorems wf_intros \<open>what keeps a data structure well formed\<close>

type_synonym bytes = string
type_synonym entity_id = string
type_synonym entity_type = string
type_synonym event_type = string
type_synonym event_id = string
type_synonym command_id = string
type_synonym principal_id = string
type_synonym event_sequence = int
type_synonym event_version = int
type_synonym duration = nat

text \<open>A \<open>Duration\<close> is its number of nanoseconds.\<close>

definition one_second :: duration where "one_second = 1000000000"
definition one_millisecond :: duration where "one_millisecond = 1000000"

section \<open>Fallible results\<close>

text \<open>A Rust \<open>Result<T, E>\<close> is \<open>'e + 't\<close>, with \<open>Err\<close> on the left. \<open>and_then\<close> is the
  \<open>?\<close> operator, \<open>ensure\<close> an early return, and the three loops are \<open>for\<close> loops whose body can
  return early.\<close>

definition and_then :: "'e + 'a \<Rightarrow> ('a \<Rightarrow> 'e + 'b) \<Rightarrow> 'e + 'b" where
  "and_then r f = (case r of Inl e \<Rightarrow> Inl e | Inr x \<Rightarrow> f x)"

definition ensure :: "bool \<Rightarrow> 'e \<Rightarrow> 'e + unit" where
  "ensure b e = (if b then Inr () else Inl e)"

fun for_each :: "('a \<Rightarrow> 'e + unit) \<Rightarrow> 'a list \<Rightarrow> 'e + unit" where
  "for_each f [] = Inr ()"
| "for_each f (x # xs) = (case f x of Inl e \<Rightarrow> Inl e | Inr _ \<Rightarrow> for_each f xs)"

fun collect :: "('a \<Rightarrow> 'e + 'b) \<Rightarrow> 'a list \<Rightarrow> 'e + 'b list" where
  "collect f [] = Inr []"
| "collect f (x # xs) =
    (case f x of Inl e \<Rightarrow> Inl e
     | Inr y \<Rightarrow> (case collect f xs of Inl e \<Rightarrow> Inl e | Inr ys \<Rightarrow> Inr (y # ys)))"

fun fold_result :: "('s \<Rightarrow> 'a \<Rightarrow> 'e + 's) \<Rightarrow> 's \<Rightarrow> 'a list \<Rightarrow> 'e + 's" where
  "fold_result f s [] = Inr s"
| "fold_result f s (x # xs) =
    (case f s x of Inl e \<Rightarrow> Inl e | Inr s' \<Rightarrow> fold_result f s' xs)"

definition is_ok :: "'e + 'a \<Rightarrow> bool" where
  "is_ok r = (case r of Inl _ \<Rightarrow> False | Inr _ \<Rightarrow> True)"

definition ok_or :: "'e \<Rightarrow> 'a option \<Rightarrow> 'e + 'a" where
  "ok_or e x = (case x of None \<Rightarrow> Inl e | Some y \<Rightarrow> Inr y)"

definition map_err :: "('e \<Rightarrow> 'f) \<Rightarrow> 'e + 'a \<Rightarrow> 'f + 'a" where
  "map_err f r = (case r of Inl e \<Rightarrow> Inl (f e) | Inr x \<Rightarrow> Inr x)"

lemma and_then_simps [simp]:
  "and_then (Inl e) f = Inl e"
  "and_then (Inr x) f = f x"
  by (simp_all add: and_then_def)

lemma and_then_Inr [result_simps]:
  "and_then r f = Inr y \<longleftrightarrow> (\<exists>x. r = Inr x \<and> f x = Inr y)"
  by (cases r) auto

lemma and_then_Inl [result_simps]:
  "and_then r f = Inl e \<longleftrightarrow> r = Inl e \<or> (\<exists>x. r = Inr x \<and> f x = Inl e)"
  by (cases r) auto

lemma ensure_simps [simp]:
  "ensure True e = Inr ()"
  "ensure False e = Inl e"
  by (simp_all add: ensure_def)

lemma ensure_Inr [result_simps]: "ensure b e = Inr u \<longleftrightarrow> b"
  by (simp add: ensure_def)

lemma ensure_Inl [result_simps]: "ensure b e = Inl e' \<longleftrightarrow> \<not> b \<and> e' = e"
  by (auto simp: ensure_def)

lemma ok_or_simps [simp]:
  "ok_or e None = Inl e"
  "ok_or e (Some x) = Inr x"
  by (simp_all add: ok_or_def)

lemma ok_or_Inr [result_simps]: "ok_or e x = Inr y \<longleftrightarrow> x = Some y"
  by (cases x) auto

lemma ok_or_Inl [result_simps]: "ok_or e x = Inl e' \<longleftrightarrow> x = None \<and> e' = e"
  by (cases x) auto

lemma map_err_simps [simp]:
  "map_err f (Inl e) = Inl (f e)"
  "map_err f (Inr x) = Inr x"
  by (simp_all add: map_err_def)

lemma map_err_Inr [result_simps]: "map_err f r = Inr y \<longleftrightarrow> r = Inr y"
  by (cases r) auto

lemma is_ok_simps [simp]: "is_ok (Inr x)" "\<not> is_ok (Inl e)"
  by (simp_all add: is_ok_def)

lemma is_ok_iff: "is_ok r \<longleftrightarrow> (\<exists>x. r = Inr x)"
  by (cases r) auto

lemma for_each_ok [result_simps]: "for_each f xs = Inr u \<longleftrightarrow> (\<forall>x \<in> set xs. f x = Inr ())"
  by (induction xs) (auto split: sum.splits)

lemma for_each_err: "for_each f xs = Inl e \<Longrightarrow> \<exists>x \<in> set xs. f x = Inl e"
  by (induction xs) (auto split: sum.splits)

lemma for_each_append:
  "for_each f (xs @ ys) = (case for_each f xs of Inl e \<Rightarrow> Inl e | Inr _ \<Rightarrow> for_each f ys)"
  by (induction xs) (auto split: sum.splits)

lemma collect_ok: "collect f xs = Inr ys \<longleftrightarrow> list_all2 (\<lambda>x y. f x = Inr y) xs ys"
proof (induction xs arbitrary: ys)
  case (Cons x xs)
  show ?case
    using Cons.IH by (cases ys; cases "f x"; cases "collect f xs") auto
qed (auto split: sum.splits)

lemma collect_map_ok: "(\<And>x. x \<in> set xs \<Longrightarrow> f x = Inr (g x)) \<Longrightarrow> collect f xs = Inr (map g xs)"
  by (induction xs) auto

lemma fold_result_append:
  "fold_result f s (xs @ ys) =
    (case fold_result f s xs of Inl e \<Rightarrow> Inl e | Inr s' \<Rightarrow> fold_result f s' ys)"
  by (induction xs arbitrary: s) (auto split: sum.splits)

text \<open>What every successful iteration keeps, the whole loop keeps.\<close>

lemma fold_result_invariant:
  assumes "fold_result f s xs = Inr s'" and "P s"
    and "\<And>x s s'. x \<in> set xs \<Longrightarrow> P s \<Longrightarrow> f s x = Inr s' \<Longrightarrow> P s'"
  shows "P s'"
  using assms
proof (induction xs arbitrary: s)
  case (Cons x xs)
  then obtain t where t: "f s x = Inr t" "fold_result f t xs = Inr s'"
    by (auto split: sum.splits)
  have "P t"
    using Cons.prems(2,3) t(1) by auto
  then show ?case
    using Cons.IH [OF t(2)] Cons.prems(3) by auto
qed simp

section \<open>Ordered lists\<close>

lemma sorted_le_last: "x \<in> set xs \<Longrightarrow> sorted xs \<Longrightarrow> x \<le> last xs"
  by (induction xs) (auto simp: Ball_def)

text \<open>\<open>sort\<close> followed by \<open>dedup\<close> lists a set in strictly increasing order.\<close>

lemma strict_sorted_remdups_adj:
  "sorted xs \<Longrightarrow> sorted_wrt (<) (remdups_adj (xs :: 'a::linorder list))"
proof (induction xs rule: remdups_adj.induct)
  case (3 x y xs)
  show ?case
  proof (cases "x = y")
    case True
    with 3 show ?thesis
      by simp
  next
    case False
    with 3 have "x < y" and "\<forall>z \<in> set xs. y \<le> z" and "sorted_wrt (<) (remdups_adj (y # xs))"
      by auto
    then show ?thesis
      using False by (auto dest: order_less_le_trans simp del: remdups_adj.simps
          simp add: remdups_adj.simps(3))
  qed
qed simp_all

lemma remdups_adj_sort_eq:
  "remdups_adj (sort xs) = sorted_list_of_set (set (xs :: 'a::linorder list))"
proof -
  have "sorted_wrt (<) (remdups_adj (sort xs))"
    by (simp add: strict_sorted_remdups_adj)
  then show ?thesis
    by (metis remdups_adj_set set_sort sorted_list_of_set.idem_if_sorted_distinct strict_sorted_iff)
qed

lemma append_Cons_last_eq_iff:
  assumes "c \<notin> set ys" and "c \<notin> set ys'"
  shows "xs @ c # ys = xs' @ c # ys' \<longleftrightarrow> xs = xs' \<and> ys = ys'"
  using assms by (auto simp: append_eq_append_conv2 Cons_eq_append_conv append_eq_Cons_conv)

text \<open>\<open>Iterator::min_by_key\<close>: of several equal minima, the first.\<close>

fun min_by_key :: "('a \<Rightarrow> 'b::linorder) \<Rightarrow> 'a list \<Rightarrow> 'a option" where
  "min_by_key f [] = None"
| "min_by_key f (x # xs) =
    (case min_by_key f xs of None \<Rightarrow> Some x | Some y \<Rightarrow> if f y < f x then Some y else Some x)"

lemma min_by_key_None: "min_by_key f xs = None \<longleftrightarrow> xs = []"
  by (cases xs) (auto split: option.splits)

lemma min_by_key_mem: "min_by_key f xs = Some y \<Longrightarrow> y \<in> set xs"
  by (induction xs arbitrary: y) (auto split: option.splits if_splits)

lemma min_by_key_le: "min_by_key f xs = Some y \<Longrightarrow> x \<in> set xs \<Longrightarrow> f y \<le> f x"
  by (induction xs arbitrary: y) (fastforce simp: min_by_key_None split: option.splits if_splits)+

lemma min_by_key_first:
  assumes "min_by_key f xs = Some y"
  shows "\<exists>before later. xs = before @ y # later
    \<and> (\<forall>v \<in> set before. f y < f v) \<and> (\<forall>v \<in> set later. f y \<le> f v)"
  using assms
proof (induction xs arbitrary: y)
  case (Cons x xs)
  show ?case
  proof (cases "\<exists>z. min_by_key f xs = Some z \<and> f z < f x")
    case True
    then have y: "min_by_key f xs = Some y" and "f y < f x"
      using Cons.prems by auto
    with Cons.IH [OF y] show ?thesis
      by (metis Cons_eq_appendI set_ConsD)
  next
    case False
    then have "y = x"
      using Cons.prems by (auto split: option.splits)
    moreover have "f x \<le> f v" if "v \<in> set xs" for v
      using that False min_by_key_le [of f xs _ v] min_by_key_None [of f xs]
      by (cases "min_by_key f xs") fastforce+
    ultimately show ?thesis
      by (intro exI [of _ "[]"] exI [of _ xs]) auto
  qed
qed simp

section \<open>64-bit integers\<close>

definition i64_max :: int where "i64_max = 9223372036854775807"
definition i64_min :: int where "i64_min = - 9223372036854775808"
definition usize_max :: nat where "usize_max = 18446744073709551615"

definition in_i64 :: "int \<Rightarrow> bool" where
  "in_i64 x \<longleftrightarrow> i64_min \<le> x \<and> x \<le> i64_max"

text \<open>\<open>i64::saturating_add\<close>, \<open>i64::saturating_sub\<close>, \<open>i64::checked_add\<close> and
  \<open>usize::saturating_add\<close>.\<close>

definition saturating_add :: "int \<Rightarrow> int \<Rightarrow> int" where
  "saturating_add x y = max i64_min (min i64_max (x + y))"

definition saturating_sub :: "int \<Rightarrow> int \<Rightarrow> int" where
  "saturating_sub x y = max i64_min (min i64_max (x - y))"

definition checked_add :: "int \<Rightarrow> int \<Rightarrow> int option" where
  "checked_add x y = (if in_i64 (x + y) then Some (x + y) else None)"

definition usize_saturating_add :: "nat \<Rightarrow> nat \<Rightarrow> nat" where
  "usize_saturating_add x y = min usize_max (x + y)"

lemma saturating_add_in_i64: "in_i64 (saturating_add x y)"
  by (simp add: saturating_add_def in_i64_def i64_min_def i64_max_def)

lemma saturating_add_exact: "in_i64 (x + y) \<Longrightarrow> saturating_add x y = x + y"
  by (simp add: saturating_add_def in_i64_def)

lemma checked_add_Some [result_simps]: "checked_add x y = Some z \<longleftrightarrow> in_i64 (x + y) \<and> z = x + y"
  by (auto simp: checked_add_def)

section \<open>Decimal text\<close>

text \<open>\<open>i64\<close>'s \<open>Display\<close> and \<open>FromStr\<close>: \<open>show_int\<close> writes a minus sign and the
  digits, \<open>parse_i64\<close> reads one optional sign and at least one digit, and fails on overflow.\<close>

definition digit_char :: "nat \<Rightarrow> char" where
  "digit_char d = char_of (48 + d)"

definition digit_value :: "char \<Rightarrow> nat option" where
  "digit_value c = (let n = of_char c :: nat in if 48 \<le> n \<and> n \<le> 57 then Some (n - 48) else None)"

fun show_nat :: "nat \<Rightarrow> string" where
  "show_nat n = (if n < 10 then [digit_char n] else show_nat (n div 10) @ [digit_char (n mod 10)])"

declare show_nat.simps [simp del]

definition show_int :: "int \<Rightarrow> string" where
  "show_int i = (if i < 0 then CHR ''-'' # show_nat (nat (- i)) else show_nat (nat i))"

fun parse_digits :: "nat \<Rightarrow> string \<Rightarrow> nat option" where
  "parse_digits acc [] = Some acc"
| "parse_digits acc (c # cs) =
    (case digit_value c of None \<Rightarrow> None | Some d \<Rightarrow> parse_digits (acc * 10 + d) cs)"

definition parse_nat :: "string \<Rightarrow> nat option" where
  "parse_nat s = (if s = [] then None else parse_digits 0 s)"

definition parse_i64 :: "string \<Rightarrow> int option" where
  "parse_i64 s =
    (let (negative, digits) =
       (case s of [] \<Rightarrow> (False, [])
        | c # cs \<Rightarrow> if c = CHR ''-'' then (True, cs) else if c = CHR ''+'' then (False, cs) else (False, s))
     in case parse_nat digits of None \<Rightarrow> None
        | Some n \<Rightarrow> (let i = (if negative then - int n else int n) in if in_i64 i then Some i else None))"

lemma digit_value_digit_char [simp]: "d < 10 \<Longrightarrow> digit_value (digit_char d) = Some d"
  by (simp add: digit_value_def digit_char_def Let_def)

lemma parse_digits_append:
  "parse_digits acc (xs @ ys) =
    (case parse_digits acc xs of None \<Rightarrow> None | Some a \<Rightarrow> parse_digits a ys)"
  by (induction xs arbitrary: acc) (auto split: option.splits)

lemma show_nat_nonempty [simp]: "show_nat n \<noteq> []"
  by (simp add: show_nat.simps [of n])

lemma parse_digits_show_nat [simp]: "parse_digits 0 (show_nat n) = Some n"
proof (induction n rule: show_nat.induct)
  case (1 n)
  then show ?case
    by (cases "n < 10") (simp_all add: show_nat.simps [of n] parse_digits_append)
qed

lemma parse_nat_show_nat [simp]: "parse_nat (show_nat n) = Some n"
  by (simp add: parse_nat_def)

lemma show_nat_inject [simp]: "show_nat m = show_nat n \<longleftrightarrow> m = n"
  by (metis option.inject parse_nat_show_nat)

lemma show_nat_digits: "c \<in> set (show_nat n) \<Longrightarrow> digit_value c \<noteq> None"
proof (induction n rule: show_nat.induct)
  case (1 n)
  then show ?case
    by (cases "n < 10") (auto simp add: show_nat.simps [of n])
qed

lemma minus_not_in_show_nat [simp]: "CHR ''-'' \<notin> set (show_nat n)"
  using show_nat_digits [of "CHR ''-''" n] by (auto simp: digit_value_def)

lemma colon_not_in_show_nat [simp]: "CHR '':'' \<notin> set (show_nat n)"
  using show_nat_digits [of "CHR '':''" n] by (auto simp: digit_value_def)

lemma colon_not_in_show_int [simp]: "CHR '':'' \<notin> set (show_int i)"
  by (simp add: show_int_def)

lemma hd_show_nat_digit: "digit_value (hd (show_nat n)) \<noteq> None"
  by (rule show_nat_digits [of _ n]) simp

lemma show_int_inject [simp]: "show_int i = show_int j \<longleftrightarrow> i = j"
proof -
  have "CHR ''-'' # xs \<noteq> show_nat n" "show_nat n \<noteq> CHR ''-'' # xs" for xs n
    using minus_not_in_show_nat [of n] by (metis list.set_intros(1))+
  then show ?thesis
    by (auto simp: show_int_def)
qed

lemma parse_show_int:
  assumes "in_i64 i"
  shows "parse_i64 (show_int i) = Some i"
proof (cases "i < 0")
  case True
  then show ?thesis
    using assms by (simp add: parse_i64_def show_int_def)
next
  case False
  obtain c cs where c: "show_nat (nat i) = c # cs"
    by (cases "show_nat (nat i)") auto
  with hd_show_nat_digit [of "nat i"] have "c \<noteq> CHR ''-''" "c \<noteq> CHR ''+''"
    by (auto simp: digit_value_def)
  then show ?thesis
    using assms False c parse_nat_show_nat [of "nat i"]
    by (simp add: parse_i64_def show_int_def del: parse_nat_show_nat)
qed

lemma parse_i64_in_i64: "parse_i64 s = Some i \<Longrightarrow> in_i64 i"
  by (auto simp: parse_i64_def Let_def split: option.splits prod.splits if_splits)

section \<open>UTF-8\<close>

text \<open>\<open>std::str::from_utf8\<close> accepts the well-formed sequences of one to four bytes: no overlong
  forms, no surrogates, nothing above U+10FFFF.\<close>

definition byte_between :: "nat \<Rightarrow> nat \<Rightarrow> char \<Rightarrow> bool" where
  "byte_between lo hi c \<longleftrightarrow> lo \<le> of_char c \<and> of_char c \<le> hi"

fun utf8_valid :: "bytes \<Rightarrow> bool" where
  "utf8_valid [] = True"
| "utf8_valid (a # rest) =
    (if byte_between 0 127 a then utf8_valid rest
     else if byte_between 194 223 a then
       (case rest of b # rest' \<Rightarrow> byte_between 128 191 b \<and> utf8_valid rest' | _ \<Rightarrow> False)
     else if byte_between 224 239 a then
       (case rest of b # c # rest' \<Rightarrow>
          byte_between (if byte_between 224 224 a then 160 else 128)
                       (if byte_between 237 237 a then 159 else 191) b
          \<and> byte_between 128 191 c \<and> utf8_valid rest'
        | _ \<Rightarrow> False)
     else if byte_between 240 244 a then
       (case rest of b # c # d # rest' \<Rightarrow>
          byte_between (if byte_between 240 240 a then 144 else 128)
                       (if byte_between 244 244 a then 143 else 191) b
          \<and> byte_between 128 191 c \<and> byte_between 128 191 d \<and> utf8_valid rest'
        | _ \<Rightarrow> False)
     else False)"

definition has_nul :: "string \<Rightarrow> bool" where
  "has_nul s \<longleftrightarrow> CHR 0x00 \<in> set s"

text \<open>\<open>str::trim().is_empty()\<close>: every character is white space in the Unicode sense.\<close>

fun is_blank :: "string \<Rightarrow> bool" where
  "is_blank [] = True"
| "is_blank (a # rest) =
    (if byte_between 9 13 a \<or> byte_between 32 32 a then is_blank rest
     else if byte_between 194 194 a then
       (case rest of b # rest' \<Rightarrow> (byte_between 133 133 b \<or> byte_between 160 160 b) \<and> is_blank rest'
        | _ \<Rightarrow> False)
     else
       (case rest of b # c # rest' \<Rightarrow>
          (byte_between 225 225 a \<and> byte_between 154 154 b \<and> byte_between 128 128 c
           \<or> byte_between 226 226 a \<and> byte_between 128 128 b
              \<and> (byte_between 128 138 c \<or> byte_between 168 169 c \<or> byte_between 175 175 c)
           \<or> byte_between 226 226 a \<and> byte_between 129 129 b \<and> byte_between 159 159 c
           \<or> byte_between 227 227 a \<and> byte_between 128 128 b \<and> byte_between 128 128 c)
          \<and> is_blank rest'
        | _ \<Rightarrow> False))"

declare utf8_valid.simps [simp del] is_blank.simps [simp del]

end
