(* ===== verification/BTree_Map.thy ===== *)
theory BTree_Map
  imports Prelude
begin

text \<open>
  Rust's \<open>BTreeMap\<close>, the collection every store of the program is built from. The model is the
  map's ordered entries: a list of key-value pairs, strictly increasing by key when well formed.
  The interface the components rely on is the locale \<open>ordered_map\<close>, with the laws of lookup after
  insertion and removal and of ordered iteration; it is interpreted on the operations below.
\<close>

type_synonym ('k, 'v) btree = "('k \<times> 'v) list"

definition bt_empty :: "('k, 'v) btree" where
  "bt_empty = []"

definition bt_get :: "('k, 'v) btree \<Rightarrow> 'k \<Rightarrow> 'v option" where
  "bt_get m k = map_of m k"

definition bt_contains :: "('k, 'v) btree \<Rightarrow> 'k \<Rightarrow> bool" where
  "bt_contains m k \<longleftrightarrow> bt_get m k \<noteq> None"

fun bt_insert :: "'k::linorder \<Rightarrow> 'v \<Rightarrow> ('k, 'v) btree \<Rightarrow> ('k, 'v) btree" where
  "bt_insert k v [] = [(k, v)]"
| "bt_insert k v ((k', v') # m) =
    (if k < k' then (k, v) # (k', v') # m
     else if k = k' then (k, v) # m
     else (k', v') # bt_insert k v m)"

definition bt_remove :: "'k \<Rightarrow> ('k, 'v) btree \<Rightarrow> ('k, 'v) btree" where
  "bt_remove k m = filter (\<lambda>e. fst e \<noteq> k) m"

definition bt_retain :: "('k \<Rightarrow> 'v \<Rightarrow> bool) \<Rightarrow> ('k, 'v) btree \<Rightarrow> ('k, 'v) btree" where
  "bt_retain P m = filter (\<lambda>e. P (fst e) (snd e)) m"

definition bt_keys :: "('k, 'v) btree \<Rightarrow> 'k list" where
  "bt_keys m = map fst m"

definition bt_values :: "('k, 'v) btree \<Rightarrow> 'v list" where
  "bt_values m = map snd m"

text \<open>\<open>keys().next_back()\<close>.\<close>

definition bt_last_key :: "('k, 'v) btree \<Rightarrow> 'k option" where
  "bt_last_key m = (if m = [] then None else Some (fst (last m)))"

text \<open>\<open>entry(k).or_default()\<close> followed by an update of the value in place.\<close>

definition bt_update :: "'k::linorder \<Rightarrow> 'v \<Rightarrow> ('v \<Rightarrow> 'v) \<Rightarrow> ('k, 'v) btree \<Rightarrow> ('k, 'v) btree" where
  "bt_update k dflt f m = bt_insert k (f (case bt_get m k of None \<Rightarrow> dflt | Some v \<Rightarrow> v)) m"

definition bt_wf :: "('k::linorder, 'v) btree \<Rightarrow> bool" where
  "bt_wf m \<longleftrightarrow> sorted_wrt (<) (map fst m)"

section \<open>Lookups\<close>

lemma bt_get_empty [simp, bt_simps]: "bt_get bt_empty k = None" "bt_get [] k = None"
  by (simp_all add: bt_get_def bt_empty_def)

lemma bt_get_insert [bt_simps]: "bt_get (bt_insert k v m) k' = (if k' = k then Some v else bt_get m k')"
  by (induction k v m rule: bt_insert.induct) (auto simp: bt_get_def)

lemma bt_get_remove [bt_simps]: "bt_get (bt_remove k m) k' = (if k' = k then None else bt_get m k')"
  by (induction m) (auto simp: bt_get_def bt_remove_def)

lemma bt_get_update [bt_simps]:
  "bt_get (bt_update k d f m) k' =
    (if k' = k then Some (f (case bt_get m k of None \<Rightarrow> d | Some v \<Rightarrow> v)) else bt_get m k')"
  by (simp add: bt_update_def bt_get_insert)

lemma bt_contains_insert [bt_simps]: "bt_contains (bt_insert k v m) k' \<longleftrightarrow> k' = k \<or> bt_contains m k'"
  by (simp add: bt_contains_def bt_get_insert)

lemma bt_contains_keys: "bt_contains m k \<longleftrightarrow> k \<in> set (bt_keys m)"
  by (force simp: bt_contains_def bt_get_def bt_keys_def map_of_eq_None_iff)

lemma bt_get_SomeD: "bt_get m k = Some v \<Longrightarrow> (k, v) \<in> set m"
  by (simp add: bt_get_def map_of_SomeD)

lemma bt_insert_set: "set (bt_insert k v m) \<subseteq> insert (k, v) (set m)"
  by (induction k v m rule: bt_insert.induct) auto

lemma bt_insert_ne [simp]: "bt_insert k v m \<noteq> []"
  by (induction k v m rule: bt_insert.induct) auto

section \<open>Well-formedness and ordered iteration\<close>

lemma bt_wf_empty [simp, wf_intros]: "bt_wf bt_empty" "bt_wf []"
  by (simp_all add: bt_wf_def bt_empty_def)

lemma bt_insert_keys: "fst ` set (bt_insert k v m) = insert k (fst ` set m)"
  by (induction k v m rule: bt_insert.induct) auto

lemma bt_wf_insert [wf_intros]: "bt_wf m \<Longrightarrow> bt_wf (bt_insert k v m)"
proof (induction k v m rule: bt_insert.induct)
  case (2 k v k' v' m)
  then show ?case
    using bt_insert_keys [of k v m] by (auto simp: bt_wf_def)
qed (simp add: bt_wf_def)

lemma bt_wf_filter [wf_intros]: "bt_wf m \<Longrightarrow> bt_wf (filter P m)"
  by (induction m) (auto simp: bt_wf_def)

lemma bt_wf_remove [wf_intros]: "bt_wf m \<Longrightarrow> bt_wf (bt_remove k m)"
  by (simp add: bt_remove_def bt_wf_filter)

lemma bt_wf_retain [wf_intros]: "bt_wf m \<Longrightarrow> bt_wf (bt_retain P m)"
  by (simp add: bt_retain_def bt_wf_filter)

lemma bt_wf_update [wf_intros]: "bt_wf m \<Longrightarrow> bt_wf (bt_update k d f m)"
  by (simp add: bt_update_def bt_wf_insert)

lemma bt_wf_distinct: "bt_wf m \<Longrightarrow> distinct (map fst m)"
  by (simp add: bt_wf_def strict_sorted_iff)

lemma bt_get_iff: "bt_wf m \<Longrightarrow> bt_get m k = Some v \<longleftrightarrow> (k, v) \<in> set m"
  by (simp add: bt_get_def bt_wf_distinct)

lemma bt_get_retain [bt_simps]:
  assumes "bt_wf m"
  shows "bt_get (bt_retain P m) k =
    (case bt_get m k of None \<Rightarrow> None | Some v \<Rightarrow> if P k v then Some v else None)"
  using assms
proof (induction m)
  case (Cons e m)
  have "bt_get m (fst e) = None"
    using Cons.prems by (force simp: bt_wf_def bt_get_def map_of_eq_None_iff)
  then show ?case
    using Cons by (auto simp: bt_retain_def bt_get_def bt_wf_def)
qed (simp add: bt_retain_def)

lemma bt_last_key_max:
  assumes "bt_wf m" and "bt_last_key m = Some k"
  shows "bt_contains m k" and "bt_contains m k' \<Longrightarrow> k' \<le> k"
proof -
  have ne: "m \<noteq> []" and k: "k = last (map fst m)"
    using assms(2) by (auto simp: bt_last_key_def last_map split: if_splits)
  then show "bt_contains m k"
    by (simp add: bt_contains_keys bt_keys_def last_map)
  assume "bt_contains m k'"
  then have "k' \<in> set (map fst m)"
    by (simp add: bt_contains_keys bt_keys_def)
  moreover have "sorted (map fst m)"
    using assms(1) by (simp add: bt_wf_def strict_sorted_imp_sorted)
  ultimately show "k' \<le> k"
    unfolding k by (rule sorted_le_last)
qed

lemma bt_last_key_None: "bt_last_key m = None \<longleftrightarrow> m = []"
  by (simp add: bt_last_key_def)

text \<open>A well-formed map is determined by its lookups.\<close>

lemma bt_ext:
  assumes "bt_wf m" and "bt_wf m'" and "\<And>k. bt_get m k = bt_get m' k"
  shows "m = m'"
proof -
  have same: "set m = set m'"
    using assms(3) by (auto simp: bt_get_iff [OF assms(1), symmetric] bt_get_iff [OF assms(2), symmetric])
  have "inj_on fst (set m)"
    using bt_wf_distinct [OF assms(1)] by (simp add: distinct_map)
  then show ?thesis
    using same assms(1,2) bt_wf_distinct
    by (intro map_sorted_distinct_set_unique [of fst]) (simp_all add: bt_wf_def strict_sorted_imp_sorted)
qed

section \<open>The interface\<close>

text \<open>What the components use of an ordered map. The laws fix the lookups and the iteration order;
  the lemmas follow from the laws alone.\<close>

locale ordered_map =
  fixes wf :: "'m \<Rightarrow> bool"
    and empty :: 'm
    and get :: "'m \<Rightarrow> 'k::linorder \<Rightarrow> 'v option"
    and insert :: "'k \<Rightarrow> 'v \<Rightarrow> 'm \<Rightarrow> 'm"
    and remove :: "'k \<Rightarrow> 'm \<Rightarrow> 'm"
    and keys :: "'m \<Rightarrow> 'k list"
  assumes get_empty: "get empty k = None"
    and get_insert: "get (insert k v m) k' = (if k' = k then Some v else get m k')"
    and get_remove: "get (remove k m) k' = (if k' = k then None else get m k')"
    and wf_empty: "wf empty"
    and wf_insert: "wf m \<Longrightarrow> wf (insert k v m)"
    and wf_remove: "wf m \<Longrightarrow> wf (remove k m)"
    and keys_sorted: "wf m \<Longrightarrow> sorted_wrt (<) (keys m)"
    and keys_set: "set (keys m) = dom (get m)"
begin

lemma insert_lookup: "get (insert k v m) k = Some v"
  by (simp add: get_insert)

lemma insert_frame: "k' \<noteq> k \<Longrightarrow> get (insert k v m) k' = get m k'"
  by (simp add: get_insert)

lemma keys_insert: "set (keys (insert k v m)) = Set.insert k (set (keys m))"
  by (auto simp: keys_set get_insert dom_def)

lemma keys_remove: "set (keys (remove k m)) = set (keys m) - {k}"
  by (auto simp: keys_set get_remove dom_def split: if_splits)

lemma remove_insert: "get m k = None \<Longrightarrow> get (remove k (insert k v m)) = get m"
  by (rule ext) (simp add: get_remove get_insert)

text \<open>Two well-formed maps with the same lookups iterate in the same order.\<close>

lemma keys_determined:
  assumes "wf m" and "wf m'" and "get m = get m'"
  shows "keys m = keys m'"
  using assms keys_sorted keys_set
  by (metis sorted_list_of_set.idem_if_sorted_distinct strict_sorted_iff)

end

interpretation btm: ordered_map bt_wf bt_empty bt_get bt_insert bt_remove bt_keys
proof
  fix m :: "('k::linorder, 'v) btree"
  show "set (bt_keys m) = dom (bt_get m)"
    using bt_contains_keys [of m] by (auto simp: bt_contains_def)
qed (auto simp: bt_simps wf_intros bt_keys_def bt_wf_def [symmetric])

end
