(* ===== verification/Events.thy ===== *)
theory Events
  imports BTree_Map
begin

text \<open>
  Identifiers, metadata and the stored form of events and snapshots (\<open>ids.rs\<close>, \<open>metadata.rs\<close>,
  \<open>event.rs\<close>), and the upcasters that migrate stored payloads (\<open>upcast.rs\<close>).

  A string identifier is its text, an \<open>EventSequence\<close> or \<open>EventVersion\<close> its integer. Bytes
  (a payload) are a \<^typ>\<open>string\<close>.
\<close>

section \<open>Identifiers\<close>

text \<open>\<open>EventId::for_event\<close>, \<open>EventSequence::next\<close> and \<open>EventSequence::checked_next\<close>.\<close>

definition for_event :: "entity_id \<Rightarrow> event_sequence \<Rightarrow> event_id" where
  "for_event entity sequence = entity @ '':'' @ show_int sequence"

definition next_sequence :: "event_sequence \<Rightarrow> event_sequence" where
  "next_sequence s = saturating_add s 1"

definition checked_next :: "event_sequence \<Rightarrow> event_sequence option" where
  "checked_next s = checked_add s 1"

lemma checked_next_Some: "checked_next s = Some t \<longleftrightarrow> in_i64 (s + 1) \<and> t = s + 1"
  by (simp add: checked_next_def result_simps)

lemma next_sequence_exact: "i64_min \<le> s + 1 \<Longrightarrow> s < i64_max \<Longrightarrow> next_sequence s = s + 1"
  by (simp add: next_sequence_def saturating_add_def)

lemma for_event_inject: "for_event e s = for_event e' s' \<longleftrightarrow> e = e' \<and> s = s'"
  by (simp add: for_event_def append_Cons_last_eq_iff)

section \<open>Metadata\<close>

record origin =
  or_source :: string
  or_endpoint :: string

record metadata =
  md_command_id :: "command_id option"
  md_trace :: "(string, string) btree option"
  md_origin :: "origin option"
  md_address :: "string option"
  md_region :: string
  md_timestamp :: string
  md_principal_id :: "principal_id option"
  md_causation_id :: "command_id option"
  md_extensions :: "(string, string) btree"
  md_commit_id :: string

definition default_metadata :: metadata where
  "default_metadata =
    \<lparr>md_command_id = None, md_trace = None, md_origin = None, md_address = None, md_region = [],
     md_timestamp = [], md_principal_id = None, md_causation_id = None, md_extensions = bt_empty,
     md_commit_id = []\<rparr>"

definition with_command_id :: "metadata \<Rightarrow> command_id \<Rightarrow> metadata" where
  "with_command_id m command = m\<lparr>md_command_id := Some command\<rparr>"

definition with_origin :: "metadata \<Rightarrow> string \<Rightarrow> string \<Rightarrow> metadata" where
  "with_origin m source endpoint = m\<lparr>md_origin := Some \<lparr>or_source = source, or_endpoint = endpoint\<rparr>\<rparr>"

text \<open>An empty address, principal or causation clears the field.\<close>

definition non_empty :: "string \<Rightarrow> string option" where
  "non_empty s = (if s = [] then None else Some s)"

definition with_address :: "metadata \<Rightarrow> string \<Rightarrow> metadata" where
  "with_address m address = m\<lparr>md_address := non_empty address\<rparr>"

definition with_trace :: "metadata \<Rightarrow> (string \<times> string) list \<Rightarrow> metadata" where
  "with_trace m carrier =
    m\<lparr>md_trace := Some (fold (\<lambda>(key, value). bt_insert key value) carrier bt_empty)\<rparr>"

definition with_timestamp :: "metadata \<Rightarrow> string \<Rightarrow> metadata" where
  "with_timestamp m timestamp = m\<lparr>md_timestamp := timestamp\<rparr>"

definition with_principal_id :: "metadata \<Rightarrow> principal_id \<Rightarrow> metadata" where
  "with_principal_id m caller = m\<lparr>md_principal_id := non_empty caller\<rparr>"

definition with_causation_id :: "metadata \<Rightarrow> command_id \<Rightarrow> metadata" where
  "with_causation_id m causation = m\<lparr>md_causation_id := non_empty causation\<rparr>"

definition with_extension :: "metadata \<Rightarrow> string \<Rightarrow> string \<Rightarrow> metadata" where
  "with_extension m key value = m\<lparr>md_extensions := bt_insert key value (md_extensions m)\<rparr>"

definition effective_causation_id :: "metadata \<Rightarrow> command_id option" where
  "effective_causation_id m = (case md_causation_id m of Some c \<Rightarrow> Some c | None \<Rightarrow> md_command_id m)"

text \<open>\<open>PartialEq\<close> compares effective causations.\<close>

definition metadata_eq :: "metadata \<Rightarrow> metadata \<Rightarrow> bool" where
  "metadata_eq a b \<longleftrightarrow>
    md_command_id a = md_command_id b \<and> md_trace a = md_trace b \<and> md_origin a = md_origin b
    \<and> md_address a = md_address b \<and> md_region a = md_region b \<and> md_timestamp a = md_timestamp b
    \<and> md_principal_id a = md_principal_id b
    \<and> effective_causation_id a = effective_causation_id b
    \<and> md_extensions a = md_extensions b \<and> md_commit_id a = md_commit_id b"

text \<open>The fields \<open>Metadata::serialize\<close> hands to the JSON encoder: the effective causation is
  written in place of the one that was set.\<close>

definition metadata_wire :: "metadata \<Rightarrow> metadata" where
  "metadata_wire m = m\<lparr>md_causation_id := effective_causation_id m\<rparr>"

section \<open>Timestamps\<close>

text \<open>\<open>format!\<close>'s \<open>{:0w}\<close>: the sign counts towards the width.\<close>

definition pad_int :: "nat \<Rightarrow> int \<Rightarrow> string" where
  "pad_int w i =
    (let digits = show_nat (nat \<bar>i\<bar>); sign = (if i < 0 then ''-'' else [])
     in sign @ replicate (w - length sign - length digits) (CHR ''0'') @ digits)"

definition civil_from_days :: "int \<Rightarrow> int \<times> int \<times> int" where
  "civil_from_days days =
    (let z = days + 719468;
         era = z div 146097;
         day_of_era = z mod 146097;
         year_of_era = (day_of_era - day_of_era div 1460 + day_of_era div 36524
                        - day_of_era div 146096) div 365;
         day_of_year = day_of_era - (365 * year_of_era + year_of_era div 4 - year_of_era div 100);
         month_index = (5 * day_of_year + 2) div 153;
         day = day_of_year - (153 * month_index + 2) div 5 + 1;
         month = (if month_index < 10 then month_index + 3 else month_index - 9);
         year = year_of_era + era * 400 + (if month \<le> 2 then 1 else 0)
     in (year, month, day))"

definition format_rfc3339 :: "int \<Rightarrow> string" where
  "format_rfc3339 unix_seconds =
    (let days = unix_seconds div 86400;
         seconds_of_day = unix_seconds mod 86400;
         (year, month, day) = civil_from_days days
     in pad_int 4 year @ ''-'' @ pad_int 2 month @ ''-'' @ pad_int 2 day @ ''T''
        @ pad_int 2 (seconds_of_day div 3600) @ '':'' @ pad_int 2 (seconds_of_day mod 3600 div 60)
        @ '':'' @ pad_int 2 (seconds_of_day mod 60) @ ''Z'')"

section \<open>Stored events and snapshots\<close>

record serialized_event =
  ev_id :: event_id
  ev_sequence :: event_sequence
  ev_type :: event_type
  ev_version :: event_version
  ev_entity_id :: entity_id
  ev_entity_type :: entity_type
  ev_payload :: bytes
  ev_metadata :: metadata

record serialized_snapshot =
  sn_entity_type :: entity_type
  sn_entity_id :: entity_id
  sn_sequence :: event_sequence
  sn_event_sequence :: event_sequence
  sn_payload :: bytes

section \<open>Upcasters\<close>

text \<open>An upcaster is application code: its two methods are the fields of a record.\<close>

record 'e upcaster =
  can_upcast :: "event_type \<Rightarrow> event_version \<Rightarrow> bool"
  upcast :: "serialized_event \<Rightarrow> 'e + serialized_event"

record 'e upcast_failure =
  uf_event_type :: event_type
  uf_version :: event_version
  uf_source :: 'e

definition upcast_one :: "'e upcaster \<Rightarrow> serialized_event \<Rightarrow> 'e upcast_failure + serialized_event" where
  "upcast_one u event =
    (if can_upcast u (ev_type event) (ev_version event)
     then map_err (\<lambda>source. \<lparr>uf_event_type = ev_type event, uf_version = ev_version event,
                              uf_source = source\<rparr>) (upcast u event)
     else Inr event)"

definition upcast_event ::
  "'e upcaster list \<Rightarrow> serialized_event \<Rightarrow> 'e upcast_failure + serialized_event" where
  "upcast_event upcasters event = fold_result (\<lambda>e u. upcast_one u e) event upcasters"

text \<open>\<open>JsonUpcaster\<close>, over the JSON parser, the JSON writer and the migration it is built with.\<close>

definition json_upcaster ::
  "(bytes \<Rightarrow> 'e + 'json) \<Rightarrow> ('json \<Rightarrow> bytes) \<Rightarrow> event_type \<Rightarrow> event_version \<Rightarrow> event_version
    \<Rightarrow> ('json \<Rightarrow> 'e + 'json) \<Rightarrow> 'e upcaster" where
  "json_upcaster parse print event_type from_version to_version migrate =
    \<lparr>can_upcast = (\<lambda>ty version. ty = event_type \<and> version = from_version),
     upcast = (\<lambda>event. and_then (parse (ev_payload event)) (\<lambda>payload.
       and_then (migrate payload) (\<lambda>payload'.
       Inr (event\<lparr>ev_payload := print payload', ev_version := to_version\<rparr>))))\<rparr>"

section \<open>Properties\<close>

lemma effective_causation_wire [simp]:
  "effective_causation_id (metadata_wire m) = effective_causation_id m"
  by (simp add: metadata_wire_def effective_causation_id_def split: option.splits)

lemma metadata_wire_idem [simp]: "metadata_wire (metadata_wire m) = metadata_wire m"
  by (simp add: metadata_wire_def effective_causation_id_def split: option.splits)

lemma metadata_eq_wire: "metadata_eq (metadata_wire m) m"
  by (simp add: metadata_eq_def) (simp add: metadata_wire_def)

lemma metadata_eq_iff_wire: "metadata_eq a b \<longleftrightarrow> metadata_wire a = metadata_wire b"
proof
  assume "metadata_eq a b"
  then show "metadata_wire a = metadata_wire b"
    by (intro metadata.equality) (simp_all add: metadata_eq_def metadata_wire_def)
next
  assume *: "metadata_wire a = metadata_wire b"
  note fields = * [THEN arg_cong, of md_command_id] * [THEN arg_cong, of md_trace]
    * [THEN arg_cong, of md_origin] * [THEN arg_cong, of md_address]
    * [THEN arg_cong, of md_region] * [THEN arg_cong, of md_timestamp]
    * [THEN arg_cong, of md_principal_id] * [THEN arg_cong, of md_causation_id]
    * [THEN arg_cong, of md_extensions] * [THEN arg_cong, of md_commit_id]
  show "metadata_eq a b"
    using fields by (simp add: metadata_eq_def metadata_wire_def)
qed

lemma upcast_event_append:
  "upcast_event (us @ vs) event = and_then (upcast_event us event) (upcast_event vs)"
  by (simp add: upcast_event_def fold_result_append and_then_def split: sum.splits)

lemma upcast_event_none:
  assumes "\<And>u. u \<in> set us \<Longrightarrow> \<not> can_upcast u (ev_type event) (ev_version event)"
  shows "upcast_event us event = Inr event"
  using assms by (induction us) (auto simp: upcast_event_def upcast_one_def)

end
