(* ===== verification/Errors.thy ===== *)
theory Errors
  imports Events
begin

text \<open>
  The error enum of \<open>error.rs\<close> with all its variants, and the data the variants carry: recorded
  outcomes and rejections (\<open>outcome.rs\<close>), rebuild leases (\<open>rebuild.rs\<close>), fence provenance
  (\<open>repository.rs\<close>) and failed view operations (\<open>projection.rs\<close>).

  A message a variant is built with by \<open>format!\<close> is kept unrendered, as its format string and its
  arguments (\<open>Msg\<close>). An opaque \<open>BoxError\<close> is \<open>Boxed\<close> with a text that identifies it; the
  transaction conflict the code looks for and the failed recovery read, which wraps two errors, are
  constructors of their own. A JSON number is its text.
\<close>

section \<open>Messages\<close>

datatype msg_arg = AS string | AI int

datatype message = Msg string "msg_arg list"

section \<open>Rejections and outcomes\<close>

datatype json =
    JNull
  | JBool bool
  | JNumber string
  | JString string
  | JArray "json list"
  | JObject "(string \<times> json) list"

datatype outcome_status = Accepted | Rejected

record rejection =
  rj_code :: string
  rj_message :: string
  rj_details :: "json option"

record recorded_identity =
  ri_command_type :: string
  ri_targets :: "entity_id list"
  ri_principal :: "principal_id option"

record outcome =
  oc_command_id :: command_id
  oc_status :: outcome_status
  oc_digest :: string
  oc_response :: "bytes option"
  oc_event_ids :: "event_id list"
  oc_rejection :: "rejection option"
  oc_identity :: "recorded_identity option"

section \<open>The data of the other variants\<close>

datatype fence_provenance = Engine | Caller

datatype replay_phase = Upcast | Deserialize

record rebuild_lease =
  le_owner :: string
  le_generation :: int
  le_lease_expires_at :: int

datatype view_operation_kind = Put | Delete

record projector_operation_error =
  pe_projector :: string
  pe_projector_index :: nat
  pe_operation :: nat
  pe_kind :: view_operation_kind
  pe_pk :: string
  pe_sk :: string
  pe_reason :: string
  pe_mapped :: "string option"
  pe_cause :: "string option"

record row_too_large =
  rt_scope :: string
  rt_position :: nat
  rt_event_id :: string
  rt_size :: nat
  rt_limit :: nat

record journal_gone =
  jg_scope :: string
  jg_after :: nat
  jg_checkpoint :: nat
  jg_chunk_count :: nat
  jg_digest :: string

section \<open>The errors\<close>

datatype (plugins only: code) error =
    Conflict entity_id message
  | SequenceGap entity_id event_sequence event_sequence
  | DuplicateCommand command_id
  | StreamHeadDrift entity_id "event_sequence option" event_sequence
  | StreamHeadsNotMigrated
  | StoreNotInitialized
  | CompactionUncovered entity_id event_sequence "event_sequence option"
  | Replay event_type event_version replay_phase box_error
  | Snapshot entity_id string
  | InvalidRecord message
  | CommitTooLarge nat nat nat
  | FenceConflict entity_id event_sequence fence_provenance
  | CommandOrder string
  | ProjectorWithoutEvents nat
  | ProjectorSetConflict entity_id
  | TransactionPoisoned
  | RetentionConflict entity_type
  | RebuildInProgress
  | RebuildLockHeld string int
  | RebuildLeaseLost string
  | RebuildConflict nat
  | RebuildBeginIndeterminate rebuild_lease int box_error
  | RebuildStateInvalid message
  | RebuildUnavailable int bool
  | RebuildEpochChanged int int
  | Json string
  | Handler box_error
  | Projector box_error
  | ProjectorOperation projector_operation_error
  | InvalidViewOperation message
  | ViewKeyTooLong string nat nat string nat
  | DuplicateViewKey string string "string \<times> nat" "string \<times> nat"
  | ReservedViewKey string string nat
  | CommitOrder "string list"
  | SharedViewKey string string string string
  | ViewsUnsupported string
  | ExpectedPayloadUnsupported string
  | HistoryDeclarationUnsupported string
  | ViewsNotConfigured string
  | JournalRowTooLarge row_too_large
  | InvalidJournal message
  | JournalGone journal_gone
  | JournalSnapshotMoved string nat
  | ForeignJournalRow string string string string
  | CompactionLeaseHeld string string int
  | CompactionLeaseLost string string
  | Transient box_error
  | InvalidCommit message
  | InvalidConfig message
  | InvalidArgument message
  | ReservedEntityId entity_id
  | UnsupportedFeature string int
  | HistoryDependentProjection entity_type entity_id
  | CommandIdTooLong nat
  | OutcomeTooLarge string nat
  | IdempotencyKeyReuse command_id outcome
  | OutcomePrincipalMismatch command_id bool
  | OutcomeConflict command_id
  | AmbiguousWrite command_id box_error
  | Indeterminate box_error
  | Backend box_error
and box_error =
    Boxed string
  | BoxedTransactionConflict entity_id box_error
  | BoxedRecoveryReadFailed box_error error

section \<open>Classification\<close>

definition is_conflict :: "error \<Rightarrow> bool" where
  "is_conflict e =
    (case e of Conflict _ _ \<Rightarrow> True | SequenceGap _ _ _ \<Rightarrow> True | FenceConflict _ _ _ \<Rightarrow> True
     | _ \<Rightarrow> False)"

definition is_duplicate_command :: "error \<Rightarrow> bool" where
  "is_duplicate_command e = (case e of DuplicateCommand _ \<Rightarrow> True | _ \<Rightarrow> False)"

definition is_retryable :: "error \<Rightarrow> bool" where
  "is_retryable e =
    (case e of Conflict _ _ \<Rightarrow> True | SequenceGap _ _ _ \<Rightarrow> True | Transient _ \<Rightarrow> True
     | AmbiguousWrite _ _ \<Rightarrow> True | RebuildInProgress \<Rightarrow> True | RebuildConflict _ \<Rightarrow> True
     | RebuildUnavailable _ _ \<Rightarrow> True | RebuildEpochChanged _ _ \<Rightarrow> True
     | JournalSnapshotMoved _ _ \<Rightarrow> True | FenceConflict _ _ provenance \<Rightarrow> provenance = Engine
     | _ \<Rightarrow> False)"

text \<open>\<open>ExecuteError<E>\<close>, over the aggregate's own error type.\<close>

datatype 'e execute_error = ExecuteRejected 'e | ExecuteStore error

definition as_store_error :: "'e execute_error \<Rightarrow> error option" where
  "as_store_error e = (case e of ExecuteStore err \<Rightarrow> Some err | ExecuteRejected _ \<Rightarrow> None)"

definition execute_is_conflict :: "'e execute_error \<Rightarrow> bool" where
  "execute_is_conflict e = (case as_store_error e of None \<Rightarrow> False | Some err \<Rightarrow> is_conflict err)"

definition execute_is_duplicate_command :: "'e execute_error \<Rightarrow> bool" where
  "execute_is_duplicate_command e =
    (case as_store_error e of None \<Rightarrow> False | Some err \<Rightarrow> is_duplicate_command err)"

definition execute_is_retryable :: "'e execute_error \<Rightarrow> bool" where
  "execute_is_retryable e = (case as_store_error e of None \<Rightarrow> False | Some err \<Rightarrow> is_retryable err)"

end
