(* ===== verification/Numbers.thy ===== *)
theory Numbers
  imports Errors
begin

text \<open>
  The canonical text of the numbers in a stored rejection (\<open>numbers.rs\<close>). The iterator \<open>tokens\<close>
  is the list of tokens it yields: its state is whether it is inside a string and the bytes read
  since the last number.
\<close>

definition MAX_OUTCOME_BYTES :: nat where "MAX_OUTCOME_BYTES = 65536"
definition MAX_SCALE :: int where "MAX_SCALE = 16383"
definition MAX_INTEGER_DIGITS :: int where "MAX_INTEGER_DIGITS = 131072"
definition EXPONENT_CAP :: int where "EXPONENT_CAP = 1073741824"

record number =
  nu_negative :: bool
  nu_integer :: string
  nu_fraction :: string
  nu_point :: int
  nu_scale :: int

definition is_ascii_digit :: "char \<Rightarrow> bool" where
  "is_ascii_digit c \<longleftrightarrow> digit_value c \<noteq> None"

definition is_number_byte :: "char \<Rightarrow> bool" where
  "is_number_byte c \<longleftrightarrow> is_ascii_digit c \<or> c \<in> {CHR ''-'', CHR ''+'', CHR ''.'', CHR ''e'', CHR ''E''}"

definition is_exponent_mark :: "char \<Rightarrow> bool" where
  "is_exponent_mark c \<longleftrightarrow> c = CHR ''e'' \<or> c = CHR ''E''"

definition parse_exponent :: "string \<Rightarrow> int" where
  "parse_exponent text =
    (let (negative, digits) =
       (case text of c # cs \<Rightarrow> if c = CHR ''-'' then (True, cs)
                               else if c = CHR ''+'' then (False, cs) else (False, text)
        | [] \<Rightarrow> (False, text));
       magnitude = foldl (\<lambda>acc c. min EXPONENT_CAP
           (acc * 10 + (case digit_value c of Some d \<Rightarrow> int d | None \<Rightarrow> 0))) 0 digits
     in if negative then - magnitude else magnitude)"

text \<open>\<open>str::find\<close> of a character: the text before it, and the text after it when it occurs.\<close>

definition split_at :: "(char \<Rightarrow> bool) \<Rightarrow> string \<Rightarrow> string \<times> string option" where
  "split_at P text =
    (case dropWhile (\<lambda>c. \<not> P c) text of [] \<Rightarrow> (text, None)
     | _ # rest \<Rightarrow> (takeWhile (\<lambda>c. \<not> P c) text, Some rest))"

definition parse_number :: "string \<Rightarrow> number" where
  "parse_number literal =
    (let (negative, text) = (case literal of c # cs \<Rightarrow> if c = CHR ''-'' then (True, cs) else (False, literal)
                             | [] \<Rightarrow> (False, literal));
         (mantissa, exponent) = (case split_at is_exponent_mark text of
             (m, Some e) \<Rightarrow> (m, parse_exponent e) | (m, None) \<Rightarrow> (m, 0));
         (integer, fraction) = (case split_at (\<lambda>c. c = CHR ''.'') mantissa of
             (i, Some f) \<Rightarrow> (i, f) | (i, None) \<Rightarrow> (i, []))
     in \<lparr>nu_negative = negative, nu_integer = integer, nu_fraction = fraction,
         nu_point = int (length integer) + exponent,
         nu_scale = max 0 (int (length fraction) - exponent)\<rparr>)"

definition number_digits :: "number \<Rightarrow> string" where
  "number_digits n = nu_integer n @ nu_fraction n"

text \<open>\<open>Number::digit\<close>: a position outside the digits holds a zero.\<close>

definition number_digit :: "number \<Rightarrow> int \<Rightarrow> char" where
  "number_digit n i =
    (if 0 \<le> i \<and> nat i < length (nu_integer n) then nu_integer n ! nat i
     else if 0 \<le> i \<and> nat i - length (nu_integer n) < length (nu_fraction n)
     then nu_fraction n ! (nat i - length (nu_integer n))
     else CHR ''0'')"

definition digit_count :: "number \<Rightarrow> int" where
  "digit_count n = int (length (nu_integer n) + length (nu_fraction n))"

definition first_significant :: "number \<Rightarrow> int" where
  "first_significant n = int (length (takeWhile (\<lambda>c. c = CHR ''0'') (number_digits n)))"

definition is_zero :: "number \<Rightarrow> bool" where
  "is_zero n \<longleftrightarrow> first_significant n = digit_count n"

definition integer_digits :: "number \<Rightarrow> int" where
  "integer_digits n = (if is_zero n then 0 else max 0 (nu_point n - first_significant n))"

definition check_number :: "number \<Rightarrow> string \<Rightarrow> error + unit" where
  "check_number n text =
    ensure (nu_scale n \<le> MAX_SCALE \<and> integer_digits n \<le> MAX_INTEGER_DIGITS)
      (InvalidArgument
        (Msg ''rejection details hold a number out of the storable range: {shown}'' [AS (if length text \<le> 64 then text
             else take 64 text @ ''... ('' @ show_nat (length text) @ '' bytes)'')]))"

definition canonical_length :: "number \<Rightarrow> int" where
  "canonical_length n =
    max 1 (integer_digits n) + (if nu_negative n \<and> \<not> is_zero n then 1 else 0)
    + (if 0 < nu_scale n then 1 + nu_scale n else 0)"

definition write_canonical :: "number \<Rightarrow> string" where
  "write_canonical n =
    (if nu_negative n \<and> \<not> is_zero n then ''-'' else [])
    @ (if integer_digits n = 0 then ''0''
       else map (number_digit n) [first_significant n..nu_point n - 1])
    @ (if 0 < nu_scale n
       then ''.'' @ map (number_digit n) [nu_point n..nu_point n + nu_scale n - 1] else [])"

datatype token = Other string | Number string number

function tokens_from :: "bool \<Rightarrow> string \<Rightarrow> string \<Rightarrow> token list" where
  "tokens_from in_string before [] = (if before = [] then [] else [Other before])"
| "tokens_from in_string before (c # cs) =
    (if in_string \<and> c = CHR 0x5C then
       (case cs of [] \<Rightarrow> tokens_from in_string (before @ [c]) []
        | d # ds \<Rightarrow> tokens_from in_string (before @ [c, d]) ds)
     else if c = CHR 0x22 then tokens_from (\<not> in_string) (before @ [c]) cs
     else if \<not> in_string \<and> (c = CHR ''-'' \<or> is_ascii_digit c) then
       (let text = c # takeWhile is_number_byte cs
        in (if before = [] then [] else [Other before])
           @ Number text (parse_number text) # tokens_from in_string [] (dropWhile is_number_byte cs))
     else tokens_from in_string (before @ [c]) cs)"
  by pat_completeness auto
termination tokens_from
  by (relation "measure (\<lambda>(_, _, cs). length cs)") (auto simp: le_imp_less_Suc length_dropWhile_le)

definition tokens :: "string \<Rightarrow> token list" where
  "tokens json = tokens_from False [] json"

text \<open>The first pass: the canonical size and whether any number changes.\<close>

fun scan_tokens :: "int \<Rightarrow> bool \<Rightarrow> token list \<Rightarrow> error + int \<times> bool" where
  "scan_tokens bytes changed [] = Inr (bytes, changed)"
| "scan_tokens bytes changed (Other text # ts) = scan_tokens (bytes + int (length text)) changed ts"
| "scan_tokens bytes changed (Number text n # ts) =
    (case check_number n text of Inl e \<Rightarrow> Inl e
     | Inr _ \<Rightarrow> scan_tokens (bytes + canonical_length n)
                (changed \<or> (\<exists>c \<in> set text. is_exponent_mark c) \<or> (nu_negative n \<and> is_zero n)) ts)"

fun write_token :: "token \<Rightarrow> string" where
  "write_token (Other text) = text"
| "write_token (Number text n) = write_canonical n"

definition canonical_numbers :: "string \<Rightarrow> error + string" where
  "canonical_numbers json =
    and_then (scan_tokens 0 False (tokens json)) (\<lambda>(bytes, changed).
      if nat bytes > MAX_OUTCOME_BYTES then Inl (OutcomeTooLarge ''rejection'' (nat bytes))
      else if \<not> changed then Inr json
      else Inr (concat (map write_token (tokens json))))"

section \<open>The written length\<close>

lemma first_significant_le: "first_significant n \<le> digit_count n"
  using length_takeWhile_le [of "\<lambda>c. c = CHR ''0''" "number_digits n"]
  by (simp add: first_significant_def digit_count_def number_digits_def)

lemma length_write_canonical:
  assumes "0 \<le> nu_scale n"
  shows "int (length (write_canonical n)) = canonical_length n"
  using assms by (auto simp: write_canonical_def canonical_length_def integer_digits_def)

lemma parse_number_scale [simp]: "0 \<le> nu_scale (parse_number text)"
  by (simp add: parse_number_def Let_def split: prod.splits)

lemma tokens_from_numbers:
  "Number text n \<in> set (tokens_from in_string before cs) \<Longrightarrow> n = parse_number text"
  by (induction in_string before cs rule: tokens_from.induct)
    (auto simp: Let_def split: if_splits list.splits)

lemma tokens_numbers: "Number text n \<in> set (tokens json) \<Longrightarrow> n = parse_number text"
  by (simp add: tokens_def tokens_from_numbers)

text \<open>The text a token stands for: concatenated, the tokens are the document.\<close>

fun token_text :: "token \<Rightarrow> string" where
  "token_text (Other text) = text"
| "token_text (Number text n) = text"

lemma concat_tokens_from: "concat (map token_text (tokens_from in_string before cs)) = before @ cs"
  by (induction in_string before cs rule: tokens_from.induct)
    (auto simp: Let_def split: list.splits)

lemma concat_tokens: "concat (map token_text (tokens json)) = json"
  by (simp add: tokens_def concat_tokens_from)

lemma scan_tokens_total:
  assumes "scan_tokens bytes changed ts = Inr (bytes', changed')"
    and "\<And>text n. Number text n \<in> set ts \<Longrightarrow> 0 \<le> nu_scale n"
  shows "bytes' = bytes + int (length (concat (map write_token ts)))"
  using assms
proof (induction bytes changed ts rule: scan_tokens.induct)
  case (3 bytes changed lit n ts)
  have "int (length (write_canonical n)) = canonical_length n"
    by (rule length_write_canonical) (use 3(3) in auto)
  moreover have check: "check_number n lit = Inr ()"
    using 3(2) by (cases "check_number n lit") auto
  have "bytes' = (bytes + canonical_length n) + int (length (concat (map write_token ts)))"
    by (rule 3(1) [OF check]) (use 3(2,3) check in auto)
  ultimately show ?case
    by simp
qed auto

lemma scan_tokens_keeps_changed: "scan_tokens bytes changed ts = Inr (bytes', False) \<Longrightarrow> \<not> changed"
  by (induction bytes changed ts rule: scan_tokens.induct) (auto split: sum.splits)

lemma scan_tokens_unchanged:
  assumes "scan_tokens bytes changed ts = Inr (bytes', False)" and "Number text n \<in> set ts"
  shows "(\<forall>c \<in> set text. \<not> is_exponent_mark c) \<and> \<not> (nu_negative n \<and> is_zero n)"
  using assms
proof (induction bytes changed ts rule: scan_tokens.induct)
  case (3 bytes changed text' n' ts)
  then show ?case
    by (cases "check_number n' text'") (auto dest: scan_tokens_keeps_changed)
qed auto

section \<open>Literals that are canonical already\<close>

text \<open>The JSON grammar of a number without an exponent: an optional minus sign, an integer part
  with no leading zero, and an optional fraction.\<close>

definition integer_part :: "string \<Rightarrow> bool" where
  "integer_part i \<longleftrightarrow> i \<noteq> [] \<and> (\<forall>c \<in> set i. is_ascii_digit c) \<and> (i = ''0'' \<or> hd i \<noteq> CHR ''0'')"

definition plain_literal :: "string \<Rightarrow> bool" where
  "plain_literal text \<longleftrightarrow>
    (\<exists>sign i f. text = sign @ i @ f \<and> sign \<in> {[], ''-''} \<and> integer_part i
      \<and> (f = [] \<or> (\<exists>ds. f = CHR ''.'' # ds \<and> ds \<noteq> [] \<and> (\<forall>c \<in> set ds. is_ascii_digit c))))"

lemma digit_not_mark:
  "is_ascii_digit c \<Longrightarrow> \<not> is_exponent_mark c \<and> c \<noteq> CHR ''.'' \<and> c \<noteq> CHR ''-''"
  by (auto simp: is_ascii_digit_def is_exponent_mark_def digit_value_def)

lemma split_at_none: "(\<forall>c \<in> set s. \<not> P c) \<Longrightarrow> split_at P s = (s, None)"
  by (auto simp: split_at_def split: list.splits)
    (metis dropWhile_eq_Nil_conv list.distinct(1))

lemma split_at_some:
  "(\<forall>c \<in> set i. \<not> P c) \<Longrightarrow> P c \<Longrightarrow> split_at P (i @ c # f) = (i, Some f)"
  by (simp add: split_at_def)

lemma parse_plain:
  assumes "integer_part i" and "\<forall>c \<in> set ds. is_ascii_digit c" and "sign \<in> {[], ''-''}"
    and f: "f = CHR ''.'' # ds \<or> f = [] \<and> ds = []"
  shows "parse_number (sign @ i @ f) =
    \<lparr>nu_negative = (sign = ''-''), nu_integer = i, nu_fraction = ds, nu_point = int (length i),
     nu_scale = int (length ds)\<rparr>"
proof -
  have i: "\<forall>c \<in> set i. \<not> is_exponent_mark c \<and> c \<noteq> CHR ''.'' \<and> c \<noteq> CHR ''-''" "i \<noteq> []"
    using assms(1) digit_not_mark by (auto simp: integer_part_def)
  have ds: "\<forall>c \<in> set ds. \<not> is_exponent_mark c"
    using assms(2) digit_not_mark by blast
  obtain c cs where c: "i = c # cs" "c \<noteq> CHR ''-''"
    using i by (cases i) auto
  have fm: "\<forall>c \<in> set f. \<not> is_exponent_mark c"
    using f
  proof
    assume "f = CHR ''.'' # ds"
    then show ?thesis
      using ds by (simp add: is_exponent_mark_def)
  qed simp
  have no_exp: "split_at is_exponent_mark (i @ f) = (i @ f, None)"
    by (rule split_at_none) (use i fm in auto)
  have dot: "split_at (\<lambda>c. c = CHR ''.'') (i @ f) = (i, if f = [] then None else Some ds)"
    using f
  proof
    assume "f = CHR ''.'' # ds"
    then show ?thesis
      using i by (simp add: split_at_some)
  next
    assume "f = [] \<and> ds = []"
    then show ?thesis
      using i by (simp add: split_at_none)
  qed
  have strip: "(case sign @ i @ f of c # cs \<Rightarrow> if c = CHR ''-'' then (True, cs) else (False, sign @ i @ f)
      | [] \<Rightarrow> (False, sign @ i @ f)) = (sign = ''-'', i @ f)"
    using assms(3) c by auto
  have "f = [] \<Longrightarrow> ds = []"
    using f by auto
  then show ?thesis
    unfolding parse_number_def strip Let_def by (simp add: no_exp dot)
qed

lemma map_number_digit_integer:
  "nu_integer n = i \<Longrightarrow> map (number_digit n) [0..int (length i) - 1] = i"
  by (rule nth_equalityI) (simp_all add: number_digit_def)

lemma map_number_digit_fraction:
  "nu_integer n = i \<Longrightarrow> nu_fraction n = f \<Longrightarrow>
    map (number_digit n) [int (length i)..int (length i) + int (length f) - 1] = f"
  by (rule nth_equalityI) (simp_all add: number_digit_def nat_add_distrib)

lemma write_canonical_plain:
  assumes "integer_part i" and "\<forall>c \<in> set ds. is_ascii_digit c" and "sign \<in> {[], ''-''}"
    and f: "f = CHR ''.'' # ds \<and> ds \<noteq> [] \<or> f = [] \<and> ds = []"
    and z: "\<not> (nu_negative (parse_number (sign @ i @ f)) \<and> is_zero (parse_number (sign @ i @ f)))"
  shows "write_canonical (parse_number (sign @ i @ f)) = sign @ i @ f"
proof -
  define n where "n = parse_number (sign @ i @ f)"
  have n: "n = \<lparr>nu_negative = (sign = ''-''), nu_integer = i, nu_fraction = ds,
      nu_point = int (length i), nu_scale = int (length ds)\<rparr>"
    unfolding n_def using f by (intro parse_plain assms) auto
  have int: "nu_integer n = i" and frac: "nu_fraction n = ds" and point: "nu_point n = int (length i)"
    and scale: "nu_scale n = int (length ds)" and neg: "nu_negative n = (sign = ''-'')"
    by (simp_all add: n)
  have sign: "(if nu_negative n \<and> \<not> is_zero n then ''-'' else []) = sign"
    using z assms(3) by (auto simp: n_def [symmetric] neg)
  have fraction: "(if 0 < nu_scale n then ''.'' @
      map (number_digit n) [nu_point n..nu_point n + nu_scale n - 1] else []) = f"
    using f map_number_digit_fraction [OF int frac] by (auto simp: scale point)
  have integer: "(if integer_digits n = 0 then ''0''
      else map (number_digit n) [first_significant n..nu_point n - 1]) = i"
  proof (cases "i = ''0''")
    case True
    then have "first_significant n \<ge> 1"
      by (simp add: first_significant_def number_digits_def int frac)
    then have "integer_digits n = 0"
      by (simp add: integer_digits_def point True)
    then show ?thesis
      by (simp add: True)
  next
    case False
    then obtain c cs where c: "i = c # cs" "c \<noteq> CHR ''0''"
      using assms(1) by (cases i) (auto simp: integer_part_def)
    then have first: "first_significant n = 0"
      by (simp add: first_significant_def number_digits_def int)
    then have "\<not> is_zero n"
      using c by (simp add: is_zero_def digit_count_def int)
    then have "integer_digits n \<noteq> 0"
      using c by (simp add: integer_digits_def first point)
    then show ?thesis
      using map_number_digit_integer [OF int] by (simp add: first point)
  qed
  show ?thesis
    unfolding n_def [symmetric] write_canonical_def sign integer fraction by simp
qed

lemma plain_literal_canonical:
  assumes "plain_literal lit"
    and "\<not> (nu_negative (parse_number lit) \<and> is_zero (parse_number lit))"
  shows "write_canonical (parse_number lit) = lit"
proof -
  from assms(1) obtain sign i f where lit: "lit = sign @ i @ f" and "sign \<in> {[], ''-''}"
    and "integer_part i"
    and f: "f = [] \<or> (\<exists>ds. f = CHR ''.'' # ds \<and> ds \<noteq> [] \<and> (\<forall>c \<in> set ds. is_ascii_digit c))"
    unfolding plain_literal_def by blast
  from f obtain ds where "\<forall>c \<in> set ds. is_ascii_digit c"
    and "f = CHR ''.'' # ds \<and> ds \<noteq> [] \<or> f = [] \<and> ds = []"
    by force
  then show ?thesis
    unfolding lit
    by (intro write_canonical_plain) (use assms(2) \<open>integer_part i\<close> \<open>sign \<in> _\<close> lit in simp_all)
qed

text \<open>What a canonicalized document is, for a document whose numbers follow the JSON grammar.\<close>

lemma canonical_numbers_ok:
  assumes ok: "canonical_numbers json = Inr out"
    and wf: "\<And>lit n. Number lit n \<in> set (tokens json)
        \<Longrightarrow> \<forall>c \<in> set lit. \<not> is_exponent_mark c \<Longrightarrow> plain_literal lit"
  shows "out = concat (map write_token (tokens json)) \<and> length out \<le> MAX_OUTCOME_BYTES"
proof -
  obtain bytes changed where scan: "scan_tokens 0 False (tokens json) = Inr (bytes, changed)"
    and bytes: "nat bytes \<le> MAX_OUTCOME_BYTES"
    and out: "out = (if changed then concat (map write_token (tokens json)) else json)"
    using ok by (auto simp: canonical_numbers_def result_simps split: prod.splits if_splits)
  have len: "bytes = int (length (concat (map write_token (tokens json))))"
    using scan_tokens_total [OF scan] tokens_numbers by force
  have "write_token t = token_text t" if "\<not> changed" and "t \<in> set (tokens json)" for t
  proof (cases t)
    case (Number lit n)
    with that scan have "(\<forall>c \<in> set lit. \<not> is_exponent_mark c) \<and> \<not> (nu_negative n \<and> is_zero n)"
      by (intro scan_tokens_unchanged) auto
    then show ?thesis
      using that(2) Number wf tokens_numbers [of lit n json] plain_literal_canonical [of lit] by auto
  qed simp
  then have "\<not> changed \<Longrightarrow> concat (map write_token (tokens json)) = json"
    using concat_tokens [of json] by (metis map_cong)
  then have "out = concat (map write_token (tokens json))"
    using out by auto
  then show ?thesis
    using bytes len by simp
qed

end
