(* ===== verification/Features.thy ===== *)
theory Features
  imports Errors "HOL-Library.Sublist"
begin

text \<open>
  The reserved namespaces and the feature marker (\<open>features.rs\<close>, built with the \<open>journal\<close> cargo
  feature): which stored formats a table declares, and what a writer validates before it writes.
  A \<open>BTreeSet<String>\<close> is a \<open>BTreeMap\<close> with unit values.
\<close>

definition SYSTEM_PREFIX :: string where "SYSTEM_PREFIX = ''SYSTEM#''"
definition COMMAND_OUTCOME_PREFIX :: string where "COMMAND_OUTCOME_PREFIX = ''command-outcome#''"
definition FEATURES_ID :: string where "FEATURES_ID = ''SYSTEM#FEATURES''"
definition STREAM_HEADS_FEATURE :: string where "STREAM_HEADS_FEATURE = ''stream-heads''"
definition STREAM_HEADS_VERSION :: int where "STREAM_HEADS_VERSION = 1"
definition JOURNAL_FEATURE :: string where "JOURNAL_FEATURE = ''journal''"
definition JOURNAL_VERSION :: int where "JOURNAL_VERSION = 1"
definition JOURNAL_COMPACTION_FEATURE :: string where
  "JOURNAL_COMPACTION_FEATURE = ''journal-compaction''"
definition JOURNAL_COMPACTION_VERSION :: int where "JOURNAL_COMPACTION_VERSION = 1"
definition POSTGRES_VIEWS_FEATURE :: string where "POSTGRES_VIEWS_FEATURE = ''postgres-views''"
definition POSTGRES_VIEWS_VERSION :: int where "POSTGRES_VIEWS_VERSION = 1"

lemmas feature_names = STREAM_HEADS_FEATURE_def JOURNAL_FEATURE_def JOURNAL_COMPACTION_FEATURE_def
  POSTGRES_VIEWS_FEATURE_def STREAM_HEADS_VERSION_def JOURNAL_VERSION_def
  JOURNAL_COMPACTION_VERSION_def POSTGRES_VIEWS_VERSION_def

definition SUPPORTED_FEATURES :: "(string \<times> int) list" where
  "SUPPORTED_FEATURES =
    [(JOURNAL_FEATURE, JOURNAL_VERSION),
     (JOURNAL_COMPACTION_FEATURE, JOURNAL_COMPACTION_VERSION),
     (POSTGRES_VIEWS_FEATURE, POSTGRES_VIEWS_VERSION),
     (STREAM_HEADS_FEATURE, STREAM_HEADS_VERSION)]"

definition is_reserved :: "entity_id \<Rightarrow> bool" where
  "is_reserved entity \<longleftrightarrow> prefix SYSTEM_PREFIX entity \<or> prefix COMMAND_OUTCOME_PREFIX entity"

definition check_not_reserved :: "entity_id \<Rightarrow> error + unit" where
  "check_not_reserved entity = ensure (\<not> is_reserved entity) (ReservedEntityId entity)"

section \<open>The manifest\<close>

type_synonym string_set = "(string, unit) btree"

record feature_manifest =
  fm_version :: int
  fm_features :: "(string, int) btree"
  fm_history_dependent :: string_set
  fm_retention :: string_set

definition default_manifest :: feature_manifest where
  "default_manifest =
    \<lparr>fm_version = 0, fm_features = bt_empty, fm_history_dependent = bt_empty,
     fm_retention = bt_empty\<rparr>"

definition is_history_dependent :: "feature_manifest \<Rightarrow> entity_type \<Rightarrow> bool" where
  "is_history_dependent m ty = bt_contains (fm_history_dependent m) ty"

definition is_retained :: "feature_manifest \<Rightarrow> entity_type \<Rightarrow> bool" where
  "is_retained m ty = bt_contains (fm_retention m) ty"

definition declares_stream_heads :: "feature_manifest \<Rightarrow> bool" where
  "declares_stream_heads m \<longleftrightarrow> bt_get (fm_features m) STREAM_HEADS_FEATURE = Some STREAM_HEADS_VERSION"

definition declares_journal :: "feature_manifest \<Rightarrow> bool" where
  "declares_journal m \<longleftrightarrow> bt_get (fm_features m) JOURNAL_FEATURE = Some JOURNAL_VERSION"

definition declare_journal :: "feature_manifest \<Rightarrow> feature_manifest" where
  "declare_journal m = m\<lparr>fm_features := bt_insert JOURNAL_FEATURE JOURNAL_VERSION (fm_features m)\<rparr>"

definition declare_stream_heads :: "feature_manifest \<Rightarrow> feature_manifest" where
  "declare_stream_heads m =
    m\<lparr>fm_features := bt_insert STREAM_HEADS_FEATURE STREAM_HEADS_VERSION (fm_features m)\<rparr>"

definition validate_supported :: "feature_manifest \<Rightarrow> error + unit" where
  "validate_supported m =
    for_each (\<lambda>(name, version). ensure ((name, version) \<in> set SUPPORTED_FEATURES)
                                       (UnsupportedFeature name version)) (fm_features m)"

section \<open>What a writer validates\<close>

datatype validated_marker = Absent | Version int

definition marker_matches :: "validated_marker option \<Rightarrow> feature_manifest option \<Rightarrow> bool" where
  "marker_matches validated observed =
    (case (validated, observed) of
       (Some Absent, None) \<Rightarrow> True
     | (Some (Version version), Some manifest) \<Rightarrow> fm_version manifest = version
     | _ \<Rightarrow> False)"

definition JOURNAL_ONLY :: "string list" where
  "JOURNAL_ONLY = [JOURNAL_FEATURE, JOURNAL_COMPACTION_FEATURE]"

definition refuse_journal :: "feature_manifest \<Rightarrow> error + unit" where
  "refuse_journal m =
    for_each (\<lambda>feature. case bt_get (fm_features m) feature of
        Some version \<Rightarrow> Inl (UnsupportedFeature feature version) | None \<Rightarrow> Inr ()) JOURNAL_ONLY"

definition validate_marker_for_write :: "feature_manifest option \<Rightarrow> bool \<Rightarrow> error + validated_marker" where
  "validate_marker_for_write observed journaling =
    (case observed of None \<Rightarrow> Inl StreamHeadsNotMigrated
     | Some manifest \<Rightarrow>
         and_then (validate_supported manifest) (\<lambda>_.
         and_then (if journaling then Inr () else refuse_journal manifest) (\<lambda>_.
         if declares_stream_heads manifest then Inr (Version (fm_version manifest))
         else Inl StreamHeadsNotMigrated)))"

text \<open>The types \<open>declare_history\<close> adds: those the observed manifest does not hold yet.\<close>

definition missing_history :: "feature_manifest option \<Rightarrow> entity_type list \<Rightarrow> entity_type list" where
  "missing_history manifest types =
    filter (\<lambda>ty. \<not> (case manifest of None \<Rightarrow> False | Some m \<Rightarrow> is_history_dependent m ty)) types"

definition extend_history :: "entity_type list \<Rightarrow> feature_manifest \<Rightarrow> feature_manifest" where
  "extend_history missing m =
    m\<lparr>fm_history_dependent := fold (\<lambda>ty. bt_insert ty ()) missing (fm_history_dependent m)\<rparr>"

section \<open>Properties\<close>

lemma declares_declare_stream_heads [simp]: "declares_stream_heads (declare_stream_heads m)"
  by (simp add: declares_stream_heads_def declare_stream_heads_def bt_simps)

lemma check_not_reserved_ok [result_simps]: "check_not_reserved e = Inr u \<longleftrightarrow> \<not> is_reserved e"
  by (simp add: check_not_reserved_def result_simps)

lemma validate_supported_ok:
  "validate_supported m = Inr u \<longleftrightarrow> set (fm_features m) \<subseteq> set SUPPORTED_FEATURES"
  by (auto simp: validate_supported_def result_simps split: prod.splits)

lemma refuse_journal_ok:
  "refuse_journal m = Inr u \<longleftrightarrow>
    bt_get (fm_features m) JOURNAL_FEATURE = None
    \<and> bt_get (fm_features m) JOURNAL_COMPACTION_FEATURE = None"
  by (auto simp: refuse_journal_def JOURNAL_ONLY_def result_simps split: option.splits)

lemma validate_marker_for_write_ok:
  "validate_marker_for_write observed journaling = Inr v \<longleftrightarrow>
    (\<exists>m. observed = Some m \<and> v = Version (fm_version m)
         \<and> set (fm_features m) \<subseteq> set SUPPORTED_FEATURES
         \<and> declares_stream_heads m
         \<and> (\<not> journaling \<longrightarrow> bt_get (fm_features m) JOURNAL_FEATURE = None
              \<and> bt_get (fm_features m) JOURNAL_COMPACTION_FEATURE = None))"
  by (cases observed)
    (auto simp: validate_marker_for_write_def result_simps validate_supported_ok refuse_journal_ok
      split: if_splits)

lemma marker_matches_validated:
  "validate_marker_for_write observed journaling = Inr v \<Longrightarrow> marker_matches (Some v) observed"
  by (auto simp: validate_marker_for_write_ok marker_matches_def)

lemma extend_history_contains:
  "is_history_dependent (extend_history missing m) ty \<longleftrightarrow> ty \<in> set missing \<or> is_history_dependent m ty"
proof -
  have "bt_contains (fold (\<lambda>ty. bt_insert ty ()) missing s) ty \<longleftrightarrow> ty \<in> set missing \<or> bt_contains s ty" for s
    by (induction missing arbitrary: s) (auto simp: bt_simps)
  then show ?thesis
    by (simp add: extend_history_def is_history_dependent_def)
qed

lemma declare_history_contains:
  assumes "ty \<in> set types"
  shows "is_history_dependent
    (extend_history (missing_history manifest types)
      (case manifest of None \<Rightarrow> default_manifest | Some m \<Rightarrow> m)) ty"
  using assms by (auto simp: extend_history_contains missing_history_def split: option.splits)

end
