(* ===== verification/Base64.thy ===== *)
theory Base64
  imports Errors
begin

text \<open>
  The base64 adapter of \<open>json.rs\<close>: padded, standard-alphabet base64, as the stored outcome's
  response uses it. Bytes and the 24-bit groups they form are natural numbers below their width; a
  shift left is a product and a shift right a division by a power of two, and the disjoint bits
  that the source joins with \<open>|\<close> are added. No group reaches 32 bits, so nothing wraps.
\<close>

definition ALPHABET :: string where
  "ALPHABET = ''ABCDEFGHIJKLMNOPQRSTUVWXYZabcdefghijklmnopqrstuvwxyz0123456789+/''"

definition symbol_of :: "nat \<Rightarrow> char" where
  "symbol_of k = ALPHABET ! (k mod 64)"

definition byte_value :: "char \<Rightarrow> nat" where
  "byte_value c = of_char c"

definition byte_of :: "nat \<Rightarrow> char" where
  "byte_of k = char_of (k mod 256)"

text \<open>One chunk of up to three bytes.\<close>

definition encode_chunk :: "string \<Rightarrow> string" where
  "encode_chunk chunk =
    (let b0 = byte_value (chunk ! 0);
         b1 = (if length chunk > 1 then byte_value (chunk ! 1) else 0);
         b2 = (if length chunk > 2 then byte_value (chunk ! 2) else 0);
         triple = b0 * 65536 + b1 * 256 + b2
     in [symbol_of (triple div 262144), symbol_of (triple div 4096),
         if length chunk > 1 then symbol_of (triple div 64) else CHR ''='',
         if length chunk > 2 then symbol_of triple else CHR ''=''])"

function base64_encode :: "bytes \<Rightarrow> string" where
  "base64_encode bytes =
    (if bytes = [] then [] else encode_chunk (take 3 bytes) @ base64_encode (drop 3 bytes))"
  by auto
termination base64_encode
  by (relation "measure length") auto

declare base64_encode.simps [simp del]

definition decode_symbol :: "char \<Rightarrow> nat option" where
  "decode_symbol c =
    (let n = of_char c :: nat
     in if 65 \<le> n \<and> n \<le> 90 then Some (n - 65)
        else if 97 \<le> n \<and> n \<le> 122 then Some (n - 97 + 26)
        else if 48 \<le> n \<and> n \<le> 57 then Some (n - 48 + 52)
        else if n = 43 then Some 62
        else if n = 47 then Some 63
        else None)"

text \<open>The inner loop: the value of a quad, from the offset it has reached.\<close>

fun quad_value :: "nat \<Rightarrow> nat \<Rightarrow> nat \<Rightarrow> nat \<Rightarrow> string \<Rightarrow> message + nat" where
  "quad_value index padding offset triple [] = Inr triple"
| "quad_value index padding offset triple (c # cs) =
    (if offset \<ge> 4 - padding then quad_value index padding (offset + 1) (triple * 64) cs
     else case decode_symbol c of
       None \<Rightarrow> Inl (Msg ''illegal base64 data at input byte {}'' [AI (int (index * 4 + offset))])
     | Some v \<Rightarrow> quad_value index padding (offset + 1) (triple * 64 + v) cs)"

definition decode_quad :: "nat \<Rightarrow> bool \<Rightarrow> string \<Rightarrow> message + bytes" where
  "decode_quad index last_quad quad =
    (let padding = length (takeWhile (\<lambda>c. c = CHR ''='') (rev quad))
     in if padding > 2 \<or> (padding > 0 \<and> \<not> last_quad)
        then Inl (Msg ''illegal base64 data at input byte {}'' [AI (int (index * 4))])
        else and_then (quad_value index padding 0 0 quad) (\<lambda>triple.
          Inr ([byte_of (triple div 65536)] @ (if padding < 2 then [byte_of (triple div 256)] else [])
               @ (if padding < 1 then [byte_of triple] else []))))"

function decode_quads :: "nat \<Rightarrow> nat \<Rightarrow> string \<Rightarrow> message + bytes" where
  "decode_quads index count symbols =
    (if symbols = [] then Inr []
     else and_then (decode_quad index (index = count - 1) (take 4 symbols)) (\<lambda>out.
          and_then (decode_quads (index + 1) count (drop 4 symbols)) (\<lambda>rest. Inr (out @ rest))))"
  by auto
termination decode_quads
  by (relation "measure (\<lambda>(_, _, symbols). length symbols)") auto

declare decode_quads.simps [simp del]

definition base64_decode :: "string \<Rightarrow> message + bytes" where
  "base64_decode input =
    (let symbols = filter (\<lambda>b. b \<noteq> CHR 0x0D \<and> b \<noteq> CHR 0x0A) input
     in if length symbols mod 4 \<noteq> 0
        then Inl (Msg ''illegal base64 data: length {}'' [AI (int (length symbols))])
        else decode_quads 0 (length symbols div 4) symbols)"

section \<open>The round trip\<close>

lemma length_ALPHABET [simp]: "length ALPHABET = 64"
  by (simp add: ALPHABET_def)

lemma decode_ALPHABET: "map decode_symbol ALPHABET = map Some [0..<64]"
  by (simp add: ALPHABET_def decode_symbol_def upt_rec)

lemma ALPHABET_plain: "CHR ''='' \<notin> set ALPHABET" "CHR 0x0D \<notin> set ALPHABET" "CHR 0x0A \<notin> set ALPHABET"
  by (simp_all add: ALPHABET_def)

lemma decode_symbol_of [simp]: "decode_symbol (symbol_of k) = Some (k mod 64)"
proof -
  have "map decode_symbol ALPHABET ! (k mod 64) = Some (k mod 64)"
    by (simp add: decode_ALPHABET del: map_upt_Suc)
  then show ?thesis
    by (simp add: symbol_of_def)
qed

lemma symbol_of_plain [simp]:
  "symbol_of k \<noteq> CHR ''=''" "symbol_of k \<noteq> CHR 0x0D" "symbol_of k \<noteq> CHR 0x0A"
proof -
  have "symbol_of k \<in> set ALPHABET"
    by (simp add: symbol_of_def)
  then show "symbol_of k \<noteq> CHR ''=''" "symbol_of k \<noteq> CHR 0x0D" "symbol_of k \<noteq> CHR 0x0A"
    using ALPHABET_plain by metis+
qed

lemma byte_value_less [simp]: "byte_value c < 256"
  by (simp add: byte_value_def)

lemma byte_of_value [simp]: "byte_of (byte_value c) = c"
  by (simp add: byte_of_def byte_value_def)

text \<open>Four six-bit digits of a 24-bit group rebuild it.\<close>

lemma sextets:
  fixes t :: nat
  assumes "t < 16777216"
  shows "(((t div 262144 mod 64) * 64 + t div 4096 mod 64) * 64 + t div 64 mod 64) * 64 + t mod 64 = t"
proof -
  have "t div 262144 < 64"
    using assms by (simp add: less_mult_imp_div_less)
  moreover have "t div 4096 = t div 64 div 64" "t div 262144 = t div 64 div 64 div 64"
    by (simp_all add: div_mult2_eq [symmetric])
  ultimately show ?thesis
    by simp
qed

lemma encode_chunk_plain:
  "c \<in> set (encode_chunk chunk) \<Longrightarrow> c \<noteq> CHR 0x0D \<and> c \<noteq> CHR 0x0A"
  by (auto simp: encode_chunk_def Let_def split: if_splits)

lemma length_encode_chunk [simp]: "length (encode_chunk chunk) = 4"
  by (simp add: encode_chunk_def Let_def)

lemma encode_chunk_nonempty [simp]: "encode_chunk chunk \<noteq> []"
  by (simp add: encode_chunk_def Let_def)

lemma byte_of_bytes:
  "byte_of ((byte_value a * 65536 + byte_value b * 256 + byte_value c) div 65536) = a"
  "byte_of ((byte_value a * 65536 + byte_value b * 256 + byte_value c) div 256) = b"
  "byte_of (byte_value a * 65536 + byte_value b * 256 + byte_value c) = c"
proof -
  let ?t = "byte_value a * 65536 + byte_value b * 256 + byte_value c"
  have split: "?t = (byte_value a * 256 + byte_value b) * 256 + byte_value c"
    by simp
  have low: "(m * 256 + byte_value d) div 256 = m" "(m * 256 + byte_value d) mod 256 = byte_value d" for m d
    using byte_value_less [of d] by simp_all
  have div256: "?t div 256 = byte_value a * 256 + byte_value b"
    unfolding split by (rule low)
  have "?t div 65536 = ?t div 256 div 256"
    by (simp only: div_mult2_eq [symmetric]) simp
  also have "\<dots> = byte_value a"
    unfolding div256 by (rule low)
  finally show "byte_of (?t div 65536) = a"
    by simp
  have "?t mod 256 = byte_value c"
    unfolding split by (rule low)
  then show "byte_of ?t = c"
    by (simp only: byte_of_def) (simp add: byte_value_def)
  have "?t div 256 mod 256 = byte_value b"
    unfolding div256 by (rule low)
  then show "byte_of (?t div 256) = b"
    by (simp only: byte_of_def) (simp add: byte_value_def)
qed

lemma triple_less: "byte_value a * 65536 + byte_value b * 256 + byte_value c < 16777216"
proof -
  have "byte_value a < 256" "byte_value b < 256" "byte_value c < 256"
    by simp_all
  then show ?thesis
    by linarith
qed

text \<open>A quad of symbols decodes to the bytes of the group it came from: four symbols, or three or
  two when the missing bits are zero.\<close>

lemma quad_value_4:
  "quad_value index 0 0 0 [symbol_of w, symbol_of x, symbol_of y, symbol_of z] =
    Inr (((w mod 64 * 64 + x mod 64) * 64 + y mod 64) * 64 + z mod 64)"
  "quad_value index (Suc 0) 0 0 [symbol_of w, symbol_of x, symbol_of y, CHR ''=''] =
    Inr (((w mod 64 * 64 + x mod 64) * 64 + y mod 64) * 64 + 0)"
  "quad_value index (Suc (Suc 0)) 0 0 [symbol_of w, symbol_of x, CHR ''='', CHR ''=''] =
    Inr (((w mod 64 * 64 + x mod 64) * 64 + 0) * 64 + 0)"
  by simp_all

lemma decode_quad_4:
  assumes "t < 16777216"
  shows "decode_quad index last_quad
      [symbol_of (t div 262144), symbol_of (t div 4096), symbol_of (t div 64), symbol_of t] =
    Inr [byte_of (t div 65536), byte_of (t div 256), byte_of t]"
proof -
  have "quad_value index 0 0 0
      [symbol_of (t div 262144), symbol_of (t div 4096), symbol_of (t div 64), symbol_of t] = Inr t"
    by (simp only: quad_value_4 sextets [OF assms])
  then show ?thesis
    by (simp add: decode_quad_def del: quad_value.simps)
qed

lemma decode_quad_3:
  assumes "t < 16777216" and "t mod 64 = 0"
  shows "decode_quad index True
      [symbol_of (t div 262144), symbol_of (t div 4096), symbol_of (t div 64), CHR ''=''] =
    Inr [byte_of (t div 65536), byte_of (t div 256)]"
proof -
  have "((t div 262144 mod 64 * 64 + t div 4096 mod 64) * 64 + t div 64 mod 64) * 64 + 0 = t"
    using sextets [OF assms(1)] unfolding assms(2) .
  then have "quad_value index (Suc 0) 0 0
      [symbol_of (t div 262144), symbol_of (t div 4096), symbol_of (t div 64), CHR ''=''] = Inr t"
    by (simp only: quad_value_4)
  then show ?thesis
    by (simp add: decode_quad_def del: quad_value.simps)
qed

lemma decode_quad_2:
  assumes "t < 16777216" and "t mod 64 = 0" and "t div 64 mod 64 = 0"
  shows "decode_quad index True
      [symbol_of (t div 262144), symbol_of (t div 4096), CHR ''='', CHR ''=''] =
    Inr [byte_of (t div 65536)]"
proof -
  have "((t div 262144 mod 64 * 64 + t div 4096 mod 64) * 64 + 0) * 64 + 0 = t"
    using sextets [OF assms(1)] unfolding assms(2,3) .
  then have "quad_value index (Suc (Suc 0)) 0 0
      [symbol_of (t div 262144), symbol_of (t div 4096), CHR ''='', CHR ''=''] = Inr t"
    by (simp only: quad_value_4)
  then show ?thesis
    by (simp add: decode_quad_def del: quad_value.simps)
qed

lemma triple_zero_bits:
  "(byte_value a * 65536 + byte_value b * 256 + 0) mod 64 = 0"
  "(byte_value a * 65536 + 0 * 256 + 0) mod 64 = 0"
  "(byte_value a * 65536 + 0 * 256 + 0) div 64 mod 64 = 0"
proof -
  have eq: "byte_value a * 65536 + byte_value b * 256 + 0 = (byte_value a * 1024 + byte_value b * 4) * 64"
    "byte_value a * 65536 + 0 * 256 + 0 = (byte_value a * 16 * 64) * 64"
    by simp_all
  show "(byte_value a * 65536 + byte_value b * 256 + 0) mod 64 = 0"
    unfolding eq(1) by (rule mod_mult_self2_is_0)
  show "(byte_value a * 65536 + 0 * 256 + 0) mod 64 = 0"
    unfolding eq(2) by (rule mod_mult_self2_is_0)
  show "(byte_value a * 65536 + 0 * 256 + 0) div 64 mod 64 = 0"
    unfolding eq(2) by simp
qed

lemma byte_value_nul [simp]: "byte_value (CHR 0x00) = 0"
  by (simp add: byte_value_def)

lemma decode_encode_chunk:
  assumes "chunk \<noteq> []" and "length chunk \<le> 3" and "length chunk < 3 \<Longrightarrow> last_quad"
  shows "decode_quad index last_quad (encode_chunk chunk) = Inr chunk"
proof -
  consider a where "chunk = [a]" | a b where "chunk = [a, b]" | a b c where "chunk = [a, b, c]"
    using assms(1,2) by (auto simp: neq_Nil_conv le_Suc_eq length_Suc_conv numeral_3_eq_3)
  then show ?thesis
  proof cases
    case 1
    then have l: "last_quad = True"
      using assms(3) by simp
    have "encode_chunk chunk =
        (let t = byte_value a * 65536 + 0 * 256 + 0
         in [symbol_of (t div 262144), symbol_of (t div 4096), CHR ''='', CHR ''=''])"
      by (simp add: 1 encode_chunk_def Let_def)
    then show ?thesis
      using triple_less [of a "CHR 0x00" "CHR 0x00"] byte_of_bytes(1) [of a "CHR 0x00" "CHR 0x00"]
        triple_zero_bits(2,3) [of a]
      by (simp only: Let_def l decode_quad_2 byte_value_nul 1)
  next
    case 2
    then have l: "last_quad = True"
      using assms(3) by simp
    have "encode_chunk chunk =
        (let t = byte_value a * 65536 + byte_value b * 256 + 0
         in [symbol_of (t div 262144), symbol_of (t div 4096), symbol_of (t div 64), CHR ''=''])"
      by (simp add: 2 encode_chunk_def Let_def)
    then show ?thesis
      using triple_less [of a b "CHR 0x00"] byte_of_bytes(1,2) [of a b "CHR 0x00"]
        triple_zero_bits(1) [of a b]
      by (simp only: Let_def l decode_quad_3 byte_value_nul 2)
  next
    case 3
    have "encode_chunk chunk =
        (let t = byte_value a * 65536 + byte_value b * 256 + byte_value c
         in [symbol_of (t div 262144), symbol_of (t div 4096), symbol_of (t div 64), symbol_of t])"
      by (simp add: 3 encode_chunk_def Let_def)
    then show ?thesis
      using triple_less [of a b c] byte_of_bytes [of a b c]
      by (simp only: Let_def decode_quad_4 3)
  qed
qed

lemma length_base64_encode: "length (base64_encode bytes) = 4 * ((length bytes + 2) div 3)"
proof (induction bytes rule: base64_encode.induct)
  case (1 bytes)
  show ?case
  proof (cases "bytes = []")
    case False
    then have "length (base64_encode bytes) = 4 + 4 * ((length bytes - 3 + 2) div 3)"
      using 1 by (subst base64_encode.simps) simp
    also have "\<dots> = 4 * ((length bytes + 2) div 3)"
    proof (cases "3 \<le> length bytes")
      case True
      then obtain m where "length bytes = m + 3"
        by (metis add.commute le_Suc_ex)
      moreover have "(m + 2 + 3) div 3 = (m + 2) div 3 + 1"
        by (rule div_add_self2) simp
      ultimately show ?thesis
        by (simp add: add.commute)
    next
      case False
      then have "length bytes = 1 \<or> length bytes = 2"
        using \<open>bytes \<noteq> []\<close> by (cases "length bytes") auto
      then show ?thesis
        by auto
    qed
    finally show ?thesis .
  qed (simp add: base64_encode.simps)
qed

lemma base64_encode_plain: "c \<in> set (base64_encode bytes) \<Longrightarrow> c \<noteq> CHR 0x0D \<and> c \<noteq> CHR 0x0A"
proof (induction bytes rule: base64_encode.induct)
  case (1 bytes)
  then show ?case
    by (subst (asm) (2) base64_encode.simps) (auto dest: encode_chunk_plain split: if_splits)
qed

lemma decode_quads_encode:
  "count = index + length (base64_encode bytes) div 4 \<Longrightarrow>
    decode_quads index count (base64_encode bytes) = Inr bytes"
proof (induction bytes arbitrary: index rule: base64_encode.induct)
  case (1 bytes)
  show ?case
  proof (cases "bytes = []")
    case False
    let ?chunk = "take 3 bytes" and ?rest = "drop 3 bytes"
    have enc: "base64_encode bytes = encode_chunk ?chunk @ base64_encode ?rest"
      using False by (subst base64_encode.simps) simp
    have "decode_quad index (index = count - 1) (encode_chunk ?chunk) = Inr ?chunk"
    proof (rule decode_encode_chunk)
      assume "length ?chunk < 3"
      then have "?rest = []"
        by simp
      then show "index = count - 1"
        using 1(2) enc by (simp add: base64_encode.simps [of "[]"])
    qed (use False in auto)
    moreover have "decode_quads (index + 1) count (base64_encode ?rest) = Inr ?rest"
      by (rule 1(1)) (use False 1(2) enc in simp_all)
    ultimately show ?thesis
      unfolding enc by (subst decode_quads.simps) simp
  qed (simp add: base64_encode.simps [of "[]"] decode_quads.simps [of _ _ "[]"])
qed

lemma base64_round_trip: "base64_decode (base64_encode bytes) = Inr bytes"
proof -
  have "filter (\<lambda>b. b \<noteq> CHR 0x0D \<and> b \<noteq> CHR 0x0A) (base64_encode bytes) = base64_encode bytes"
    using base64_encode_plain by (auto simp: filter_id_conv)
  then show ?thesis
    using decode_quads_encode [of _ 0 bytes] by (simp add: base64_decode_def length_base64_encode)
qed

end
