(* ===== verification/Outcomes.thy ===== *)
theory Outcomes
  imports Numbers Features Base64
begin

text \<open>
  Durable command outcomes (\<open>outcome.rs\<close>): rejections and their stored text, the identity a row
  records and its digest bytes, the checks that run before a write and on a row that was read, and
  how a commit that carried an outcome is settled.

  The JSON encoder and parser are the \<open>serde_json\<close> package; a \<open>json_codec\<close> holds the functions of
  it that the code calls. Theorems that decode what was encoded state as hypotheses that parsing
  the texts involved gives back the encoded values.
\<close>

record json_codec =
  enc_metadata :: "metadata \<Rightarrow> string"
  enc_strings :: "string list \<Rightarrow> string"
  enc_rejection :: "rejection \<Rightarrow> string"
  dec_metadata :: "string \<Rightarrow> string + metadata option"
  dec_event_ids :: "string \<Rightarrow> string + string list option"
  dec_targets :: "string \<Rightarrow> string option list option"
  dec_rejection :: "string \<Rightarrow> string + rejection"
  enc_features :: "(string, int) btree \<Rightarrow> string"
  dec_features :: "string \<Rightarrow> string + (string, int) btree"
  dec_string_set :: "string \<Rightarrow> string + string list"
  enc_string_map :: "(string, string) btree \<Rightarrow> bytes"
  dec_string_map :: "bytes \<Rightarrow> string + (string, string) btree"

section \<open>Rejections\<close>

definition status_text :: "outcome_status \<Rightarrow> string" where
  "status_text s = (case s of Accepted \<Rightarrow> ''accepted'' | Rejected \<Rightarrow> ''rejected'')"

definition parse_status :: "string \<Rightarrow> outcome_status option" where
  "parse_status t =
    (if t = ''accepted'' then Some Accepted else if t = ''rejected'' then Some Rejected else None)"

definition NOT_FOUND :: string where "NOT_FOUND = ''not-found''"
definition BAD_COMMAND :: string where "BAD_COMMAND = ''bad-command''"
definition STALE_FENCE :: string where "STALE_FENCE = ''stale-fence''"
definition STALE_VERSION :: string where "STALE_VERSION = ''stale-version''"

definition new_rejection :: "string \<Rightarrow> string \<Rightarrow> rejection" where
  "new_rejection code msg = \<lparr>rj_code = code, rj_message = msg, rj_details = None\<rparr>"

definition with_details :: "rejection \<Rightarrow> json \<Rightarrow> rejection" where
  "with_details r details = r\<lparr>rj_details := (if details = JNull then None else Some details)\<rparr>"

definition stale_fence_rejection :: rejection where
  "stale_fence_rejection = new_rejection STALE_FENCE ''a caller-stamped fence went stale''"

definition retries_exhausted :: "nat \<Rightarrow> rejection" where
  "retries_exhausted attempts =
    with_details
      (new_rejection STALE_FENCE
        ''the state this command was decided on kept changing; retries were exhausted'')
      (JObject [(''attempts'', JNumber (show_nat attempts))])"

record stale_version =
  sv_entity_id :: entity_id
  sv_expected :: event_sequence
  sv_actual :: event_sequence

definition stale_version_rejection :: "stale_version list \<Rightarrow> rejection" where
  "stale_version_rejection stale =
    (let sorted_stale = sort_key sv_entity_id stale;
         streams = map (\<lambda>s. JObject [(''actual'', JNumber (show_int (sv_actual s))),
                                     (''entityId'', JString (sv_entity_id s)),
                                     (''expected'', JNumber (show_int (sv_expected s)))]) sorted_stale
     in with_details (new_rejection STALE_VERSION ''a client-expected stream version is stale'')
          (JObject [(''streams'', JArray streams)]))"

definition with_code :: "rejection \<Rightarrow> string \<Rightarrow> rejection" where
  "with_code r code = r\<lparr>rj_code := code\<rparr>"

fun is_object :: "json \<Rightarrow> bool" where
  "is_object (JObject _) = True"
| "is_object _ = False"

fun value_has_nul :: "json \<Rightarrow> bool" where
  "value_has_nul (JString t) = has_nul t"
| "value_has_nul (JArray items) = (\<exists>v \<in> set items. value_has_nul v)"
| "value_has_nul (JObject entries) = (\<exists>e \<in> set entries. has_nul (fst e) \<or> value_has_nul (snd e))"
| "value_has_nul _ = False"

definition encode_rejection :: "json_codec \<Rightarrow> rejection \<Rightarrow> error + string" where
  "encode_rejection j r =
    (if (case rj_details r of Some d \<Rightarrow> \<not> is_object d | None \<Rightarrow> False)
     then Inl (InvalidArgument (Msg ''rejection details must be a JSON object or absent'' []))
     else if has_nul (rj_code r) \<or> has_nul (rj_message r)
             \<or> (case rj_details r of Some d \<Rightarrow> value_has_nul d | None \<Rightarrow> False)
     then Inl (InvalidArgument
            (Msg ''a rejection must not contain U+0000 in its code, message, or details'' []))
     else canonical_numbers (enc_rejection j r))"

definition decode_rejection :: "json_codec \<Rightarrow> string \<Rightarrow> error + rejection" where
  "decode_rejection j t =
    (case dec_rejection j t of
       Inl err \<Rightarrow> Inl (InvalidRecord (Msg ''decode rejection: {err}'' [AS err]))
     | Inr r \<Rightarrow>
        (let details = (case rj_details r of Some d \<Rightarrow> if d = JNull then None else Some d | None \<Rightarrow> None);
             r' = r\<lparr>rj_details := details\<rparr>
         in if (case details of Some d \<Rightarrow> \<not> is_object d | None \<Rightarrow> False)
            then Inl (InvalidRecord (Msg ''decode rejection: details must be a JSON object or null'' []))
            else Inr r'))"

definition canonical_rejection :: "json_codec \<Rightarrow> rejection \<Rightarrow> error + rejection" where
  "canonical_rejection j r = and_then (encode_rejection j r) (decode_rejection j)"

section \<open>Outcomes\<close>

definition accepted_outcome :: "command_id \<Rightarrow> string \<Rightarrow> outcome" where
  "accepted_outcome command digest =
    \<lparr>oc_command_id = command, oc_status = Accepted, oc_digest = digest, oc_response = None,
     oc_event_ids = [], oc_rejection = None, oc_identity = None\<rparr>"

definition rejected_outcome :: "command_id \<Rightarrow> string \<Rightarrow> rejection \<Rightarrow> outcome" where
  "rejected_outcome command digest r =
    \<lparr>oc_command_id = command, oc_status = Rejected, oc_digest = digest, oc_response = None,
     oc_event_ids = [], oc_rejection = Some r, oc_identity = None\<rparr>"

definition with_identity :: "outcome \<Rightarrow> recorded_identity \<Rightarrow> outcome" where
  "with_identity o' identity = o'\<lparr>oc_identity := Some identity\<rparr>"

definition with_response :: "outcome \<Rightarrow> bytes \<Rightarrow> outcome" where
  "with_response o' response = o'\<lparr>oc_response := non_empty response\<rparr>"

definition is_noop :: "outcome \<Rightarrow> bool" where
  "is_noop o' \<longleftrightarrow> oc_status o' = Accepted \<and> oc_event_ids o' = []"

definition stored_outcome_of :: "outcome \<Rightarrow> event_id list \<Rightarrow> outcome" where
  "stored_outcome_of o' ids =
    o'\<lparr>oc_response := (case oc_response o' of Some r \<Rightarrow> non_empty r | None \<Rightarrow> None),
       oc_event_ids := ids\<rparr>"

text \<open>\<open>str::rsplit_once\<close>.\<close>

definition rsplit_once :: "char \<Rightarrow> string \<Rightarrow> (string \<times> string) option" where
  "rsplit_once c s =
    (if c \<in> set s
     then Some (rev (tl (dropWhile (\<lambda>x. x \<noteq> c) (rev s))), rev (takeWhile (\<lambda>x. x \<noteq> c) (rev s)))
     else None)"

definition canonical_event_id :: "event_id \<Rightarrow> bool" where
  "canonical_event_id i =
    (case rsplit_once CHR '':'' i of None \<Rightarrow> False
     | Some (entity, seq_text) \<Rightarrow> entity \<noteq> [] \<and>
        (case parse_i64 seq_text of None \<Rightarrow> False
         | Some parsed \<Rightarrow> parsed \<ge> 1 \<and> show_int parsed = seq_text))"

definition corrupt_outcome :: "command_id \<Rightarrow> string \<Rightarrow> error" where
  "corrupt_outcome command reason =
    InvalidRecord (Msg ''stored outcome for command {} is corrupt: {reason}'' [AS command, AS reason])"

definition validate_stored :: "outcome \<Rightarrow> error + unit" where
  "validate_stored o' =
    and_then (ensure (oc_digest o' \<noteq> []) (corrupt_outcome (oc_command_id o') ''the digest is missing'')) (\<lambda>_.
    and_then (case oc_status o' of
        Accepted \<Rightarrow> ensure (oc_rejection o' = None)
          (corrupt_outcome (oc_command_id o') ''an accepted outcome carries a rejection'')
      | Rejected \<Rightarrow> ensure (case oc_rejection o' of Some r \<Rightarrow> rj_code r \<noteq> [] | None \<Rightarrow> False)
          (corrupt_outcome (oc_command_id o') ''a rejected outcome has no rejection code'')) (\<lambda>_.
    for_each (\<lambda>i. ensure (canonical_event_id i) (corrupt_outcome (oc_command_id o')
        (''event ID '' @ i @ '' is not {entityId}:{sequence} with a positive canonical sequence'')))
      (oc_event_ids o')))"

section \<open>The recorded identity and its digest\<close>

record digest_input =
  di_command_type :: string
  di_targets :: "entity_id list"
  di_payload :: bytes
  di_principal :: string

definition sorted_targets :: "entity_id list \<Rightarrow> entity_id list" where
  "sorted_targets targets = remdups_adj (sort targets)"

definition identity_of :: "digest_input \<Rightarrow> recorded_identity" where
  "identity_of input =
    \<lparr>ri_command_type = di_command_type input, ri_targets = sorted_targets (di_targets input),
     ri_principal = non_empty (di_principal input)\<rparr>"

definition encode_targets :: "json_codec \<Rightarrow> recorded_identity \<Rightarrow> string" where
  "encode_targets j i = enc_strings j (ri_targets i)"

definition identity_size :: "json_codec \<Rightarrow> recorded_identity \<Rightarrow> nat" where
  "identity_size j i =
    length (ri_command_type i) + length (encode_targets j i)
    + (case ri_principal i of None \<Rightarrow> 0 | Some p \<Rightarrow> length p)"

definition decode_identity ::
  "json_codec \<Rightarrow> command_id \<Rightarrow> string option \<Rightarrow> string option \<Rightarrow> string option
    \<Rightarrow> error + recorded_identity option" where
  "decode_identity j command command_type targets caller =
    (case command_type of
       None \<Rightarrow> if targets \<noteq> None \<or> caller \<noteq> None
               then Inl (corrupt_outcome command
                      ''the recorded identity has targets or a principal but no command type'')
               else Inr None
     | Some ty \<Rightarrow>
        (case targets of
           None \<Rightarrow> Inl (corrupt_outcome command
                     ''the recorded identity has a command type but no targets'')
         | Some t \<Rightarrow>
            (case dec_targets j t of
               None \<Rightarrow> Inl (corrupt_outcome command
                         (''the recorded targets are not a JSON array of strings: '' @ t))
             | Some decoded \<Rightarrow>
                 if None \<in> set decoded
                 then Inl (corrupt_outcome command (''the recorded targets hold a null: '' @ t))
                 else Inr (Some \<lparr>ri_command_type = ty, ri_targets = map the decoded,
                                  ri_principal = caller\<rparr>))))"

definition DIGEST_TAG :: string where "DIGEST_TAG = ''evt-cmd-digest-v1''"

text \<open>\<open>(n as u32).to_le_bytes()\<close>: the low 32 bits, the least significant byte first.\<close>

definition le32 :: "nat \<Rightarrow> bytes" where
  "le32 n = map (\<lambda>i. byte_of (n div 256 ^ i)) [0, 1, 2, 3]"

definition length_prefixed :: "bytes \<Rightarrow> bytes" where
  "length_prefixed x = le32 (length x) @ x"

definition canonical_digest_bytes :: "digest_input \<Rightarrow> bytes" where
  "canonical_digest_bytes input =
    (let targets = sorted_targets (di_targets input)
     in DIGEST_TAG @ [CHR 0x00] @ length_prefixed (di_command_type input)
        @ le32 (length targets) @ concat (map length_prefixed targets)
        @ length_prefixed (di_payload input) @ length_prefixed (di_principal input))"

section \<open>Checks before a write\<close>

definition MAX_COMMAND_ID_BYTES :: nat where "MAX_COMMAND_ID_BYTES = 512"

definition check_text :: "string \<Rightarrow> string \<Rightarrow> error + unit" where
  "check_text what value =
    ensure (\<not> has_nul value) (InvalidArgument (Msg ''{what} must not contain U+0000'' [AS what]))"

definition check_optional :: "string \<times> string option \<Rightarrow> error + unit" where
  "check_optional entry =
    (case snd entry of None \<Rightarrow> Inr () | Some value \<Rightarrow> check_text (fst entry) value)"

definition check_entry :: "string \<Rightarrow> string \<times> string \<Rightarrow> error + unit" where
  "check_entry what entry = and_then (check_text what (fst entry)) (\<lambda>_. check_text what (snd entry))"

definition check_metadata :: "metadata \<Rightarrow> error + unit" where
  "check_metadata m =
    and_then (for_each check_optional
       [(''commandId'', md_command_id m), (''causationId'', md_causation_id m),
        (''principalId'', md_principal_id m), (''address'', md_address m)]) (\<lambda>_.
    and_then (check_text ''region'' (md_region m)) (\<lambda>_.
    and_then (check_text ''timestamp'' (md_timestamp m)) (\<lambda>_.
    and_then (check_text ''commitId'' (md_commit_id m)) (\<lambda>_.
    and_then (case md_origin m of None \<Rightarrow> Inr ()
      | Some origin \<Rightarrow> and_then (check_text ''origin.source'' (or_source origin)) (\<lambda>_.
                       check_text ''origin.endpoint'' (or_endpoint origin))) (\<lambda>_.
    and_then (for_each (check_entry ''trace'') (case md_trace m of None \<Rightarrow> [] | Some t \<Rightarrow> t)) (\<lambda>_.
    for_each (check_entry ''extensions'') (md_extensions m)))))))"

definition check_event_text :: "serialized_event \<Rightarrow> error + unit" where
  "check_event_text e =
    and_then (check_text ''event.id'' (ev_id e)) (\<lambda>_.
    and_then (check_text ''event.type'' (ev_type e)) (\<lambda>_.
    and_then (check_text ''event.entityId'' (ev_entity_id e)) (\<lambda>_.
    and_then (check_text ''event.entityType'' (ev_entity_type e)) (\<lambda>_.
    check_metadata (ev_metadata e)))))"

definition check_commit_text ::
  "serialized_event list \<Rightarrow> entity_type list \<Rightarrow> entity_id list \<Rightarrow> error + unit" where
  "check_commit_text events entity_types entity_ids =
    and_then (for_each check_event_text events) (\<lambda>_.
    and_then (for_each (check_text ''entityType'') entity_types) (\<lambda>_.
    for_each (check_text ''entityId'') entity_ids))"

definition check_command_id :: "command_id \<Rightarrow> error + unit" where
  "check_command_id command =
    and_then (ensure (command \<noteq> [])
      (InvalidArgument (Msg ''a command ID is required when command outcomes are enabled'' []))) (\<lambda>_.
    and_then (ensure (\<not> has_nul command)
      (InvalidArgument (Msg ''a command ID must not contain U+0000'' []))) (\<lambda>_.
    ensure (length command \<le> MAX_COMMAND_ID_BYTES) (CommandIdTooLong (length command))))"

definition require_command_id :: "metadata \<Rightarrow> error + command_id" where
  "require_command_id m =
    (case (case md_command_id m of None \<Rightarrow> None | Some c \<Rightarrow> non_empty c) of
       None \<Rightarrow> Inl (InvalidArgument
                (Msg ''a command ID is required when command outcomes are enabled'' []))
     | Some command \<Rightarrow> and_then (check_command_id command) (\<lambda>_.
                        and_then (check_metadata m) (\<lambda>_. Inr command)))"

definition check_targets :: "entity_id list \<Rightarrow> error + unit" where
  "check_targets targets =
    for_each (\<lambda>t. and_then (check_text ''a target stream ID'' t) (\<lambda>_. check_not_reserved t)) targets"

definition check_outcome :: "json_codec \<Rightarrow> outcome \<Rightarrow> error + unit" where
  "check_outcome j o' =
    and_then (check_command_id (oc_command_id o')) (\<lambda>_.
    and_then (ensure (oc_digest o' \<noteq> [])
      (InvalidArgument (Msg ''an outcome needs an identity digest'' []))) (\<lambda>_.
    and_then (check_text ''an identity digest'' (oc_digest o')) (\<lambda>_.
    and_then (case oc_status o' of
        Accepted \<Rightarrow> ensure (oc_rejection o' = None)
          (InvalidArgument (Msg ''an accepted outcome carries no rejection'' []))
      | Rejected \<Rightarrow> ensure (case oc_rejection o' of None \<Rightarrow> False | Some r \<Rightarrow> rj_code r \<noteq> [])
          (InvalidArgument (Msg ''a rejected outcome needs a rejection with a code'' []))) (\<lambda>_.
    and_then (let response = (case oc_response o' of None \<Rightarrow> 0 | Some r \<Rightarrow> length r)
              in ensure (response \<le> MAX_OUTCOME_BYTES) (OutcomeTooLarge ''response'' response)) (\<lambda>_.
    and_then (case oc_rejection o' of None \<Rightarrow> Inr ()
      | Some r \<Rightarrow> and_then (encode_rejection j r) (\<lambda>_. Inr ())) (\<lambda>_.
    (case oc_identity o' of None \<Rightarrow> Inr ()
     | Some identity \<Rightarrow> ensure (identity_size j identity \<le> MAX_OUTCOME_BYTES)
                         (OutcomeTooLarge ''identity'' (identity_size j identity)))))))))"

text \<open>\<open>OutcomeConfig::digest\<close>, over the configured digester.\<close>

definition config_digest :: "(digest_input \<Rightarrow> string + string) \<Rightarrow> digest_input \<Rightarrow> error + string" where
  "config_digest digester input =
    and_then (check_text ''the command type'' (di_command_type input)) (\<lambda>_.
    and_then (check_text ''the principal'' (di_principal input)) (\<lambda>_.
    (case digester input of
       Inl err \<Rightarrow> Inl (InvalidArgument (Msg ''the command digester failed: {err}'' [AS err]))
     | Inr digest \<Rightarrow>
         and_then (ensure (digest \<noteq> [])
           (InvalidArgument (Msg ''the command digester returned an empty digest'' []))) (\<lambda>_.
         and_then (ensure (\<not> has_nul digest)
           (InvalidArgument (Msg ''the command digester returned a digest containing U+0000'' []))) (\<lambda>_.
         Inr digest)))))"

section \<open>Settling a commit\<close>

datatype settled = Committed | Replayed outcome

datatype polled =
    Found outcome
  | PollAbsent
  | Unreadable "error option"
  | Corrupt error

definition same_command :: "outcome \<Rightarrow> string \<Rightarrow> error + outcome" where
  "same_command stored digest =
    (if oc_digest stored = digest then Inr stored
     else Inl (IdempotencyKeyReuse (oc_command_id stored) stored))"

text \<open>\<open>pre_check\<close>, over the result of reading the row.\<close>

definition pre_check :: "error + outcome option \<Rightarrow> string \<Rightarrow> error + outcome option" where
  "pre_check row digest =
    and_then row (\<lambda>stored. case stored of
        Some o' \<Rightarrow> and_then (same_command o' digest) (\<lambda>x. Inr (Some x)) | None \<Rightarrow> Inr None)"

text \<open>The delay before the \<open>n\<close>-th repeat: 50 ms, doubling to one second.\<close>

fun poll_delay :: "nat \<Rightarrow> duration" where
  "poll_delay 0 = 50 * one_millisecond"
| "poll_delay (Suc n) = min (poll_delay n * 2) one_second"

lemma poll_delay_pos [simp]: "0 < poll_delay n"
  by (induction n) (simp_all add: one_millisecond_def one_second_def)

lemma poll_step:
  "(waited::nat) < window \<Longrightarrow> window - (waited + min (poll_delay n) (window - waited))
    < window - waited"
  using poll_delay_pos [of n] by (auto simp: min_def simp del: poll_delay_pos)

text \<open>The rounds of \<open>poll_loop\<close>: \<open>read n\<close> is the result of the \<open>n\<close>-th read. It returns what the poll
  found and the delays it slept.\<close>

function poll_rounds ::
  "(nat \<Rightarrow> error + outcome option) \<Rightarrow> nat \<Rightarrow> duration \<Rightarrow> duration \<Rightarrow> polled \<times> duration list" where
  "poll_rounds read n waited window =
    (case read n of
       Inr (Some o') \<Rightarrow> (Found o', [])
     | Inl e \<Rightarrow> ((case e of InvalidRecord _ \<Rightarrow> Corrupt e | _ \<Rightarrow> Unreadable (Some e)), [])
     | Inr None \<Rightarrow>
         if waited \<ge> window then (PollAbsent, [])
         else let step = min (poll_delay n) (window - waited);
                  (result, sleeps) = poll_rounds read (n + 1) (waited + step) window
              in (result, step # sleeps))"
  by pat_completeness auto
termination poll_rounds
  by (relation "measure (\<lambda>(_, _, waited, window). window - waited)") (auto simp: not_le poll_step)

declare poll_rounds.simps [simp del]

definition poll_loop :: "(nat \<Rightarrow> error + outcome option) \<Rightarrow> duration \<Rightarrow> polled \<times> duration list" where
  "poll_loop read window = poll_rounds read 0 0 window"

text \<open>\<open>poll_for_row\<close>: \<open>in_time\<close> says whether the poll finished before its deadline.\<close>

definition poll_for_row :: "(nat \<Rightarrow> error + outcome option) \<Rightarrow> bool \<Rightarrow> duration \<Rightarrow> polled" where
  "poll_for_row read in_time window =
    (if in_time then fst (poll_loop read window) else Unreadable None)"

definition may_have_lost_the_race :: "error \<Rightarrow> bool" where
  "may_have_lost_the_race e =
    (case e of Conflict _ _ \<Rightarrow> True | SequenceGap _ _ _ \<Rightarrow> True | FenceConflict _ _ _ \<Rightarrow> True
     | Transient source \<Rightarrow> (case source of BoxedTransactionConflict _ _ \<Rightarrow> True | _ \<Rightarrow> False)
     | _ \<Rightarrow> False)"

text \<open>\<open>settle\<close>, over the result of the one bounded read (\<open>None\<close> when it stalled) and of the poll,
  whichever the result calls for.\<close>

definition settle ::
  "(error + outcome option) option \<Rightarrow> polled \<Rightarrow> command_id \<Rightarrow> string \<Rightarrow> error + unit
    \<Rightarrow> error + settled" where
  "settle bounded polled command digest result =
    (case result of
       Inr _ \<Rightarrow> Inr Committed
     | Inl e \<Rightarrow>
        (case e of
           OutcomeConflict _ \<Rightarrow>
             (case bounded of
                Some (Inr (Some stored)) \<Rightarrow> and_then (same_command stored digest) (\<lambda>x. Inr (Replayed x))
              | Some (Inr None) \<Rightarrow> Inl e
              | Some (Inl err) \<Rightarrow> Inl err
              | None \<Rightarrow> Inl (Transient
                  (Boxed ''{conflict}, and its outcome row could not be read in time'')))
         | Indeterminate source \<Rightarrow>
             (case polled of
                Found stored \<Rightarrow> and_then (same_command stored digest) (\<lambda>x. Inr (Replayed x))
              | Corrupt err \<Rightarrow> Inl err
              | PollAbsent \<Rightarrow> Inl (AmbiguousWrite command source)
              | Unreadable None \<Rightarrow> Inl (AmbiguousWrite command source)
              | Unreadable (Some read) \<Rightarrow>
                  Inl (AmbiguousWrite command (BoxedRecoveryReadFailed source read)))
         | _ \<Rightarrow>
             if may_have_lost_the_race e then
               (case bounded of
                  Some (Inr (Some stored)) \<Rightarrow> and_then (same_command stored digest) (\<lambda>x. Inr (Replayed x))
                | Some (Inl err) \<Rightarrow> (case err of InvalidRecord _ \<Rightarrow> Inl err | _ \<Rightarrow> Inl e)
                | _ \<Rightarrow> Inl e)
             else Inl e))"

section \<open>Properties of the digest bytes\<close>

lemma nat_base_256:
  fixes n :: nat
  assumes "n < 4294967296"
  shows "n = ((n div 16777216 mod 256 * 256 + n div 65536 mod 256) * 256 + n div 256 mod 256) * 256 + n mod 256"
proof -
  have "n div 16777216 < 256"
    using assms by (simp add: less_mult_imp_div_less)
  moreover have "n div 65536 = n div 256 div 256" "n div 16777216 = n div 256 div 256 div 256"
    by (simp_all add: div_mult2_eq [symmetric])
  ultimately show ?thesis
    by simp
qed

lemma byte_of_inject: "byte_of m = byte_of n \<longleftrightarrow> m mod 256 = n mod 256"
proof
  assume "byte_of m = byte_of n"
  then have "of_char (byte_of m) = (of_char (byte_of n) :: nat)"
    by simp
  then show "m mod 256 = n mod 256"
    by (simp add: byte_of_def)
qed (simp add: byte_of_def)

lemma length_le32 [simp]: "length (le32 n) = 4"
  by (simp add: le32_def)

lemma le32_inject:
  assumes "m < 4294967296" and "n < 4294967296" and "le32 m = le32 n"
  shows "m = n"
proof -
  have eq: "m mod 256 = n mod 256" "m div 256 mod 256 = n div 256 mod 256"
    "m div 65536 mod 256 = n div 65536 mod 256" "m div 16777216 mod 256 = n div 16777216 mod 256"
    using assms(3) by (simp_all add: le32_def byte_of_inject)
  show ?thesis
    by (subst nat_base_256 [OF assms(1)], subst nat_base_256 [OF assms(2)]) (simp only: eq)
qed

abbreviation fits_u32 :: "'a list \<Rightarrow> bool" where
  "fits_u32 xs \<equiv> length xs < 4294967296"

lemma length_prefixed_inject:
  assumes "fits_u32 x" and "fits_u32 y" and "length_prefixed x @ r = length_prefixed y @ s"
  shows "x = y \<and> r = s"
proof -
  have split: "le32 (length x) = le32 (length y)" "x @ r = y @ s"
    using assms(3) by (simp_all add: length_prefixed_def)
  then have "length x = length y"
    using le32_inject [OF assms(1,2)] by simp
  with split(2) show ?thesis
    by simp
qed

lemma concat_length_prefixed_inject:
  assumes "length xs = length ys" and "\<forall>x \<in> set xs. fits_u32 x" and "\<forall>y \<in> set ys. fits_u32 y"
    and "concat (map length_prefixed xs) @ r = concat (map length_prefixed ys) @ s"
  shows "xs = ys \<and> r = s"
  using assms
proof (induction xs ys rule: list_induct2)
  case (Cons x xs y ys)
  have "x = y \<and> concat (map length_prefixed xs) @ r = concat (map length_prefixed ys) @ s"
    by (rule length_prefixed_inject) (use Cons.prems in auto)
  with Cons show ?case
    by auto
qed simp

text \<open>The identities whose lengths the 32-bit prefixes hold without wrapping.\<close>

definition digestible :: "digest_input \<Rightarrow> bool" where
  "digestible input \<longleftrightarrow>
    fits_u32 (di_command_type input) \<and> fits_u32 (di_targets input)
    \<and> (\<forall>t \<in> set (di_targets input). fits_u32 t)
    \<and> fits_u32 (di_payload input) \<and> fits_u32 (di_principal input)"

lemma length_sorted_targets: "length (sorted_targets targets) \<le> length targets"
  using remdups_adj_length [of "sort targets"] by (simp add: sorted_targets_def)

lemma set_sorted_targets [simp]: "set (sorted_targets targets) = set targets"
  by (simp add: sorted_targets_def)

lemma sorted_targets_eq_iff: "sorted_targets s = sorted_targets t \<longleftrightarrow> set s = set t"
  by (metis remdups_adj_sort_eq set_sorted_targets sorted_targets_def)

text \<open>Two identities have the same digest bytes exactly when they name the same command type, the
  same set of target streams, the same payload and the same principal.\<close>

lemma canonical_digest_bytes_inject:
  assumes "digestible a" and "digestible b"
  shows "canonical_digest_bytes a = canonical_digest_bytes b \<longleftrightarrow>
    di_command_type a = di_command_type b \<and> set (di_targets a) = set (di_targets b)
    \<and> di_payload a = di_payload b \<and> di_principal a = di_principal b"
proof
  assume eq: "canonical_digest_bytes a = canonical_digest_bytes b"
  let ?ta = "sorted_targets (di_targets a)" and ?tb = "sorted_targets (di_targets b)"
  note a = assms(1) [unfolded digestible_def] and b = assms(2) [unfolded digestible_def]
  have lens: "length ?ta < 4294967296" "length ?tb < 4294967296"
    using a b length_sorted_targets [of "di_targets a"] length_sorted_targets [of "di_targets b"]
    by linarith+
  from eq have "length_prefixed (di_command_type a) @ le32 (length ?ta)
        @ concat (map length_prefixed ?ta) @ length_prefixed (di_payload a) @ length_prefixed (di_principal a)
    = length_prefixed (di_command_type b) @ le32 (length ?tb)
        @ concat (map length_prefixed ?tb) @ length_prefixed (di_payload b) @ length_prefixed (di_principal b)"
    by (simp add: canonical_digest_bytes_def Let_def)
  then have ty: "di_command_type a = di_command_type b"
    and rest: "le32 (length ?ta) @ concat (map length_prefixed ?ta)
        @ length_prefixed (di_payload a) @ length_prefixed (di_principal a)
      = le32 (length ?tb) @ concat (map length_prefixed ?tb)
        @ length_prefixed (di_payload b) @ length_prefixed (di_principal b)"
    using length_prefixed_inject [of "di_command_type a" "di_command_type b"] a b by blast+
  then have len: "length ?ta = length ?tb"
    using le32_inject [OF lens] by simp
  with rest have "concat (map length_prefixed ?ta) @ length_prefixed (di_payload a) @ length_prefixed (di_principal a)
      = concat (map length_prefixed ?tb) @ length_prefixed (di_payload b) @ length_prefixed (di_principal b)"
    by simp
  then have ts: "?ta = ?tb"
    and pay: "length_prefixed (di_payload a) @ length_prefixed (di_principal a)
      = length_prefixed (di_payload b) @ length_prefixed (di_principal b)"
    using concat_length_prefixed_inject [OF len] a b by simp_all
  then have "di_payload a = di_payload b" "length_prefixed (di_principal a) = length_prefixed (di_principal b)"
    using length_prefixed_inject [OF _ _ pay] a b by auto
  moreover from this have "di_principal a = di_principal b"
    by (simp add: length_prefixed_def)
  ultimately show "di_command_type a = di_command_type b \<and> set (di_targets a) = set (di_targets b)
    \<and> di_payload a = di_payload b \<and> di_principal a = di_principal b"
    using ty ts sorted_targets_eq_iff by blast
next
  assume same: "di_command_type a = di_command_type b \<and> set (di_targets a) = set (di_targets b)
    \<and> di_payload a = di_payload b \<and> di_principal a = di_principal b"
  then have "sorted_targets (di_targets a) = sorted_targets (di_targets b)"
    using sorted_targets_eq_iff by blast
  with same show "canonical_digest_bytes a = canonical_digest_bytes b"
    by (simp add: canonical_digest_bytes_def)
qed

section \<open>Properties of polling and settling\<close>

lemma poll_rounds_again:
  assumes "read n = Inr None" and "waited < window"
  defines "step \<equiv> min (poll_delay n) (window - waited)"
  shows "poll_rounds read n waited window =
    (fst (poll_rounds read (n + 1) (waited + step) window),
     step # snd (poll_rounds read (n + 1) (waited + step) window))"
  using assms by (subst poll_rounds.simps) (simp add: Let_def split_beta)

lemma poll_rounds_stop:
  "\<not> (read n = Inr None \<and> waited < window) \<Longrightarrow> snd (poll_rounds read n waited window) = []"
  "window \<le> waited \<Longrightarrow> snd (poll_rounds read n waited window) = []"
  by (subst poll_rounds.simps, auto simp: Let_def split: sum.splits option.splits)+

lemma poll_rounds_absent:
  "fst (poll_rounds read n waited window) = PollAbsent \<Longrightarrow> read n = Inr None"
  by (subst (asm) poll_rounds.simps)
    (auto split: sum.splits option.splits error.splits)

lemma poll_rounds_waits:
  "waited \<le> window \<Longrightarrow>
    waited + sum_list (snd (poll_rounds read n waited window)) \<le> window
    \<and> (fst (poll_rounds read n waited window) = PollAbsent \<longrightarrow>
         waited + sum_list (snd (poll_rounds read n waited window)) = window)"
proof (induction "window - waited" arbitrary: n waited rule: less_induct)
  case less
  show ?case
  proof (cases "read n = Inr None \<and> waited < window")
    case True
    define step where "step = min (poll_delay n) (window - waited)"
    have "window - (waited + step) < window - waited"
      unfolding step_def by (rule poll_step) (use True in simp)
    moreover have "waited + step \<le> window"
      using less.prems by (simp add: step_def)
    ultimately show ?thesis
      using less.hyps [of "waited + step" "n + 1"] True
      by (simp add: poll_rounds_again step_def [symmetric] add.assoc)
  next
    case False
    then show ?thesis
      using less.prems poll_rounds_stop(1) [of read n waited window] poll_rounds_absent [of read n waited window]
      by (cases "read n = Inr None") auto
  qed
qed

lemma same_command_ok [result_simps]:
  "same_command stored digest = Inr x \<longleftrightarrow> oc_digest stored = digest \<and> x = stored"
  by (auto simp: same_command_def)

end
