(* ===== verification/Budget.thy ===== *)
theory Budget
  imports Errors
begin

text \<open>
  The transaction budget (\<open>repository.rs\<close>): at most 100 actions, \<open>MAX_COMMIT_BYTES\<close> in all and
  \<open>MAX_COMMIT_ITEM_BYTES\<close> for each. Sizes are \<open>usize\<close> values, summed with saturation.
\<close>

definition MAX_COMMIT_BYTES :: nat where "MAX_COMMIT_BYTES = 3800000"
definition MAX_COMMIT_ITEM_BYTES :: nat where "MAX_COMMIT_ITEM_BYTES = 380000"

text \<open>The loop of \<open>check_budget\<close>: the actions, the bytes and the largest item so far.\<close>

fun budget_totals :: "nat \<times> nat \<times> nat \<Rightarrow> nat list \<Rightarrow> nat \<times> nat \<times> nat" where
  "budget_totals acc [] = acc"
| "budget_totals (actions, bytes, largest) (s # sizes) =
    budget_totals (actions + 1, usize_saturating_add bytes s, max largest s) sizes"

definition check_budget :: "nat list \<Rightarrow> error + unit" where
  "check_budget sizes =
    (let (actions, bytes, largest_item) = budget_totals (0, 0, 0) sizes
     in if actions > 100 \<or> bytes > MAX_COMMIT_BYTES \<or> largest_item > MAX_COMMIT_ITEM_BYTES
        then Inl (CommitTooLarge actions bytes largest_item) else Inr ())"

section \<open>Properties\<close>

lemma usize_saturating_add_assoc_min:
  "usize_saturating_add (min usize_max a) b = min usize_max (a + b)"
  by (simp add: usize_saturating_add_def min_def)

lemma budget_totals_eq:
  assumes "b \<le> usize_max"
  shows "budget_totals (a, b, l) sizes =
    (a + length sizes, min usize_max (b + sum_list sizes), fold max sizes l)"
proof -
  have "budget_totals (a, min usize_max b, l) sizes =
    (a + length sizes, min usize_max (b + sum_list sizes), fold max sizes l)" for b
  proof (induction sizes arbitrary: a b l)
    case (Cons s sizes)
    then show ?case
      by (simp only: budget_totals.simps usize_saturating_add_assoc_min) (simp add: ac_simps)
  qed simp
  from this [of b] show ?thesis
    using assms by (simp add: min_absorb2)
qed

lemma fold_max_le: "fold max sizes l \<le> (m::nat) \<longleftrightarrow> l \<le> m \<and> (\<forall>s \<in> set sizes. s \<le> m)"
  by (induction sizes arbitrary: l) auto

lemma fold_max_ge: "(l::nat) \<le> fold max sizes l"
  using fold_max_le [of sizes l "fold max sizes l"] by simp

lemma check_budget_ok [result_simps]:
  "check_budget sizes = Inr u \<longleftrightarrow>
    length sizes \<le> 100 \<and> sum_list sizes \<le> MAX_COMMIT_BYTES
    \<and> (\<forall>s \<in> set sizes. s \<le> MAX_COMMIT_ITEM_BYTES)"
  using fold_max_le [of sizes 0 MAX_COMMIT_ITEM_BYTES]
  by (auto simp: check_budget_def budget_totals_eq MAX_COMMIT_BYTES_def usize_max_def not_less
      split: if_splits)

lemma check_budget_err:
  "check_budget sizes = Inl e \<Longrightarrow>
    e = CommitTooLarge (length sizes) (min usize_max (sum_list sizes)) (fold max sizes 0)"
  by (auto simp: check_budget_def budget_totals_eq split: if_splits)

end
