(* ===== verification/View_Ops.thy ===== *)
theory View_Ops
  imports Budget "HOL-Library.Sublist"
begin

text \<open>
  View operations (\<open>projection.rs\<close>): the writes a projector asks for, their sizes in the commit
  budget, and \<open>check_views\<close>, which every commit path runs before it writes. A projector's own
  conflict error is kept as its text.
\<close>

section \<open>Operations and rows\<close>

datatype view_condition = CondNone | CondAbsent | CondPresent

record view_operation =
  vo_kind :: view_operation_kind
  vo_pk :: string
  vo_sk :: string
  vo_owner :: entity_id
  vo_entity_type :: string
  vo_payload :: bytes
  vo_condition :: view_condition
  vo_conflict :: "string option"
  vo_expected_payload :: "bytes option"

definition view_put :: "string \<Rightarrow> string \<Rightarrow> entity_id \<Rightarrow> string \<Rightarrow> bytes \<Rightarrow> view_operation" where
  "view_put pk sk owner entity_type payload =
    \<lparr>vo_kind = Put, vo_pk = pk, vo_sk = sk, vo_owner = owner, vo_entity_type = entity_type,
     vo_payload = payload, vo_condition = CondNone, vo_conflict = None,
     vo_expected_payload = None\<rparr>"

definition view_delete :: "string \<Rightarrow> string \<Rightarrow> entity_id \<Rightarrow> view_operation" where
  "view_delete pk sk owner =
    \<lparr>vo_kind = Delete, vo_pk = pk, vo_sk = sk, vo_owner = owner, vo_entity_type = [],
     vo_payload = [], vo_condition = CondNone, vo_conflict = None, vo_expected_payload = None\<rparr>"

definition if_absent :: "view_operation \<Rightarrow> view_operation" where
  "if_absent op = op\<lparr>vo_condition := CondAbsent\<rparr>"

definition if_present :: "view_operation \<Rightarrow> view_operation" where
  "if_present op = op\<lparr>vo_condition := CondPresent\<rparr>"

definition if_payload :: "view_operation \<Rightarrow> bytes \<Rightarrow> view_operation" where
  "if_payload op payload = op\<lparr>vo_expected_payload := Some payload\<rparr>"

definition on_conflict :: "view_operation \<Rightarrow> string \<Rightarrow> view_operation" where
  "on_conflict op err = op\<lparr>vo_conflict := Some err\<rparr>"

record view_row =
  vr_pk :: string
  vr_sk :: string
  vr_entity_id :: string
  vr_entity_type :: string
  vr_payload :: bytes
  vr_ttl :: int

definition view_row_of :: "view_operation \<Rightarrow> view_row" where
  "view_row_of op =
    \<lparr>vr_pk = vo_pk op, vr_sk = vo_sk op, vr_entity_id = vo_owner op,
     vr_entity_type = vo_entity_type op, vr_payload = vo_payload op, vr_ttl = 0\<rparr>"

record projected_view =
  pv_projector :: string
  pv_projector_index :: nat
  pv_operation :: nat
  pv_op :: view_operation

text \<open>\<open>ProjectedView::provenance\<close>: the view without its row data.\<close>

definition view_provenance :: "projected_view \<Rightarrow> projected_view" where
  "view_provenance v =
    v\<lparr>pv_op := (pv_op v)\<lparr>vo_entity_type := [], vo_payload := [], vo_expected_payload := None\<rparr>\<rparr>"

definition REASON_CONDITION_FAILED :: string where
  "REASON_CONDITION_FAILED = ''ConditionalCheckFailed''"

definition for_view :: "projected_view \<Rightarrow> string \<Rightarrow> string option \<Rightarrow> projector_operation_error" where
  "for_view v reason cause =
    \<lparr>pe_projector = pv_projector v, pe_projector_index = pv_projector_index v,
     pe_operation = pv_operation v, pe_kind = vo_kind (pv_op v), pe_pk = vo_pk (pv_op v),
     pe_sk = vo_sk (pv_op v), pe_reason = reason,
     pe_mapped = (if reason = REASON_CONDITION_FAILED then vo_conflict (pv_op v) else None),
     pe_cause = cause\<rparr>"

definition condition_failed :: "projected_view \<Rightarrow> projector_operation_error" where
  "condition_failed v = for_view v REASON_CONDITION_FAILED None"

section \<open>Sizes\<close>

definition OWNER_PLACEHOLDER :: string where "OWNER_PLACEHOLDER = '':owner''"
definition VIEW_ABSENT_CONDITION :: string where
  "VIEW_ABSENT_CONDITION = ''attribute_not_exists(pk)''"
definition VIEW_PUT_CONDITION :: string where
  "VIEW_PUT_CONDITION = ''attribute_not_exists(pk) OR entityID = :owner''"
definition VIEW_PRESENT_CONDITION :: string where
  "VIEW_PRESENT_CONDITION = ''attribute_exists(pk) AND entityID = :owner''"
definition VIEW_DELETE_CONDITION :: string where
  "VIEW_DELETE_CONDITION = ''attribute_not_exists(pk) OR entityID = :owner''"

definition put_condition :: "view_condition \<Rightarrow> string" where
  "put_condition c = (case c of CondAbsent \<Rightarrow> VIEW_ABSENT_CONDITION | _ \<Rightarrow> VIEW_PUT_CONDITION)"

definition delete_condition :: "view_condition \<Rightarrow> string" where
  "delete_condition c = (case c of CondPresent \<Rightarrow> VIEW_PRESENT_CONDITION | _ \<Rightarrow> VIEW_DELETE_CONDITION)"

definition view_operation_size :: "view_operation \<Rightarrow> nat" where
  "view_operation_size op =
    (let keys = length ''pk'' + length (vo_pk op) + length ''sk'' + length (vo_sk op)
     in case vo_kind op of
          Delete \<Rightarrow> keys + length (delete_condition (vo_condition op)) + length OWNER_PLACEHOLDER
                    + length (vo_owner op)
        | Put \<Rightarrow> keys + length ''entityID'' + length (vo_owner op) + length ''entityType''
                 + length (vo_entity_type op) + length ''payload'' + length (vo_payload op))"

section \<open>Validation\<close>

definition MAX_VIEW_PK_BYTES :: nat where "MAX_VIEW_PK_BYTES = 2048"
definition MAX_VIEW_SK_BYTES :: nat where "MAX_VIEW_SK_BYTES = 1024"

definition nul_reason :: "string \<Rightarrow> string \<Rightarrow> string option" where
  "nul_reason name text = (if has_nul text then Some (name @ '' contains U+0000'') else None)"

definition invalid_reason :: "view_operation \<Rightarrow> string option" where
  "invalid_reason op =
    (if vo_kind op = Put \<and> vo_condition op = CondPresent
     then Some ''a put cannot carry the \"present\" condition''
     else if vo_kind op = Delete \<and> vo_condition op = CondAbsent
     then Some ''a delete cannot carry the \"absent\" condition''
     else if vo_expected_payload op \<noteq> None \<and> (vo_kind op \<noteq> Put \<or> vo_condition op \<noteq> CondNone)
     then Some ''an expected payload is valid only on a put with no other condition''
     else if vo_pk op = [] then Some ''pk is empty''
     else if vo_sk op = [] then Some ''sk is empty''
     else if vo_owner op = [] then Some ''owner is empty''
     else case nul_reason ''pk'' (vo_pk op) of Some r \<Rightarrow> Some r
     | None \<Rightarrow> (case nul_reason ''sk'' (vo_sk op) of Some r \<Rightarrow> Some r
     | None \<Rightarrow> (case nul_reason ''owner'' (vo_owner op) of Some r \<Rightarrow> Some r
     | None \<Rightarrow>
        if vo_kind op = Put then
          (case nul_reason ''entityType'' (vo_entity_type op) of Some r \<Rightarrow> Some r
           | None \<Rightarrow> if \<not> utf8_valid (vo_payload op) then Some ''payload is not valid UTF-8''
                     else nul_reason ''payload'' (vo_payload op))
        else None)))"

definition invalid_view :: "projected_view \<Rightarrow> string \<Rightarrow> error" where
  "invalid_view v reason =
    InvalidViewOperation (Msg ''projector {:?} (#{}) operation {}: {reason}''
      [AS (pv_projector v), AI (int (pv_projector_index v)), AI (int (pv_operation v)), AS reason])"

definition check_view_key :: "projected_view \<Rightarrow> error + unit" where
  "check_view_key v =
    for_each (\<lambda>(field, len, max). ensure (len \<le> max)
        (ViewKeyTooLong field len max (pv_projector v) (pv_operation v)))
      [(''pk'', length (vo_pk (pv_op v)), MAX_VIEW_PK_BYTES),
       (''sk'', length (vo_sk (pv_op v)), MAX_VIEW_SK_BYTES)]"

definition view_key :: "projected_view \<Rightarrow> string \<times> string" where
  "view_key v = (vo_pk (pv_op v), vo_sk (pv_op v))"

text \<open>The loop of \<open>check_views\<close>: \<open>seen\<close> maps a key to the operation that used it first.\<close>

fun check_views_from ::
  "((string \<times> string) \<times> (string \<times> nat)) list \<Rightarrow> projected_view list \<Rightarrow> error + unit" where
  "check_views_from seen [] = Inr ()"
| "check_views_from seen (v # vs) =
    (case invalid_reason (pv_op v) of Some reason \<Rightarrow> Inl (invalid_view v reason)
     | None \<Rightarrow> and_then (check_view_key v) (\<lambda>_.
        case map_of seen (view_key v) of
          Some first \<Rightarrow> Inl (DuplicateViewKey (vo_pk (pv_op v)) (vo_sk (pv_op v)) first
                              (pv_projector v, pv_operation v))
        | None \<Rightarrow> check_views_from ((view_key v, (pv_projector v, pv_operation v)) # seen) vs))"

definition check_views :: "projected_view list \<Rightarrow> error + unit" where
  "check_views views = check_views_from [] views"

section \<open>Properties\<close>

definition view_ok :: "projected_view \<Rightarrow> bool" where
  "view_ok v \<longleftrightarrow>
    invalid_reason (pv_op v) = None \<and> length (vo_pk (pv_op v)) \<le> MAX_VIEW_PK_BYTES
    \<and> length (vo_sk (pv_op v)) \<le> MAX_VIEW_SK_BYTES"

lemma check_view_key_ok [result_simps]:
  "check_view_key v = Inr u \<longleftrightarrow>
    length (vo_pk (pv_op v)) \<le> MAX_VIEW_PK_BYTES \<and> length (vo_sk (pv_op v)) \<le> MAX_VIEW_SK_BYTES"
  by (simp add: check_view_key_def ensure_def)

lemma check_views_from_ok:
  "check_views_from seen views = Inr u \<longleftrightarrow>
    (\<forall>v \<in> set views. view_ok v) \<and> distinct (map view_key views)
    \<and> (\<forall>v \<in> set views. view_key v \<notin> fst ` set seen)"
proof (induction seen views rule: check_views_from.induct)
  case (2 seen v vs)
  show ?case
  proof (cases "view_ok v \<and> map_of seen (view_key v) = None")
    case True
    then have key: "check_view_key v = Inr ()"
      by (simp add: view_ok_def check_view_key_ok)
    let ?seen = "(view_key v, (pv_projector v, pv_operation v)) # seen"
    have none: "invalid_reason (pv_op v) = None"
      using True by (simp add: view_ok_def)
    have "check_views_from seen (v # vs) = check_views_from ?seen vs"
      using True key none by simp
    moreover have "view_key v \<notin> fst ` set seen"
      using True by (simp add: map_of_eq_None_iff)
    moreover have "check_views_from ?seen vs = Inr u \<longleftrightarrow>
        (\<forall>v \<in> set vs. view_ok v) \<and> distinct (map view_key vs)
        \<and> (\<forall>v \<in> set vs. view_key v \<notin> fst ` set ?seen)"
      using True key none by (intro 2) auto
    ultimately show ?thesis
      using True by (auto simp: image_iff simp del: check_views_from.simps)
  next
    case False
    then have "check_views_from seen (v # vs) \<noteq> Inr u"
      by (auto simp: view_ok_def result_simps split: option.splits)
    then show ?thesis
      using False by (auto simp: map_of_eq_None_iff)
  qed
qed simp

lemma check_views_ok [result_simps]:
  "check_views views = Inr u \<longleftrightarrow> (\<forall>v \<in> set views. view_ok v) \<and> distinct (map view_key views)"
  by (simp add: check_views_def check_views_from_ok)

lemma view_ok_keys: "view_ok v \<Longrightarrow> vo_pk (pv_op v) \<noteq> [] \<and> vo_sk (pv_op v) \<noteq> [] \<and> vo_owner (pv_op v) \<noteq> []"
  by (auto simp: view_ok_def invalid_reason_def split: if_splits)

lemma view_ok_condition:
  assumes "view_ok v"
  shows "vo_condition (pv_op v) = CondPresent \<Longrightarrow> vo_kind (pv_op v) = Delete"
    and "vo_condition (pv_op v) = CondAbsent \<Longrightarrow> vo_kind (pv_op v) = Put"
  using assms by (auto simp: view_ok_def invalid_reason_def split: if_splits) (metis view_operation_kind.exhaust)+

lemma check_views_take: "check_views views = Inr () \<Longrightarrow> check_views (take n views) = Inr ()"
  by (auto simp: check_views_ok take_map [symmetric] dest: in_set_takeD)

lemma check_views_drop: "check_views views = Inr () \<Longrightarrow> check_views (drop n views) = Inr ()"
  by (auto simp: check_views_ok drop_map [symmetric] dest: in_set_dropD)

end
