(* ===== verification/Rebuild.thy ===== *)
theory Rebuild
  imports View_Ops
begin

text \<open>
  The rebuild fence's decisions (\<open>rebuild.rs\<close>), shared by every backend: the generation and its
  parity, leases and their fencing tokens, the plan a \<open>begin_rebuild\<close> follows, the reader's epoch,
  the guarded batches, and the lock a rebuild holds for its own run.

  The clock's reading is an argument, in whole Unix seconds.
\<close>

definition REBUILD_LOCK_ID :: string where "REBUILD_LOCK_ID = ''SYSTEM#REBUILD''"
definition REBUILD_GENERATION_ID :: string where
  "REBUILD_GENERATION_ID = ''SYSTEM#REBUILD#GENERATION''"
definition REBUILD_SORT_KEY :: int where "REBUILD_SORT_KEY = 0"
definition MAX_REBUILD_OWNER_BYTES :: nat where "MAX_REBUILD_OWNER_BYTES = 512"
definition MAX_REBUILD_VIEW_BATCH :: nat where "MAX_REBUILD_VIEW_BATCH = 99"
definition MAX_REBUILD_BEGIN_ATTEMPTS :: nat where "MAX_REBUILD_BEGIN_ATTEMPTS = 8"
definition NO_MATCH :: int where "NO_MATCH = - 1"

section \<open>State\<close>

record rebuild_generation =
  rg_value :: int
  rg_force_released :: bool

definition is_settled :: "rebuild_generation \<Rightarrow> bool" where
  "is_settled g \<longleftrightarrow> rg_value g mod 2 = 0"

record rebuild_lock =
  lk_owner :: string
  lk_generation :: int
  lk_lease_expires_at :: int

definition is_expired :: "rebuild_lock \<Rightarrow> int \<Rightarrow> bool" where
  "is_expired lock now \<longleftrightarrow> lk_lease_expires_at lock < now"

record rebuild_state =
  rs_generation :: rebuild_generation
  rs_lock :: "rebuild_lock option"

definition default_rebuild_state :: rebuild_state where
  "default_rebuild_state =
    \<lparr>rs_generation = \<lparr>rg_value = 0, rg_force_released = False\<rparr>, rs_lock = None\<rparr>"

definition in_progress :: "rebuild_state \<Rightarrow> bool" where
  "in_progress s \<longleftrightarrow> rs_lock s \<noteq> None"

definition lease_holds :: "rebuild_lease \<Rightarrow> rebuild_lock \<Rightarrow> bool" where
  "lease_holds lease lock \<longleftrightarrow>
    lk_owner lock = le_owner lease \<and> lk_generation lock = le_generation lease"

definition acquired_from :: "rebuild_lease \<Rightarrow> rebuild_generation \<Rightarrow> bool" where
  "acquired_from lease before \<longleftrightarrow> is_settled before \<and> le_generation lease = rg_value before + 1"

definition holds_begun :: "rebuild_state \<Rightarrow> rebuild_lease \<Rightarrow> int \<Rightarrow> bool option" where
  "holds_begun s lease observed =
    (if (case rs_lock s of None \<Rightarrow> False | Some lock \<Rightarrow> lease_holds lease lock) then Some True
     else if rg_value (rs_generation s) \<noteq> observed then Some False
     else None)"

section \<open>Reader epochs\<close>

definition unavailable :: "rebuild_generation \<Rightarrow> error + unit" where
  "unavailable g = ensure (is_settled g) (RebuildUnavailable (rg_value g) (rg_force_released g))"

definition epoch_observe :: "rebuild_generation \<Rightarrow> error + int" where
  "epoch_observe g = and_then (unavailable g) (\<lambda>_. Inr (rg_value g))"

definition epoch_verify :: "int \<Rightarrow> rebuild_generation \<Rightarrow> error + unit" where
  "epoch_verify epoch g =
    and_then (unavailable g) (\<lambda>_.
    ensure (rg_value g = epoch) (RebuildEpochChanged epoch (rg_value g)))"

text \<open>\<open>read_at_rebuild_epoch\<close>, over the results of the two reads of the generation.\<close>

definition read_at_rebuild_epoch ::
  "error + rebuild_generation \<Rightarrow> (int \<Rightarrow> error + 'a) \<Rightarrow> error + rebuild_generation \<Rightarrow> error + 'a" where
  "read_at_rebuild_epoch observed read reread =
    and_then observed (\<lambda>g. and_then (epoch_observe g) (\<lambda>epoch.
    and_then (read epoch) (\<lambda>result.
    and_then reread (\<lambda>g'. and_then (epoch_verify epoch g') (\<lambda>_. Inr result)))))"

section \<open>Arguments\<close>

definition rebuild_check_owner :: "string \<Rightarrow> error + unit" where
  "rebuild_check_owner owner =
    and_then (ensure (owner \<noteq> []) (InvalidArgument (Msg ''a rebuild owner must not be empty'' []))) (\<lambda>_.
    and_then (ensure (length owner \<le> MAX_REBUILD_OWNER_BYTES)
       (InvalidArgument (Msg ''a rebuild owner is at most {MAX_REBUILD_OWNER_BYTES} bytes, got {}''
          [AI (int (length owner))]))) (\<lambda>_.
    ensure (\<not> has_nul owner) (InvalidArgument (Msg ''a rebuild owner must not contain U+0000'' []))))"

definition lease_seconds :: "duration \<Rightarrow> error + int" where
  "lease_seconds lease =
    (if lease < one_second
     then Inl (InvalidArgument (Msg ''a rebuild lease is at least one second'' []))
     else let seconds = lease div one_second + (if lease mod one_second > 0 then 1 else 0)
          in if int seconds \<le> i64_max then Inr (int seconds)
             else Inl (InvalidArgument (Msg ''the rebuild lease is too long'' [])))"

definition check_lease :: "string \<Rightarrow> duration \<Rightarrow> error + int" where
  "check_lease owner lease = and_then (rebuild_check_owner owner) (\<lambda>_. lease_seconds lease)"

definition check_renew :: "duration \<Rightarrow> error + unit" where
  "check_renew renew =
    ensure (one_second \<le> renew)
      (InvalidArgument (Msg ''a rebuild lease is renewed for at least one second'' []))"

section \<open>The plan of a begin\<close>

datatype plan_kind = Acquire | AcquireForceReleased | Takeover

record plan =
  pl_kind :: plan_kind
  pl_increment :: int
  pl_seen_even :: int
  pl_seen_odd :: int
  pl_observed_owner :: "string option"

definition decide :: "rebuild_state \<Rightarrow> int \<Rightarrow> error + plan" where
  "decide s now =
    (let g = rs_generation s in
     case rs_lock s of
       None \<Rightarrow>
         if is_settled g then
           Inr \<lparr>pl_kind = Acquire, pl_increment = 1, pl_seen_even = rg_value g,
                pl_seen_odd = NO_MATCH, pl_observed_owner = None\<rparr>
         else if rg_force_released g then
           Inr \<lparr>pl_kind = AcquireForceReleased, pl_increment = 2, pl_seen_even = NO_MATCH,
                pl_seen_odd = rg_value g, pl_observed_owner = None\<rparr>
         else Inl (RebuildStateInvalid
                (Msg ''generation {} is odd with no lock row and no force-release flag''
                   [AI (rg_value g)]))
     | Some lock \<Rightarrow>
         if is_settled g then
           Inl (RebuildStateInvalid (Msg ''a lock row exists for {:?} but generation {} is even''
                  [AS (lk_owner lock), AI (rg_value g)]))
         else if \<not> is_expired lock now then
           Inl (RebuildLockHeld (lk_owner lock) (lk_lease_expires_at lock))
         else Inr \<lparr>pl_kind = Takeover, pl_increment = 2, pl_seen_even = NO_MATCH,
                   pl_seen_odd = rg_value g, pl_observed_owner = Some (lk_owner lock)\<rparr>)"

section \<open>Guarded batches\<close>

definition lock_check_size :: nat where
  "lock_check_size =
    length ''pk'' + length REBUILD_LOCK_ID + length ''sk'' + length (show_int REBUILD_SORT_KEY)"

definition check_view_batch :: "projected_view list \<Rightarrow> error + unit" where
  "check_view_batch views =
    and_then (ensure (views \<noteq> [])
       (InvalidArgument (Msg ''a rebuild write carries at least one view operation'' []))) (\<lambda>_.
    and_then (check_views views) (\<lambda>_.
    check_budget (map (\<lambda>v. view_operation_size (pv_op v)) views @ [lock_check_size])))"

text \<open>The inner loop of \<open>rebuild_batches\<close>: where the next batch ends.\<close>

fun batch_end :: "nat \<Rightarrow> nat \<Rightarrow> projected_view list \<Rightarrow> nat" where
  "batch_end n bytes [] = n"
| "batch_end n bytes (v # rest) =
    (if n < MAX_REBUILD_VIEW_BATCH then
       (let s = view_operation_size (pv_op v)
        in if n > 0 \<and> bytes + s > MAX_COMMIT_BYTES then n
           else batch_end (n + 1) (bytes + s) rest)
     else n)"

lemma batch_end_mono: "n \<le> batch_end n bytes views"
  by (induction n bytes views rule: batch_end.induct) (auto simp: Let_def)

lemma batch_end_pos [simp]: "views \<noteq> [] \<Longrightarrow> 0 < batch_end 0 bytes views"
proof (cases views)
  case (Cons v rest)
  have "1 \<le> batch_end 1 (bytes + view_operation_size (pv_op v)) rest"
    by (rule batch_end_mono)
  with Cons show ?thesis
    by (simp add: Let_def MAX_REBUILD_VIEW_BATCH_def)
qed simp

function rebuild_batches :: "projected_view list \<Rightarrow> projected_view list list" where
  "rebuild_batches views =
    (if views = [] then []
     else let n = batch_end 0 lock_check_size views
          in take n views # rebuild_batches (drop n views))"
  by auto
termination rebuild_batches
  by (relation "measure length") auto

declare rebuild_batches.simps [simp del]

section \<open>A lock held for a run\<close>

text \<open>The \<open>RebuildFence\<close> trait: the reads and the transitions of a backend with state \<open>'s\<close>.\<close>

record 's fence =
  fe_generation :: "'s \<Rightarrow> error + rebuild_generation"
  fe_state :: "'s \<Rightarrow> error + rebuild_state"
  fe_begin :: "string \<Rightarrow> duration \<Rightarrow> 's \<Rightarrow> (error + rebuild_lease) \<times> 's"
  fe_renew :: "rebuild_lease \<Rightarrow> duration \<Rightarrow> 's \<Rightarrow> (error + rebuild_lease) \<times> 's"
  fe_end :: "rebuild_lease \<Rightarrow> 's \<Rightarrow> (error + rebuild_generation) \<times> 's"
  fe_force_release :: "string \<Rightarrow> 's \<Rightarrow> (error + rebuild_generation) \<times> 's"
  fe_write :: "rebuild_lease \<Rightarrow> projected_view list \<Rightarrow> 's \<Rightarrow> (error + unit) \<times> 's"

record held =
  he_lease :: rebuild_lease
  he_from_settled :: bool

text \<open>The rounds of \<open>Held::take\<close> that are left.\<close>

fun held_take_rounds ::
  "nat \<Rightarrow> 's fence \<Rightarrow> string \<Rightarrow> duration \<Rightarrow> 's \<Rightarrow> (error + held) \<times> 's" where
  "held_take_rounds 0 f owner lease s = (Inl (RebuildConflict MAX_REBUILD_BEGIN_ATTEMPTS), s)"
| "held_take_rounds (Suc n) f owner lease s =
    (case fe_generation f s of Inl e \<Rightarrow> (Inl e, s)
     | Inr before \<Rightarrow>
        (case fe_begin f owner lease s of
           (Inr taken, s') \<Rightarrow>
             (Inr \<lparr>he_lease = taken, he_from_settled = acquired_from taken before\<rparr>, s')
         | (Inl e, s') \<Rightarrow>
             (case e of
                RebuildBeginIndeterminate begun observed source \<Rightarrow>
                  (case fe_state f s' of
                     Inr st \<Rightarrow> if holds_begun st begun observed = Some False
                                then held_take_rounds n f owner lease s' else (Inl e, s')
                   | Inl _ \<Rightarrow> (Inl e, s'))
              | _ \<Rightarrow> (Inl e, s'))))"

definition held_take :: "'s fence \<Rightarrow> string \<Rightarrow> duration \<Rightarrow> 's \<Rightarrow> (error + held) \<times> 's" where
  "held_take f owner lease s = held_take_rounds MAX_REBUILD_BEGIN_ATTEMPTS f owner lease s"

record rebuild_failure =
  fl_error :: error
  fl_attempted :: nat
  fl_batches :: nat

definition held_finish :: "'s fence \<Rightarrow> held \<Rightarrow> rebuild_failure + 'a \<Rightarrow> 's \<Rightarrow> (error + 'a) \<times> 's" where
  "held_finish f held result s =
    (case result of
       Inr v \<Rightarrow> (case fe_end f (he_lease held) s of
           (Inl e, s') \<Rightarrow> (Inl e, s') | (Inr _, s') \<Rightarrow> (Inr v, s'))
     | Inl failure \<Rightarrow>
         (Inl (fl_error failure),
          if he_from_settled held \<and> fl_attempted failure = 0 then snd (fe_end f (he_lease held) s)
          else s))"

text \<open>\<open>Renewing\<close>: instants are nanoseconds of the monotonic clock; \<open>renewed_at\<close> is the reading after
  a renewal.\<close>

record renewing =
  rn_lease :: rebuild_lease
  rn_renew :: duration
  rn_renewed :: "nat option"
  rn_attempted :: nat

definition renew_due :: "duration \<Rightarrow> duration" where
  "renew_due renew = renew div 2 - one_second"

definition keep_alive ::
  "'s fence \<Rightarrow> nat \<Rightarrow> nat \<Rightarrow> renewing \<Rightarrow> 's \<Rightarrow> (error + unit) \<times> renewing \<times> 's" where
  "keep_alive f instant renewed_at r s =
    (if (case rn_renewed r of None \<Rightarrow> True | Some at \<Rightarrow> renew_due (rn_renew r) \<le> instant - at) then
       (case fe_renew f (rn_lease r) (rn_renew r) s of
          (Inl e, s') \<Rightarrow> (Inl e, r, s')
        | (Inr lease, s') \<Rightarrow> (Inr (), r\<lparr>rn_lease := lease, rn_renewed := Some renewed_at\<rparr>, s'))
     else (Inr (), r, s))"

definition renewing_write ::
  "'s fence \<Rightarrow> nat \<Rightarrow> nat \<Rightarrow> projected_view list \<Rightarrow> renewing \<Rightarrow> 's
    \<Rightarrow> (error + unit) \<times> renewing \<times> 's" where
  "renewing_write f instant renewed_at batch r s =
    (case keep_alive f instant renewed_at r s of
       (Inl e, r', s') \<Rightarrow> (Inl e, r', s')
     | (Inr _, r', s') \<Rightarrow>
         (let r'' = r'\<lparr>rn_attempted := rn_attempted r' + 1\<rparr>;
              (result, s'') = fe_write f (rn_lease r'') batch s'
          in (result, r'', s'')))"

section \<open>Properties of the batches\<close>

abbreviation batch_bytes :: "projected_view list \<Rightarrow> nat" where
  "batch_bytes views \<equiv> sum_list (map (\<lambda>v. view_operation_size (pv_op v)) views)"

lemma batch_end_le: "batch_end n bytes views \<le> n + length views"
  by (induction n bytes views rule: batch_end.induct) (auto simp: Let_def)

lemma batch_end_max: "n \<le> MAX_REBUILD_VIEW_BATCH \<Longrightarrow> batch_end n bytes views \<le> MAX_REBUILD_VIEW_BATCH"
  by (induction n bytes views rule: batch_end.induct) (auto simp: Let_def)

text \<open>The bytes of the views a batch takes, on top of what it holds already.\<close>

lemma batch_end_bytes:
  assumes "n < batch_end n bytes views" and "0 < n"
  shows "bytes + batch_bytes (take (batch_end n bytes views - n) views) \<le> MAX_COMMIT_BYTES"
  using assms
proof (induction n bytes views rule: batch_end.induct)
  case (2 n bytes v rest)
  let ?s = "view_operation_size (pv_op v)"
  from 2(2,3) have n: "n < MAX_REBUILD_VIEW_BATCH" and fits: "bytes + ?s \<le> MAX_COMMIT_BYTES"
    by (auto simp: Let_def not_less split: if_splits)
  let ?m = "batch_end (n + 1) (bytes + ?s) rest"
  have m: "batch_end n bytes (v # rest) = ?m"
    using n fits by (simp add: Let_def)
  show ?case
  proof (cases "n + 1 < ?m")
    case True
    have "bytes + ?s + batch_bytes (take (?m - (n + 1)) rest) \<le> MAX_COMMIT_BYTES"
      by (rule 2(1)) (use n fits True in auto)
    moreover have "?m - n = Suc (?m - (n + 1))"
      using True by simp
    ultimately show ?thesis
      unfolding m by simp
  next
    case False
    then have "?m = n + 1"
      using batch_end_mono [of "n + 1"] by (simp add: le_antisym)
    then show ?thesis
      unfolding m using fits by simp
  qed
qed simp

lemma first_batch_bytes:
  assumes "1 < batch_end 0 bytes views"
  shows "bytes + batch_bytes (take (batch_end 0 bytes views) views) \<le> MAX_COMMIT_BYTES"
proof (cases views)
  case (Cons v rest)
  let ?b = "bytes + view_operation_size (pv_op v)"
  have eq: "batch_end 0 bytes views = batch_end 1 ?b rest"
    using Cons by (simp add: Let_def MAX_REBUILD_VIEW_BATCH_def)
  have "?b + batch_bytes (take (batch_end 1 ?b rest - 1) rest) \<le> MAX_COMMIT_BYTES"
    by (rule batch_end_bytes) (use assms eq in auto)
  moreover obtain k where k: "batch_end 1 ?b rest = Suc k"
    using assms eq by (cases "batch_end 1 ?b rest") auto
  ultimately show ?thesis
    unfolding eq by (simp add: Cons k add.assoc)
qed (use assms in simp)

lemma concat_rebuild_batches: "concat (rebuild_batches views) = views"
proof (induction views rule: rebuild_batches.induct)
  case (1 views)
  then show ?case
    by (subst rebuild_batches.simps) (auto simp: Let_def)
qed

lemma lock_check_size_eq [simp]: "lock_check_size = 19"
  by (simp add: lock_check_size_def REBUILD_LOCK_ID_def REBUILD_SORT_KEY_def show_int_def
      show_nat.simps)

lemma check_view_batch_ok [result_simps]:
  "check_view_batch views = Inr u \<longleftrightarrow>
    views \<noteq> [] \<and> check_views views = Inr () \<and> length views \<le> MAX_REBUILD_VIEW_BATCH
    \<and> batch_bytes views + lock_check_size \<le> MAX_COMMIT_BYTES
    \<and> (\<forall>v \<in> set views. view_operation_size (pv_op v) \<le> MAX_COMMIT_ITEM_BYTES)"
  by (auto simp: check_view_batch_def result_simps MAX_REBUILD_VIEW_BATCH_def
      MAX_COMMIT_ITEM_BYTES_def)

text \<open>A batch ends where the next operation would not fit it.\<close>

lemma batch_end_full:
  assumes "batch_end n bytes views - n < length views"
  shows "MAX_REBUILD_VIEW_BATCH \<le> batch_end n bytes views
    \<or> MAX_COMMIT_BYTES < bytes + batch_bytes (take (batch_end n bytes views - n) views)
        + view_operation_size (pv_op (views ! (batch_end n bytes views - n)))"
  using assms
proof (induction n bytes views rule: batch_end.induct)
  case (2 n bytes v rest)
  let ?s = "view_operation_size (pv_op v)"
  let ?m = "batch_end (n + 1) (bytes + ?s) rest"
  show ?case
  proof (cases "n < MAX_REBUILD_VIEW_BATCH \<and> \<not> (n > 0 \<and> bytes + ?s > MAX_COMMIT_BYTES)")
    case True
    then have m: "batch_end n bytes (v # rest) = ?m"
      by (auto simp: Let_def)
    have "n + 1 \<le> ?m"
      by (rule batch_end_mono)
    then have k: "?m - n = Suc (?m - (n + 1))"
      by simp
    have "MAX_REBUILD_VIEW_BATCH \<le> ?m
        \<or> MAX_COMMIT_BYTES < bytes + ?s + batch_bytes (take (?m - (n + 1)) rest) + view_operation_size (pv_op (rest ! (?m - (n + 1))))"
      by (rule 2(1)) (use True 2(2) m k in auto)
    then show ?thesis
      unfolding m k by (simp add: add.assoc)
  qed (auto simp: Let_def)
qed simp

lemma rebuild_batches_Cons:
  "views \<noteq> [] \<Longrightarrow> rebuild_batches views =
    take (batch_end 0 lock_check_size views) views # rebuild_batches (drop (batch_end 0 lock_check_size views) views)"
  by (subst rebuild_batches.simps) (simp add: Let_def)

lemma rebuild_batches_Nil [simp]: "rebuild_batches [] = []"
  by (simp add: rebuild_batches.simps)

lemma hd_rebuild_batches: "views \<noteq> [] \<Longrightarrow> hd (rebuild_batches views ! 0) = hd views"
  by (simp add: rebuild_batches_Cons)

text \<open>Every batch is one a commit can hold by count, and by bytes unless it is a single operation.\<close>

lemma rebuild_batch_bounds:
  "batch \<in> set (rebuild_batches views) \<Longrightarrow> batch \<noteq> [] \<and> length batch \<le> MAX_REBUILD_VIEW_BATCH
    \<and> (length batch = 1 \<or> lock_check_size + batch_bytes batch \<le> MAX_COMMIT_BYTES)"
proof (induction views rule: rebuild_batches.induct)
  case (1 views)
  let ?n = "batch_end 0 lock_check_size views"
  have ne: "views \<noteq> []"
    using 1(2) by auto
  have pos: "0 < ?n" and le: "?n \<le> length views" and max: "?n \<le> MAX_REBUILD_VIEW_BATCH"
    using ne batch_end_le [of 0 lock_check_size views] batch_end_max [of 0] by auto
  consider "batch = take ?n views" | "batch \<in> set (rebuild_batches (drop ?n views))"
    using 1(2) by (auto simp: rebuild_batches_Cons [OF ne])
  then show ?case
  proof cases
    case 1
    have "lock_check_size + batch_bytes batch \<le> MAX_COMMIT_BYTES" if "length batch \<noteq> 1"
      using first_batch_bytes [of lock_check_size views] that pos le 1 by simp
    then show ?thesis
      using 1 pos le max ne by auto
  next
    case 2
    then show ?thesis
      using "1.IH" [OF ne refl] by blast
  qed
qed

text \<open>No batch leaves room for the operation that follows it.\<close>

lemma rebuild_batches_full:
  assumes "Suc i < length (rebuild_batches views)"
  shows "length (rebuild_batches views ! i) = MAX_REBUILD_VIEW_BATCH
    \<or> MAX_COMMIT_BYTES < lock_check_size + batch_bytes (rebuild_batches views ! i)
        + view_operation_size (pv_op (hd (rebuild_batches views ! Suc i)))"
  using assms
proof (induction views arbitrary: i rule: rebuild_batches.induct)
  case (1 views)
  let ?n = "batch_end 0 lock_check_size views"
  have ne: "views \<noteq> []"
    using 1(2) by auto
  show ?case
  proof (cases i)
    case 0
    have more: "drop ?n views \<noteq> []"
      using 1(2) 0 by (auto simp: rebuild_batches_Cons [OF ne])
    then have "?n < length views"
      by simp
    then have "MAX_REBUILD_VIEW_BATCH \<le> ?n
        \<or> MAX_COMMIT_BYTES < lock_check_size + batch_bytes (take ?n views) + view_operation_size (pv_op (views ! ?n))"
      using batch_end_full [of 0 lock_check_size views] by simp
    moreover have "?n \<le> MAX_REBUILD_VIEW_BATCH"
      by (rule batch_end_max) simp
    ultimately show ?thesis
      using 0 \<open>?n < length views\<close> hd_rebuild_batches [OF more] by (auto simp: rebuild_batches_Cons [OF ne] hd_drop_conv_nth)
  next
    case (Suc k)
    then show ?thesis
      using "1.IH" [OF ne refl, of k] 1(2) by (simp add: rebuild_batches_Cons [OF ne])
  qed
qed

text \<open>So the guarded write accepts a batch exactly when its operations are valid and none is too large.\<close>

lemma rebuild_batch_accepted:
  assumes "batch \<in> set (rebuild_batches views)"
  shows "check_view_batch batch = Inr () \<longleftrightarrow>
    check_views batch = Inr () \<and> (\<forall>v \<in> set batch. view_operation_size (pv_op v) \<le> MAX_COMMIT_ITEM_BYTES)"
proof -
  have "batch_bytes batch + lock_check_size \<le> MAX_COMMIT_BYTES"
    if "\<forall>v \<in> set batch. view_operation_size (pv_op v) \<le> MAX_COMMIT_ITEM_BYTES" "length batch = 1"
    using that by (auto simp: length_Suc_conv MAX_COMMIT_BYTES_def MAX_COMMIT_ITEM_BYTES_def)
  then show ?thesis
    using rebuild_batch_bounds [OF assms] by (auto simp: check_view_batch_ok add.commute)
qed

text \<open>Operations that fit one batch share it, also with one that is too large on its own.\<close>

lemma rebuild_batches_one:
  assumes "views \<noteq> []" and "length views \<le> MAX_REBUILD_VIEW_BATCH"
    and "lock_check_size + batch_bytes views \<le> MAX_COMMIT_BYTES"
  shows "rebuild_batches views = [views]"
proof -
  let ?n = "batch_end 0 lock_check_size views"
  have "\<not> ?n < length views"
  proof
    assume less: "?n < length views"
    have "batch_bytes (take ?n views) + view_operation_size (pv_op (views ! ?n)) \<le> batch_bytes views"
      using less by (subst (3) id_take_nth_drop [OF less]) simp
    then show False
      using batch_end_full [of 0 lock_check_size views] less assms(2,3) by simp
  qed
  then show ?thesis
    by (simp add: rebuild_batches_Cons [OF assms(1)])
qed

lemma rebuild_batch_refused:
  assumes "length views \<le> MAX_REBUILD_VIEW_BATCH" and "lock_check_size + batch_bytes views \<le> MAX_COMMIT_BYTES"
    and "v \<in> set views" and "MAX_COMMIT_ITEM_BYTES < view_operation_size (pv_op v)"
  shows "rebuild_batches views = [views] \<and> check_view_batch views \<noteq> Inr ()"
proof -
  have "rebuild_batches views = [views]"
    using assms by (intro rebuild_batches_one) auto
  moreover have "\<not> (\<forall>v \<in> set views. view_operation_size (pv_op v) \<le> MAX_COMMIT_ITEM_BYTES)"
    using assms(3,4) by (meson leD)
  ultimately show ?thesis
    by (simp add: check_view_batch_ok)
qed

text \<open>Every batch is a segment of the operations, so the operations' checks hold of it.\<close>

lemma rebuild_batch_segment: "batch \<in> set (rebuild_batches views) \<Longrightarrow> \<exists>m n. batch = take n (drop m views)"
proof (induction views rule: rebuild_batches.induct)
  case (1 views)
  let ?n = "batch_end 0 lock_check_size views"
  have ne: "views \<noteq> []"
    using 1(2) by auto
  consider "batch = take ?n (drop 0 views)" | "batch \<in> set (rebuild_batches (drop ?n views))"
    using 1(2) by (auto simp: rebuild_batches_Cons [OF ne])
  then show ?case
  proof cases
    case 2
    then obtain m n where "batch = take n (drop m (drop ?n views))"
      using "1.IH" [OF ne refl] by blast
    then show ?thesis
      by (metis drop_drop)
  qed blast
qed

lemma rebuild_batches_ok:
  assumes "check_views views = Inr ()"
    and "\<forall>v \<in> set views. view_operation_size (pv_op v) \<le> MAX_COMMIT_ITEM_BYTES"
    and "batch \<in> set (rebuild_batches views)"
  shows "check_view_batch batch = Inr ()"
proof -
  obtain m n where batch: "batch = take n (drop m views)"
    using rebuild_batch_segment [OF assms(3)] by blast
  have "set batch \<subseteq> set views" "check_views batch = Inr ()"
    using check_views_take [OF check_views_drop [OF assms(1)]]
    by (auto simp: batch dest: in_set_takeD in_set_dropD)
  then show ?thesis
    using assms(2) rebuild_batch_accepted [OF assms(3)] by blast
qed

end
