(* ===== verification/Wire_Dynamo.thy ===== *)
theory Wire_Dynamo
  imports Outcomes Rebuild
begin

text \<open>
  The DynamoDB item shapes (\<open>wire/dynamo.rs\<close>), which are also the backend-neutral sizes every
  repository budgets a commit by (\<open>item_size\<close> in \<open>repository.rs\<close>): event, snapshot, head, marker,
  rebuild, outcome and view items, their decoders, and the actions on a stream's head item.
\<close>

section \<open>Attribute values and items\<close>

datatype attribute_value =
    AvS string
  | AvN string
  | AvB bytes
  | AvBool bool
  | AvNull bool
  | AvM "(string \<times> attribute_value) list"
  | AvL "attribute_value list"
  | AvSs "string list"
  | AvNs "string list"
  | AvBs "string list"

type_synonym item = "(string, attribute_value) btree"

fun value_size :: "attribute_value \<Rightarrow> nat" where
  "value_size (AvS t) = length t"
| "value_size (AvN t) = length t"
| "value_size (AvB b) = length b"
| "value_size (AvBool _) = 1"
| "value_size (AvNull _) = 1"
| "value_size (AvM m) = 3 + sum_list (map (\<lambda>e. length (fst e) + value_size (snd e)) m) + length m"
| "value_size (AvL l) = 3 + sum_list (map (\<lambda>v. 1 + value_size v) l)"
| "value_size (AvSs ts) = sum_list (map length ts)"
| "value_size (AvNs ts) = sum_list (map length ts)"
| "value_size (AvBs bs) = sum_list (map length bs)"

definition item_size :: "item \<Rightarrow> nat" where
  "item_size item = sum_list (map (\<lambda>e. length (fst e) + value_size (snd e)) item)"

definition av_n :: "int \<Rightarrow> attribute_value" where
  "av_n i = AvN (show_int i)"

definition utf8_text :: "bytes \<Rightarrow> string \<Rightarrow> error + string" where
  "utf8_text bytes what =
    (if utf8_valid bytes then Inr bytes
     else Inl (InvalidRecord
            (Msg ''{what} is not valid UTF-8 and cannot be stored as a string'' [AS what])))"

definition optional_string :: "item \<Rightarrow> string \<Rightarrow> error + string option" where
  "optional_string item name =
    (case bt_get item name of
       None \<Rightarrow> Inr None
     | Some (AvNull _) \<Rightarrow> Inr None
     | Some (AvS value) \<Rightarrow> Inr (Some value)
     | Some _ \<Rightarrow> Inl (InvalidRecord (Msg ''attribute {name} is not a string: {other:?}'' [AS name])))"

definition optional_number :: "item \<Rightarrow> string \<Rightarrow> error + int option" where
  "optional_number item name =
    (case bt_get item name of
       None \<Rightarrow> Inr None
     | Some (AvNull _) \<Rightarrow> Inr None
     | Some (AvN value) \<Rightarrow>
         (case parse_i64 value of
            Some i \<Rightarrow> Inr (Some i)
          | None \<Rightarrow> Inl (InvalidRecord
                     (Msg ''attribute {name} is not an integer: {value}'' [AS name, AS value])))
     | Some _ \<Rightarrow> Inl (InvalidRecord (Msg ''attribute {name} is not a number: {other:?}'' [AS name])))"

definition no_attribute :: "string \<Rightarrow> error" where
  "no_attribute name = InvalidRecord (Msg ''item has no {name} attribute'' [AS name])"

definition required_string :: "item \<Rightarrow> string \<Rightarrow> error + string" where
  "required_string item name = and_then (optional_string item name) (ok_or (no_attribute name))"

definition required_number :: "item \<Rightarrow> string \<Rightarrow> error + int" where
  "required_number item name = and_then (optional_number item name) (ok_or (no_attribute name))"

definition default_string :: "item \<Rightarrow> string \<Rightarrow> error + string" where
  "default_string item name =
    and_then (optional_string item name) (\<lambda>v. Inr (case v of None \<Rightarrow> [] | Some t \<Rightarrow> t))"

definition default_number :: "item \<Rightarrow> string \<Rightarrow> error + int" where
  "default_number item name =
    and_then (optional_number item name) (\<lambda>v. Inr (case v of None \<Rightarrow> 0 | Some i \<Rightarrow> i))"

section \<open>Events, snapshots and heads\<close>

definition SNAPSHOT_SORT_KEY :: int where "SNAPSHOT_SORT_KEY = 0"
definition HEAD_SORT_KEY :: int where "HEAD_SORT_KEY = - 1"

definition insert_ttl :: "item \<Rightarrow> int option \<Rightarrow> item" where
  "insert_ttl item ttl =
    (case ttl of Some t \<Rightarrow> if 0 < t then bt_insert ''ttl'' (av_n t) item else item | None \<Rightarrow> item)"

definition event_item :: "json_codec \<Rightarrow> serialized_event \<Rightarrow> int option \<Rightarrow> error + item" where
  "event_item j e ttl =
    (let item = bt_empty;
         item = bt_insert ''pk'' (AvS (ev_entity_id e)) item;
         item = bt_insert ''sk'' (av_n (ev_sequence e)) item;
         item = bt_insert ''type'' (AvS (ev_type e)) item;
         item = bt_insert ''version'' (av_n (ev_version e)) item;
         item = bt_insert ''entityType'' (AvS (ev_entity_type e)) item
     in and_then (utf8_text (ev_payload e) ''event payload'') (\<lambda>payload.
        let item = bt_insert ''payload'' (AvS payload) item;
            item = bt_insert ''metadata'' (AvS (enc_metadata j (metadata_wire (ev_metadata e)))) item
        in Inr (insert_ttl item ttl)))"

definition snapshot_item :: "serialized_snapshot \<Rightarrow> int option \<Rightarrow> error + item" where
  "snapshot_item s ttl =
    (let item = bt_empty;
         item = bt_insert ''pk'' (AvS (sn_entity_id s)) item;
         item = bt_insert ''sk'' (av_n SNAPSHOT_SORT_KEY) item;
         item = bt_insert ''seq'' (av_n (sn_sequence s)) item;
         item = bt_insert ''eventSeq'' (av_n (sn_event_sequence s)) item;
         item = bt_insert ''entityType'' (AvS (sn_entity_type s)) item
     in and_then (utf8_text (sn_payload s) ''snapshot payload'') (\<lambda>payload.
        Inr (insert_ttl (bt_insert ''payload'' (AvS payload) item) ttl)))"

definition head_item :: "entity_id \<Rightarrow> event_sequence \<Rightarrow> int option \<Rightarrow> item" where
  "head_item entity head ttl =
    insert_ttl (bt_insert ''head'' (av_n head) (bt_insert ''sk'' (av_n HEAD_SORT_KEY)
      (bt_insert ''pk'' (AvS entity) bt_empty))) ttl"

definition head_from_item :: "item \<Rightarrow> error + event_sequence \<times> int option" where
  "head_from_item item =
    and_then (required_number item ''head'') (\<lambda>head.
    and_then (optional_number item ''ttl'') (\<lambda>ttl. Inr (head, ttl)))"

definition item_number :: "item \<Rightarrow> string \<Rightarrow> int option" where
  "item_number item name = (case bt_get item name of Some (AvN t) \<Rightarrow> parse_i64 t | _ \<Rightarrow> None)"

definition item_sort_key :: "item \<Rightarrow> int option" where
  "item_sort_key item = item_number item ''sk''"

definition item_ttl :: "item \<Rightarrow> int option" where
  "item_ttl item = item_number item ''ttl''"

definition is_snapshot_item :: "item \<Rightarrow> bool" where
  "is_snapshot_item item \<longleftrightarrow>
    (case bt_get item ''sk'' of Some (AvN t) \<Rightarrow> parse_i64 t = Some SNAPSHOT_SORT_KEY | _ \<Rightarrow> False)"

definition event_from_item :: "json_codec \<Rightarrow> item \<Rightarrow> error + serialized_event" where
  "event_from_item j item =
    and_then (required_string item ''pk'') (\<lambda>entity.
    and_then (required_number item ''sk'') (\<lambda>sequence.
    and_then (default_string item ''metadata'') (\<lambda>metadata_json.
    if is_blank metadata_json
    then Inl (InvalidRecord (Msg ''event {entity_id}:{sequence} has empty metadata'' [AS entity, AI sequence]))
    else case dec_metadata j metadata_json of
      Inl err \<Rightarrow> Inl (InvalidRecord (Msg ''event {entity_id}:{sequence} metadata: {err}''
                       [AS entity, AI sequence, AS err]))
    | Inr decoded \<Rightarrow>
        and_then (default_string item ''type'') (\<lambda>ty.
        and_then (default_number item ''version'') (\<lambda>version.
        and_then (default_string item ''entityType'') (\<lambda>entity_type.
        and_then (default_string item ''payload'') (\<lambda>payload.
        Inr \<lparr>ev_id = for_event entity sequence, ev_sequence = sequence, ev_type = ty,
             ev_version = version, ev_entity_id = entity, ev_entity_type = entity_type,
             ev_payload = payload,
             ev_metadata = (case decoded of Some m \<Rightarrow> m | None \<Rightarrow> default_metadata)\<rparr>)))))))"

definition snapshot_from_item :: "item \<Rightarrow> error + serialized_snapshot" where
  "snapshot_from_item item =
    and_then (default_string item ''entityType'') (\<lambda>entity_type.
    and_then (required_string item ''pk'') (\<lambda>entity.
    and_then (default_number item ''seq'') (\<lambda>sequence.
    and_then (default_number item ''eventSeq'') (\<lambda>event_sequence.
    and_then (default_string item ''payload'') (\<lambda>payload.
    Inr \<lparr>sn_entity_type = entity_type, sn_entity_id = entity, sn_sequence = sequence,
         sn_event_sequence = event_sequence, sn_payload = payload\<rparr>)))))"

text \<open>\<open>expiry\<close>, with the clock's reading in nanoseconds since the epoch.\<close>

definition expiry :: "int \<Rightarrow> duration \<Rightarrow> int option" where
  "expiry now retention =
    (if retention = 0 then None
     else let at = now + int retention
          in if at < 0 then None
             else let seconds = at div int one_second in if seconds \<le> i64_max then Some seconds else None)"

section \<open>The feature marker\<close>

definition FEATURES_SORT_KEY :: int where "FEATURES_SORT_KEY = 0"

definition set_json :: "json_codec \<Rightarrow> string_set \<Rightarrow> string option" where
  "set_json j ss = (if ss = [] then None else Some (enc_strings j (bt_keys ss)))"

definition json_text :: "string + 'a \<Rightarrow> string \<Rightarrow> error + 'a" where
  "json_text parsed what =
    map_err (\<lambda>err. InvalidRecord (Msg ''feature manifest {what}: {err}'' [AS what, AS err])) parsed"

definition string_set_of :: "string list \<Rightarrow> string_set" where
  "string_set_of ts = fold (\<lambda>t. bt_insert t ()) ts bt_empty"

definition optional_set :: "json_codec \<Rightarrow> string option \<Rightarrow> string \<Rightarrow> error + string_set" where
  "optional_set j t what =
    (case t of None \<Rightarrow> Inr bt_empty
     | Some t \<Rightarrow> if is_blank t then Inr bt_empty
                 else and_then (json_text (dec_string_set j t) what) (\<lambda>ts. Inr (string_set_of ts)))"

definition manifest_from_attributes ::
  "json_codec \<Rightarrow> int \<Rightarrow> string \<Rightarrow> string option \<Rightarrow> string option \<Rightarrow> error + feature_manifest" where
  "manifest_from_attributes j version features history retention =
    and_then (json_text (dec_features j features) ''features'') (\<lambda>fs.
    and_then (optional_set j history ''historyDependent'') (\<lambda>hs.
    and_then (optional_set j retention ''retention'') (\<lambda>rs.
    Inr \<lparr>fm_version = version, fm_features = fs, fm_history_dependent = hs, fm_retention = rs\<rparr>)))"

definition insert_optional :: "string \<Rightarrow> string option \<Rightarrow> item \<Rightarrow> item" where
  "insert_optional name t item = (case t of None \<Rightarrow> item | Some t \<Rightarrow> bt_insert name (AvS t) item)"

definition feature_marker_item :: "json_codec \<Rightarrow> feature_manifest \<Rightarrow> item" where
  "feature_marker_item j m =
    (let item = bt_insert ''pk'' (AvS FEATURES_ID) bt_empty;
         item = bt_insert ''sk'' (av_n FEATURES_SORT_KEY) item;
         item = bt_insert ''version'' (av_n (fm_version m)) item;
         item = bt_insert ''features'' (AvS (enc_features j (fm_features m))) item;
         item = insert_optional ''historyDependent'' (set_json j (fm_history_dependent m)) item
     in insert_optional ''retention'' (set_json j (fm_retention m)) item)"

definition feature_marker_from_item :: "json_codec \<Rightarrow> item \<Rightarrow> error + feature_manifest" where
  "feature_marker_from_item j item =
    and_then (required_number item ''version'') (\<lambda>version.
    and_then (required_string item ''features'') (\<lambda>features.
    and_then (optional_string item ''historyDependent'') (\<lambda>history.
    and_then (optional_string item ''retention'') (\<lambda>retention.
    manifest_from_attributes j version features history retention))))"

section \<open>The rebuild fence\<close>

definition rebuild_lock_key :: item where
  "rebuild_lock_key =
    bt_insert ''sk'' (av_n REBUILD_SORT_KEY) (bt_insert ''pk'' (AvS REBUILD_LOCK_ID) bt_empty)"

definition rebuild_generation_key :: item where
  "rebuild_generation_key =
    bt_insert ''sk'' (av_n REBUILD_SORT_KEY) (bt_insert ''pk'' (AvS REBUILD_GENERATION_ID) bt_empty)"

definition rebuild_lock_item :: "rebuild_lock \<Rightarrow> item" where
  "rebuild_lock_item lock =
    bt_insert ''leaseExpiresAt'' (av_n (lk_lease_expires_at lock))
      (bt_insert ''generation'' (av_n (lk_generation lock))
        (bt_insert ''owner'' (AvS (lk_owner lock)) rebuild_lock_key))"

definition rebuild_force_released_item :: item where
  "rebuild_force_released_item = bt_insert ''forceReleased'' (AvBool True) rebuild_lock_key"

definition rebuild_lock_state_from_item :: "item \<Rightarrow> error + rebuild_lock option" where
  "rebuild_lock_state_from_item item =
    (case bt_get item ''forceReleased'' of
       Some (AvBool True) \<Rightarrow> Inr None
     | Some _ \<Rightarrow> Inl (InvalidRecord (Msg ''rebuild lock: forceReleased is not true'' []))
     | None \<Rightarrow>
         and_then (required_string item ''owner'') (\<lambda>owner.
         and_then (required_number item ''generation'') (\<lambda>generation.
         and_then (required_number item ''leaseExpiresAt'') (\<lambda>expires.
         Inr (Some \<lparr>lk_owner = owner, lk_generation = generation, lk_lease_expires_at = expires\<rparr>)))))"

definition rebuild_lock_from_item :: "item \<Rightarrow> error + rebuild_lock" where
  "rebuild_lock_from_item item =
    and_then (rebuild_lock_state_from_item item) (ok_or
      (InvalidRecord (Msg ''rebuild lock: the item a force-release leaves holds no lock'' [])))"

definition rebuild_lock_item_of :: "rebuild_state \<Rightarrow> item option" where
  "rebuild_lock_item_of st =
    (case rs_lock st of
       Some lock \<Rightarrow> Some (rebuild_lock_item lock)
     | None \<Rightarrow> if rg_force_released (rs_generation st) \<and> \<not> is_settled (rs_generation st)
               then Some rebuild_force_released_item else None)"

definition rebuild_generation_item :: "rebuild_generation \<Rightarrow> item" where
  "rebuild_generation_item g =
    (let item = bt_insert ''value'' (av_n (rg_value g)) rebuild_generation_key
     in if rg_force_released g then bt_insert ''forceReleased'' (AvBool True) item else item)"

definition rebuild_generation_from_item :: "item \<Rightarrow> error + rebuild_generation" where
  "rebuild_generation_from_item item =
    and_then (case bt_get item ''forceReleased'' of
        None \<Rightarrow> Inr False
      | Some (AvBool flag) \<Rightarrow> Inr flag
      | Some _ \<Rightarrow> Inl (InvalidRecord (Msg ''rebuild generation: forceReleased is not a boolean'' []))) (\<lambda>flag.
    and_then (required_number item ''value'') (\<lambda>value.
    Inr \<lparr>rg_value = value, rg_force_released = flag\<rparr>))"

section \<open>Outcomes\<close>

definition OUTCOME_SORT_KEY :: int where "OUTCOME_SORT_KEY = 1"

definition outcome_key :: "command_id \<Rightarrow> string" where
  "outcome_key command = COMMAND_OUTCOME_PREFIX @ command"

definition outcome_item :: "json_codec \<Rightarrow> outcome \<Rightarrow> error + item" where
  "outcome_item j o' =
    (let item = bt_insert ''pk'' (AvS (outcome_key (oc_command_id o'))) bt_empty;
         item = bt_insert ''sk'' (av_n OUTCOME_SORT_KEY) item;
         item = bt_insert ''status'' (AvS (status_text (oc_status o'))) item;
         item = bt_insert ''digest'' (AvS (oc_digest o')) item;
         item = (case oc_response o' of
                   Some r \<Rightarrow> if r = [] then item else bt_insert ''response'' (AvS (base64_encode r)) item
                 | None \<Rightarrow> item);
         item = (if oc_event_ids o' = [] then item
                 else bt_insert ''events'' (AvS (enc_strings j (oc_event_ids o'))) item)
     in and_then (case oc_rejection o' of None \<Rightarrow> Inr item
          | Some r \<Rightarrow> and_then (encode_rejection j r) (\<lambda>t.
              Inr (bt_insert ''code'' (AvS (rj_code r)) (bt_insert ''rejection'' (AvS t) item)))) (\<lambda>item.
        Inr (case oc_identity o' of None \<Rightarrow> item
          | Some i \<Rightarrow>
              insert_optional ''principal'' (ri_principal i)
                (bt_insert ''targets'' (AvS (encode_targets j i))
                  (bt_insert ''commandType'' (AvS (ri_command_type i)) item)))))"

definition outcome_item_size :: "json_codec \<Rightarrow> outcome \<Rightarrow> error + nat" where
  "outcome_item_size j o' = and_then (outcome_item j o') (\<lambda>item. Inr (item_size item))"

definition nonempty_text :: "string option \<Rightarrow> string option" where
  "nonempty_text t = (case t of Some [] \<Rightarrow> None | _ \<Rightarrow> t)"

definition strip_outcome_prefix :: "string \<Rightarrow> string option" where
  "strip_outcome_prefix pk =
    (if prefix COMMAND_OUTCOME_PREFIX pk then Some (drop (length COMMAND_OUTCOME_PREFIX) pk) else None)"

definition outcome_from_item :: "json_codec \<Rightarrow> item \<Rightarrow> error + outcome" where
  "outcome_from_item j item =
    and_then (required_string item ''pk'') (\<lambda>pk.
    and_then (ok_or (InvalidRecord (Msg ''item {pk} is not a command outcome'' [AS pk]))
               (strip_outcome_prefix pk)) (\<lambda>command.
    and_then (required_string item ''status'') (\<lambda>st.
    and_then (ok_or (InvalidRecord (Msg ''unknown outcome status {status:?}'' [AS st])) (parse_status st)) (\<lambda>status.
    and_then (optional_string item ''response'') (\<lambda>response_text.
    and_then (case nonempty_text response_text of
        Some t \<Rightarrow> (case base64_decode t of
            Inl err \<Rightarrow> Inl (InvalidRecord (Msg ''decode outcome response: {err}'' []))
          | Inr b \<Rightarrow> Inr (Some b))
      | None \<Rightarrow> Inr None) (\<lambda>response.
    and_then (optional_string item ''events'') (\<lambda>events_text.
    and_then (case nonempty_text events_text of
        Some t \<Rightarrow> (case dec_event_ids j t of
            Inl err \<Rightarrow> Inl (InvalidRecord (Msg ''decode event IDs: {err}'' [AS err]))
          | Inr ids \<Rightarrow> Inr (case ids of Some xs \<Rightarrow> xs | None \<Rightarrow> []))
      | None \<Rightarrow> Inr []) (\<lambda>event_ids.
    and_then (optional_string item ''rejection'') (\<lambda>rejection_text.
    and_then (case nonempty_text rejection_text of
        Some t \<Rightarrow> and_then (decode_rejection j t) (\<lambda>r. Inr (Some r))
      | None \<Rightarrow> Inr None) (\<lambda>rejection.
    and_then (ensure ((status = Rejected) = (rejection \<noteq> None))
        (InvalidRecord (Msg ''outcome {command_id} is {status} but its rejection attribute disagrees'' [AS command]))) (\<lambda>_.
    and_then (default_string item ''digest'') (\<lambda>digest.
    let o' = \<lparr>oc_command_id = command, oc_status = status, oc_digest = digest, oc_response = response,
              oc_event_ids = event_ids, oc_rejection = rejection, oc_identity = None\<rparr>
    in and_then (validate_stored o') (\<lambda>_.
       and_then (optional_string item ''code'') (\<lambda>code.
       and_then (case rejection of
           None \<Rightarrow> ensure (code = None)
             (corrupt_outcome command ''an accepted outcome carries a code attribute'')
         | Some r \<Rightarrow> ensure ((case code of None \<Rightarrow> [] | Some c \<Rightarrow> c) = rj_code r)
             (corrupt_outcome command ''the code attribute disagrees with the rejection'')) (\<lambda>_.
       and_then (optional_string item ''commandType'') (\<lambda>ty.
       and_then (optional_string item ''targets'') (\<lambda>targets.
       and_then (optional_string item ''principal'') (\<lambda>caller.
       and_then (decode_identity j command ty targets caller) (\<lambda>identity.
       Inr (o'\<lparr>oc_identity := identity\<rparr>))))))))))))))))))))"

section \<open>Views\<close>

definition DEFAULT_VIEW_SORT_KEY :: string where "DEFAULT_VIEW_SORT_KEY = ''VIEW''"
definition ENTITY_TYPE_INDEX :: string where "ENTITY_TYPE_INDEX = ''entityType-index''"

definition five_attributes ::
  "string \<Rightarrow> string \<Rightarrow> string \<Rightarrow> string \<Rightarrow> bytes \<Rightarrow> error + item" where
  "five_attributes pk sk entity_id entity_type payload =
    (let item = bt_insert ''pk'' (AvS pk) bt_empty;
         item = bt_insert ''sk'' (AvS sk) item;
         item = bt_insert ''entityID'' (AvS entity_id) item;
         item = bt_insert ''entityType'' (AvS entity_type) item
     in and_then (utf8_text payload ''view payload'') (\<lambda>t. Inr (bt_insert ''payload'' (AvS t) item)))"

definition view_item :: "entity_type \<Rightarrow> entity_id \<Rightarrow> bytes \<Rightarrow> error + item" where
  "view_item ty entity payload =
    five_attributes (ty @ ''#'' @ entity) DEFAULT_VIEW_SORT_KEY entity ty payload"

definition view_operation_item :: "view_operation \<Rightarrow> error + item" where
  "view_operation_item op =
    five_attributes (vo_pk op) (vo_sk op) (vo_owner op) (vo_entity_type op) (vo_payload op)"

definition view_row_item :: "view_row \<Rightarrow> error + item" where
  "view_row_item row =
    and_then (five_attributes (vr_pk row) (if vr_sk row = [] then DEFAULT_VIEW_SORT_KEY else vr_sk row)
      (vr_entity_id row) (vr_entity_type row) (vr_payload row)) (\<lambda>item.
    Inr (if vr_ttl row \<noteq> 0 then bt_insert ''ttl'' (av_n (vr_ttl row)) item else item))"

definition view_text :: "item \<Rightarrow> string \<Rightarrow> error + string" where
  "view_text item name =
    (case bt_get item name of
       None \<Rightarrow> Inr [] | Some (AvNull _) \<Rightarrow> Inr []
     | Some (AvS v) \<Rightarrow> Inr v | Some (AvN v) \<Rightarrow> Inr v
     | Some _ \<Rightarrow> Inl (InvalidRecord (Msg ''view attribute {name} is not a string'' [AS name])))"

definition view_row_from_item :: "item \<Rightarrow> error + view_row" where
  "view_row_from_item item =
    and_then (case bt_get item ''ttl'' of
        None \<Rightarrow> Inr 0 | Some (AvNull _) \<Rightarrow> Inr 0
      | Some (AvN v) \<Rightarrow> ok_or (InvalidRecord (Msg ''view attribute ttl is not an integer: {value}'' [AS v]))
                          (parse_i64 v)
      | Some _ \<Rightarrow> Inl (InvalidRecord (Msg ''view attribute ttl is not a number'' []))) (\<lambda>ttl.
    and_then (view_text item ''pk'') (\<lambda>pk.
    and_then (view_text item ''sk'') (\<lambda>sk.
    and_then (view_text item ''entityID'') (\<lambda>entity.
    and_then (view_text item ''entityType'') (\<lambda>ty.
    and_then (view_text item ''payload'') (\<lambda>payload.
    Inr \<lparr>vr_pk = pk, vr_sk = sk, vr_entity_id = entity, vr_entity_type = ty, vr_payload = payload,
         vr_ttl = ttl\<rparr>))))))"

definition url_safe :: "char \<Rightarrow> char" where
  "url_safe c = (if c = CHR ''+'' then CHR ''-'' else if c = CHR ''/'' then CHR ''_'' else c)"

definition url_unsafe :: "char \<Rightarrow> char" where
  "url_unsafe c = (if c = CHR ''-'' then CHR ''+'' else if c = CHR ''_'' then CHR ''/'' else c)"

definition string_attributes :: "item \<Rightarrow> (string, string) btree" where
  "string_attributes key =
    List.map_filter (\<lambda>(name, v). case v of AvS t \<Rightarrow> Some (name, t) | _ \<Rightarrow> None) key"

definition encode_view_cursor :: "json_codec \<Rightarrow> item \<Rightarrow> string" where
  "encode_view_cursor j key = map url_safe (base64_encode (enc_string_map j (string_attributes key)))"

definition invalid_cursor :: "string \<Rightarrow> error" where
  "invalid_cursor reason = InvalidArgument (Msg ''invalid pagination cursor: {reason}'' [AS reason])"

definition decode_view_cursor :: "json_codec \<Rightarrow> string \<Rightarrow> error + item" where
  "decode_view_cursor j cursor =
    (if CHR ''+'' \<in> set cursor \<or> CHR ''/'' \<in> set cursor
     then Inl (invalid_cursor ''illegal base64url data'')
     else case base64_decode (map url_unsafe cursor) of
       Inl (Msg reason args) \<Rightarrow> Inl (invalid_cursor reason)
     | Inr bytes \<Rightarrow>
        (case dec_string_map j bytes of
           Inl err \<Rightarrow> Inl (invalid_cursor err)
         | Inr strings \<Rightarrow>
             if \<not> bt_contains strings ''pk'' \<or> \<not> bt_contains strings ''sk''
             then Inl (invalid_cursor ''the key has no pk and sk'')
             else Inr (map (\<lambda>(name, v). (name, AvS v)) strings)))"

record view_query =
  vq_index :: "string option"
  vq_key_condition :: string
  vq_values :: item
  vq_limit :: "nat option"
  vq_start_key :: "item option"

definition i32_max :: nat where "i32_max = 2147483647"

definition make_view_query ::
  "json_codec \<Rightarrow> string option \<Rightarrow> string \<Rightarrow> item \<Rightarrow> nat option \<Rightarrow> string option \<Rightarrow> string \<times> string
    \<Rightarrow> error + view_query" where
  "make_view_query j index condition values limit cursor key =
    and_then (case nonempty_text cursor of None \<Rightarrow> Inr None
      | Some c \<Rightarrow> and_then (decode_view_cursor j c) (\<lambda>item. Inr (Some item))) (\<lambda>start.
    and_then (ensure (case start of None \<Rightarrow> True | Some item \<Rightarrow> bt_get item (fst key) = Some (AvS (snd key)))
      (InvalidArgument (Msg ''invalid pagination cursor: it belongs to another listing'' []))) (\<lambda>_.
    Inr \<lparr>vq_index = index, vq_key_condition = condition, vq_values = values,
         vq_limit = (case limit of Some l \<Rightarrow> if 0 < l \<and> l \<le> i32_max then Some l else None | None \<Rightarrow> None),
         vq_start_key = start\<rparr>))"

definition view_query_by_pk :: "json_codec \<Rightarrow> string \<Rightarrow> nat option \<Rightarrow> string option \<Rightarrow> error + view_query" where
  "view_query_by_pk j pk limit cursor =
    make_view_query j None ''pk = :pk'' (bt_insert '':pk'' (AvS pk) bt_empty) limit cursor (''pk'', pk)"

definition view_query_by_entity_type ::
  "json_codec \<Rightarrow> string \<Rightarrow> nat option \<Rightarrow> string option \<Rightarrow> error + view_query" where
  "view_query_by_entity_type j ty limit cursor =
    make_view_query j (Some ENTITY_TYPE_INDEX) ''entityType = :entityType''
      (bt_insert '':entityType'' (AvS ty) bt_empty) limit cursor (''entityType'', ty)"

section \<open>Head actions\<close>

definition HEAD_UPDATE :: string where "HEAD_UPDATE = ''SET head = :last''"
definition HEAD_UPDATE_RETAINED :: string where
  "HEAD_UPDATE_RETAINED = ''SET head = :last, #ttl = :t''"
definition HEAD_CREATE_CONDITION :: string where
  "HEAD_CREATE_CONDITION = ''attribute_not_exists(head)''"
definition HEAD_APPEND_CONDITION :: string where "HEAD_APPEND_CONDITION = ''head = :prev''"
definition HEAD_APPEND_RETAINED_CONDITION :: string where
  "HEAD_APPEND_RETAINED_CONDITION = ''head = :prev AND (attribute_not_exists(#ttl) OR #ttl <= :t)''"
definition HEAD_FENCE_CONDITION :: string where "HEAD_FENCE_CONDITION = ''head = :head''"
definition HEAD_FENCE_ABSENT_CONDITION :: string where
  "HEAD_FENCE_ABSENT_CONDITION = ''attribute_not_exists(head)''"
definition HEAD_COVERS_CONDITION :: string where "HEAD_COVERS_CONDITION = ''head >= :new''"
definition HEAD_COVERS_OR_ABSENT_CONDITION :: string where
  "HEAD_COVERS_OR_ABSENT_CONDITION = ''attribute_not_exists(head) OR head >= :new''"
definition HEAD_REFRESH_UPDATE :: string where "HEAD_REFRESH_UPDATE = ''SET #ttl = :t''"
definition HEAD_REFRESH_CONDITION :: string where
  "HEAD_REFRESH_CONDITION = ''head >= :new AND (attribute_not_exists(#ttl) OR #ttl <= :t)''"

record head_action =
  ha_entity_id :: entity_id
  ha_update_expression :: "string option"
  ha_condition_expression :: string
  ha_names :: "(string \<times> string) list"
  ha_values :: "(string \<times> int) list"

definition head_update :: "entity_id \<Rightarrow> event_sequence \<Rightarrow> event_sequence \<Rightarrow> int option \<Rightarrow> head_action" where
  "head_update entity first final ttl =
    (let create = first \<le> 1
     in \<lparr>ha_entity_id = entity,
         ha_update_expression = Some (if ttl \<noteq> None then HEAD_UPDATE_RETAINED else HEAD_UPDATE),
         ha_condition_expression =
           (if create then HEAD_CREATE_CONDITION
            else if ttl \<noteq> None then HEAD_APPEND_RETAINED_CONDITION else HEAD_APPEND_CONDITION),
         ha_names = (case ttl of Some t \<Rightarrow> [(''#ttl'', ''ttl'')] | None \<Rightarrow> []),
         ha_values = [('':last'', final)] @ (if create then [] else [('':prev'', first - 1)])
                     @ (case ttl of Some t \<Rightarrow> [('':t'', t)] | None \<Rightarrow> [])\<rparr>)"

definition head_fence :: "entity_id \<Rightarrow> event_sequence \<Rightarrow> head_action" where
  "head_fence entity head =
    (if head \<le> 0
     then \<lparr>ha_entity_id = entity, ha_update_expression = None,
           ha_condition_expression = HEAD_FENCE_ABSENT_CONDITION, ha_names = [], ha_values = []\<rparr>
     else \<lparr>ha_entity_id = entity, ha_update_expression = None,
           ha_condition_expression = HEAD_FENCE_CONDITION, ha_names = [],
           ha_values = [('':head'', head)]\<rparr>)"

definition snapshot_cover :: "entity_id \<Rightarrow> event_sequence \<Rightarrow> head_action" where
  "snapshot_cover entity new =
    \<lparr>ha_entity_id = entity, ha_update_expression = None,
     ha_condition_expression =
       (if 0 < new then HEAD_COVERS_CONDITION else HEAD_COVERS_OR_ABSENT_CONDITION),
     ha_names = [], ha_values = [('':new'', new)]\<rparr>"

definition snapshot_guard :: "entity_id \<Rightarrow> event_sequence \<Rightarrow> int option \<Rightarrow> head_action" where
  "snapshot_guard entity new ttl =
    (case ttl of
       Some t \<Rightarrow>
         if 0 < new
         then \<lparr>ha_entity_id = entity, ha_update_expression = Some HEAD_REFRESH_UPDATE,
               ha_condition_expression = HEAD_REFRESH_CONDITION, ha_names = [(''#ttl'', ''ttl'')],
               ha_values = [('':new'', new), ('':t'', t)]\<rparr>
         else snapshot_cover entity new
     | None \<Rightarrow> snapshot_cover entity new)"

definition head_action_key :: "head_action \<Rightarrow> item" where
  "head_action_key a =
    bt_insert ''sk'' (av_n HEAD_SORT_KEY) (bt_insert ''pk'' (AvS (ha_entity_id a)) bt_empty)"

definition head_action_size :: "head_action \<Rightarrow> nat" where
  "head_action_size a =
    (let expressions = (case ha_update_expression a of None \<Rightarrow> 0 | Some e \<Rightarrow> length e)
                       + length (ha_condition_expression a);
         names = sum_list (map (\<lambda>(placeholder, name). length placeholder + length name) (ha_names a));
         values = sum_list (map (\<lambda>(placeholder, n). length placeholder + length (show_int n)) (ha_values a))
     in item_size (head_action_key a) + expressions + names + values)"

section \<open>Decoding what was encoded\<close>

named_theorems attribute_simps \<open>reading one attribute of an item\<close>

lemma attribute_reads [attribute_simps]:
  "bt_get item name = Some (AvS v) \<Longrightarrow> optional_string item name = Inr (Some v)"
  "bt_get item name = None \<Longrightarrow> optional_string item name = Inr None"
  "bt_get item name = Some (AvS v) \<Longrightarrow> required_string item name = Inr v"
  "bt_get item name = Some (AvS v) \<Longrightarrow> default_string item name = Inr v"
  "bt_get item name = None \<Longrightarrow> default_string item name = Inr []"
  by (simp_all add: optional_string_def required_string_def default_string_def)

lemma attribute_numbers [attribute_simps]:
  "bt_get item name = Some (av_n i) \<Longrightarrow> in_i64 i \<Longrightarrow> optional_number item name = Inr (Some i)"
  "bt_get item name = Some (av_n i) \<Longrightarrow> in_i64 i \<Longrightarrow> required_number item name = Inr i"
  "bt_get item name = Some (av_n i) \<Longrightarrow> in_i64 i \<Longrightarrow> default_number item name = Inr i"
  "bt_get item name = None \<Longrightarrow> optional_number item name = Inr None"
  by (simp_all add: optional_number_def required_number_def default_number_def av_n_def parse_show_int)

lemma bt_get_insert_ttl [attribute_simps]:
  "name \<noteq> ''ttl'' \<Longrightarrow> bt_get (insert_ttl item ttl) name = bt_get item name"
  by (auto simp: insert_ttl_def bt_simps split: option.splits)

lemma bt_get_insert_optional [attribute_simps]:
  "bt_get (insert_optional name t item) name' =
    (if name' = name \<and> t \<noteq> None then Some (AvS (the t)) else bt_get item name')"
  by (auto simp: insert_optional_def bt_simps split: option.splits)

lemma event_item_round_trip:
  assumes "event_item j e ttl = Inr item"
    and "in_i64 (ev_sequence e)" and "in_i64 (ev_version e)"
    and "ev_id e = for_event (ev_entity_id e) (ev_sequence e)"
    and "\<not> is_blank (enc_metadata j (metadata_wire (ev_metadata e)))"
    and "dec_metadata j (enc_metadata j (metadata_wire (ev_metadata e))) =
          Inr (Some (metadata_wire (ev_metadata e)))"
  shows "event_from_item j item = Inr (e\<lparr>ev_metadata := metadata_wire (ev_metadata e)\<rparr>)"
proof -
  have item: "bt_get item ''pk'' = Some (AvS (ev_entity_id e))"
    "bt_get item ''sk'' = Some (av_n (ev_sequence e))"
    "bt_get item ''type'' = Some (AvS (ev_type e))"
    "bt_get item ''version'' = Some (av_n (ev_version e))"
    "bt_get item ''entityType'' = Some (AvS (ev_entity_type e))"
    "bt_get item ''payload'' = Some (AvS (ev_payload e))"
    "bt_get item ''metadata'' = Some (AvS (enc_metadata j (metadata_wire (ev_metadata e))))"
    using assms(1)
    by (auto simp: event_item_def Let_def result_simps utf8_text_def bt_get_insert attribute_simps
        split: if_splits)
  show ?thesis
    using assms(2-) by (simp add: event_from_item_def attribute_simps item)
qed

lemma snapshot_item_round_trip:
  assumes "snapshot_item s ttl = Inr item"
    and "in_i64 (sn_sequence s)" and "in_i64 (sn_event_sequence s)"
  shows "snapshot_from_item item = Inr s" and "is_snapshot_item item"
proof -
  have item: "bt_get item ''pk'' = Some (AvS (sn_entity_id s))"
    "bt_get item ''sk'' = Some (av_n SNAPSHOT_SORT_KEY)"
    "bt_get item ''seq'' = Some (av_n (sn_sequence s))"
    "bt_get item ''eventSeq'' = Some (av_n (sn_event_sequence s))"
    "bt_get item ''entityType'' = Some (AvS (sn_entity_type s))"
    "bt_get item ''payload'' = Some (AvS (sn_payload s))"
    using assms(1)
    by (auto simp: snapshot_item_def Let_def result_simps utf8_text_def bt_get_insert attribute_simps
        split: if_splits)
  show "snapshot_from_item item = Inr s"
    using assms(2-) by (simp add: snapshot_from_item_def attribute_simps item)
  show "is_snapshot_item item"
    by (simp add: is_snapshot_item_def item av_n_def parse_show_int in_i64_def i64_min_def i64_max_def
        SNAPSHOT_SORT_KEY_def)
qed

lemma five_attributes_get:
  assumes "five_attributes pk sk entity ty payload = Inr item"
  shows "bt_get item ''pk'' = Some (AvS pk)" "bt_get item ''sk'' = Some (AvS sk)"
    "bt_get item ''entityID'' = Some (AvS entity)" "bt_get item ''entityType'' = Some (AvS ty)"
    "bt_get item ''payload'' = Some (AvS payload)" "bt_get item ''ttl'' = None"
  using assms
  by (auto simp: five_attributes_def Let_def result_simps utf8_text_def bt_get_insert split: if_splits)

lemma view_row_item_round_trip:
  assumes "view_row_item row = Inr item" and "in_i64 (vr_ttl row)"
  shows "view_row_from_item item =
    Inr (row\<lparr>vr_sk := if vr_sk row = [] then DEFAULT_VIEW_SORT_KEY else vr_sk row\<rparr>)"
proof -
  let ?sk = "if vr_sk row = [] then DEFAULT_VIEW_SORT_KEY else vr_sk row"
  obtain base where base: "five_attributes (vr_pk row) ?sk (vr_entity_id row) (vr_entity_type row)
        (vr_payload row) = Inr base"
    and item: "item = (if vr_ttl row \<noteq> 0 then bt_insert ''ttl'' (av_n (vr_ttl row)) base else base)"
    using assms(1) by (auto simp: view_row_item_def result_simps)
  note get = five_attributes_get [OF base]
  have texts: "view_text item ''pk'' = Inr (vr_pk row)" "view_text item ''sk'' = Inr ?sk"
    "view_text item ''entityID'' = Inr (vr_entity_id row)"
    "view_text item ''entityType'' = Inr (vr_entity_type row)"
    "view_text item ''payload'' = Inr (vr_payload row)"
    by (simp_all add: view_text_def item bt_get_insert get)
  have ttl: "bt_get item ''ttl'' = (if vr_ttl row \<noteq> 0 then Some (av_n (vr_ttl row)) else None)"
    by (simp add: item bt_get_insert get)
  show ?thesis
    using assms(2) by (simp add: view_row_from_item_def ttl texts av_n_def parse_show_int)
qed

text \<open>The size the budget counts for a view put is the size of the item it writes.\<close>

lemma view_operation_item_size:
  assumes "vo_kind op = Put" and "view_operation_item op = Inr item"
  shows "item_size item = view_operation_size op"
  using assms
  by (auto simp: view_operation_item_def five_attributes_def Let_def result_simps utf8_text_def
      bt_empty_def item_size_def view_operation_size_def split: if_splits)

lemma rebuild_lock_item_round_trip:
  assumes "in_i64 (lk_generation lock)" and "in_i64 (lk_lease_expires_at lock)"
  shows "rebuild_lock_from_item (rebuild_lock_item lock) = Inr lock"
proof -
  have "bt_get (rebuild_lock_item lock) ''forceReleased'' = None"
    "bt_get (rebuild_lock_item lock) ''owner'' = Some (AvS (lk_owner lock))"
    "bt_get (rebuild_lock_item lock) ''generation'' = Some (av_n (lk_generation lock))"
    "bt_get (rebuild_lock_item lock) ''leaseExpiresAt'' = Some (av_n (lk_lease_expires_at lock))"
    by (simp_all add: rebuild_lock_item_def rebuild_lock_key_def bt_get_insert)
  with assms show ?thesis
    by (simp add: rebuild_lock_from_item_def rebuild_lock_state_from_item_def attribute_simps)
qed

lemma rebuild_generation_item_round_trip:
  assumes "in_i64 (rg_value g)"
  shows "rebuild_generation_from_item (rebuild_generation_item g) = Inr g"
proof -
  have "bt_get (rebuild_generation_item g) ''value'' = Some (av_n (rg_value g))"
    "bt_get (rebuild_generation_item g) ''forceReleased'' =
      (if rg_force_released g then Some (AvBool True) else None)"
    by (simp_all add: rebuild_generation_item_def rebuild_generation_key_def bt_get_insert Let_def)
  with assms show ?thesis
    by (simp add: rebuild_generation_from_item_def attribute_simps)
qed

lemma outcome_key_strip: "strip_outcome_prefix (outcome_key command) = Some command"
  by (simp add: strip_outcome_prefix_def outcome_key_def)

lemma outcome_key_reserved: "is_reserved (outcome_key command)"
  by (simp add: outcome_key_def is_reserved_def)

lemma status_round_trip [simp]: "parse_status (status_text st) = Some st"
  by (cases st) (simp_all add: parse_status_def status_text_def)

lemma base64_encode_nonempty: "r \<noteq> [] \<Longrightarrow> base64_encode r \<noteq> []"
  by (subst base64_encode.simps) simp

end
