(* ===== verification/Heads.thy ===== *)
theory Heads
  imports Errors
begin

text \<open>
  Failure classification shared by every backend (\<open>heads.rs\<close>): the two passes of the probe, the
  verdicts, and the ranking that picks the error a commit reports.
\<close>

record read_fence =
  rf_entity_id :: entity_id
  rf_entity_type :: entity_type
  rf_head :: event_sequence
  rf_provenance :: fence_provenance

datatype probe = Drift | Settled | Ahead

definition probe_first :: "event_sequence \<Rightarrow> event_sequence \<Rightarrow> probe" where
  "probe_first stored derived =
    (if stored < derived then Drift else if stored = derived then Settled else Ahead)"

definition after_rederive :: "event_sequence \<Rightarrow> event_sequence \<Rightarrow> probe" where
  "after_rederive stored rederived = (if rederived < stored then Drift else Settled)"

definition drift :: "entity_id \<Rightarrow> event_sequence \<Rightarrow> event_sequence \<Rightarrow> error" where
  "drift entity stored derived =
    StreamHeadDrift entity (if 0 < stored then Some stored else None) derived"

definition conflict :: "entity_id \<Rightarrow> error" where
  "conflict entity =
    Conflict entity
      (Msg ''conditional check failed: the sequence or snapshot changed since it was read'' [])"

definition gap_or_conflict :: "entity_id \<Rightarrow> event_sequence \<Rightarrow> event_sequence \<Rightarrow> error" where
  "gap_or_conflict entity first stored =
    (if stored < first - 1 then SequenceGap entity stored first else conflict entity)"

definition fence_conflict :: "read_fence \<Rightarrow> error" where
  "fence_conflict fence = FenceConflict (rf_entity_id fence) (rf_head fence) (rf_provenance fence)"

definition rank_key :: "error \<Rightarrow> nat" where
  "rank_key e = (case e of StreamHeadDrift _ _ _ \<Rightarrow> 0 | SequenceGap _ _ _ \<Rightarrow> 1 | _ \<Rightarrow> 2)"

definition rank :: "error list \<Rightarrow> error option" where
  "rank verdicts = min_by_key rank_key verdicts"

section \<open>Properties\<close>

lemma drift_not_conflict [simp]: "\<not> is_conflict (drift entity stored derived)"
  by (simp add: drift_def is_conflict_def)

lemma gap_or_conflict_is_conflict [simp]: "is_conflict (gap_or_conflict entity first stored)"
  by (simp add: gap_or_conflict_def conflict_def is_conflict_def)

lemma fence_conflict_is_conflict [simp]: "is_conflict (fence_conflict fence)"
  by (simp add: fence_conflict_def is_conflict_def)

lemma conflict_is_conflict [simp]: "is_conflict (conflict entity)"
  by (simp add: conflict_def is_conflict_def)

lemma rank_None: "rank verdicts = None \<longleftrightarrow> verdicts = []"
  by (simp add: rank_def min_by_key_None)

lemma rank_mem: "rank verdicts = Some e \<Longrightarrow> e \<in> set verdicts"
  by (auto simp: rank_def dest: min_by_key_mem)

lemma rank_key_cases: "rank_key e = 0 \<or> rank_key e = 1 \<or> rank_key e = 2"
  by (simp add: rank_key_def split: error.splits)

lemma rank_key_0: "rank_key e = 0 \<longleftrightarrow> (\<exists>entity stored derived. e = StreamHeadDrift entity stored derived)"
  by (cases e) (simp_all add: rank_key_def)

lemma rank_key_1: "rank_key e = 1 \<longleftrightarrow> (\<exists>entity after found. e = SequenceGap entity after found)"
  by (cases e) (simp_all add: rank_key_def)

text \<open>A commit whose verdicts hold a drift reports a drift; one whose verdicts hold a gap and no
  drift reports a gap; and the verdict reported is the first of its rank.\<close>

lemma rank_first_minimum:
  assumes "rank verdicts = Some e"
  shows "\<exists>before later. verdicts = before @ e # later
    \<and> (\<forall>v \<in> set before. rank_key e < rank_key v) \<and> (\<forall>v \<in> set later. rank_key e \<le> rank_key v)"
  using assms unfolding rank_def by (rule min_by_key_first)

lemma rank_reports_drift:
  assumes "StreamHeadDrift entity stored derived \<in> set verdicts"
  shows "\<exists>entity' stored' derived'. rank verdicts = Some (StreamHeadDrift entity' stored' derived')"
proof -
  obtain e where e: "rank verdicts = Some e"
    using assms rank_None [of verdicts] by (cases "rank verdicts") auto
  then have "rank_key e \<le> rank_key (StreamHeadDrift entity stored derived)"
    using assms by (auto simp: rank_def dest: min_by_key_le)
  then show ?thesis
    using e rank_key_0 [of e] by (simp add: rank_key_def)
qed

end
