(* ===== verification/Repository.thy ===== *)
theory Repository
  imports Wire_Dynamo Heads
begin

text \<open>
  The storage contract (\<open>repository.rs\<close>): commits and transactions, what they must satisfy before a
  repository writes them, the normal form of a transaction, the sizes the commit budget counts, and
  when a commit takes a snapshot. A backend operation is an element of the type \<open>'op\<close>.
\<close>

section \<open>Commits\<close>

record new_snapshot =
  ns_entity_type :: entity_type
  ns_sequence :: event_sequence
  ns_payload :: bytes

record 'op commit =
  cm_entity_id :: entity_id
  cm_events :: "serialized_event list"
  cm_snapshot :: "new_snapshot option"
  cm_operations :: "'op list"
  cm_views :: "projected_view list"
  cm_outcome :: "outcome option"

definition new_commit :: "entity_id \<Rightarrow> serialized_event list \<Rightarrow> 'op commit" where
  "new_commit entity events =
    \<lparr>cm_entity_id = entity, cm_events = events, cm_snapshot = None, cm_operations = [],
     cm_views = [], cm_outcome = None\<rparr>"

definition commit_with_outcome :: "'op commit \<Rightarrow> outcome \<Rightarrow> 'op commit" where
  "commit_with_outcome c o' = c\<lparr>cm_outcome := Some o'\<rparr>"

definition commit_with_snapshot :: "'op commit \<Rightarrow> new_snapshot \<Rightarrow> 'op commit" where
  "commit_with_snapshot c snapshot = c\<lparr>cm_snapshot := Some snapshot\<rparr>"

definition commit_with_operations :: "'op commit \<Rightarrow> 'op list \<Rightarrow> 'op commit" where
  "commit_with_operations c ops = c\<lparr>cm_operations := cm_operations c @ ops\<rparr>"

definition commit_with_views :: "'op commit \<Rightarrow> projected_view list \<Rightarrow> 'op commit" where
  "commit_with_views c views = c\<lparr>cm_views := cm_views c @ views\<rparr>"

definition stored_outcome :: "'op commit \<Rightarrow> outcome option" where
  "stored_outcome c =
    (case cm_outcome c of None \<Rightarrow> None
     | Some o' \<Rightarrow> Some (stored_outcome_of o' (map ev_id (cm_events c))))"

definition snapshot_types :: "'op commit \<Rightarrow> entity_type list" where
  "snapshot_types c = (case cm_snapshot c of None \<Rightarrow> [] | Some s \<Rightarrow> [ns_entity_type s])"

subsection \<open>Validation\<close>

definition InvalidCommitMsg :: "string \<Rightarrow> msg_arg list \<Rightarrow> error" where
  "InvalidCommitMsg format args = InvalidCommit (Msg format args)"

definition check_entity_types :: "entity_type \<Rightarrow> serialized_event list \<Rightarrow> error + unit" where
  "check_entity_types ty events =
    for_each (\<lambda>e. ensure (ev_entity_type e = ty)
      (InvalidCommitMsg ''event {} has entity type {}, but the commit's first event has {}''
         [AS (ev_id e), AS (ev_entity_type e), AS ty])) events"

definition check_new_snapshot :: "entity_type \<Rightarrow> new_snapshot option \<Rightarrow> error + unit" where
  "check_new_snapshot ty snapshot =
    (case snapshot of None \<Rightarrow> Inr ()
     | Some s \<Rightarrow>
        and_then (ensure (ns_entity_type s = ty)
          (InvalidCommitMsg ''the snapshot has entity type {}, but the events have {}''
             [AS (ns_entity_type s), AS ty])) (\<lambda>_.
        ensure (1 \<le> ns_sequence s)
          (InvalidCommitMsg ''snapshot sequence {} is below 1; snapshot sequences start at 1''
             [AI (ns_sequence s)])))"

definition check_event_ids :: "entity_id \<Rightarrow> serialized_event list \<Rightarrow> error + unit" where
  "check_event_ids entity events =
    for_each (\<lambda>e.
      and_then (ensure (ev_entity_id e = entity)
        (InvalidCommitMsg ''event {} belongs to entity {}, not {}''
           [AS (ev_id e), AS (ev_entity_id e), AS entity])) (\<lambda>_.
      ensure (ev_id e = for_event (ev_entity_id e) (ev_sequence e))
        (InvalidCommitMsg ''event {} should have the ID {id}''
           [AS (ev_id e), AS (for_event (ev_entity_id e) (ev_sequence e))]))) events"

text \<open>The pairs of neighbours, \<open>windows(2)\<close>.\<close>

definition check_contiguous :: "serialized_event list \<Rightarrow> error + unit" where
  "check_contiguous events =
    for_each (\<lambda>(a, b). ensure (checked_next (ev_sequence a) = Some (ev_sequence b))
      (InvalidCommitMsg ''event sequence {} follows {}; sequences must be contiguous''
         [AI (ev_sequence b), AI (ev_sequence a)])) (zip events (tl events))"

definition validate :: "json_codec \<Rightarrow> 'op commit \<Rightarrow> error + unit" where
  "validate j c =
    and_then (case cm_outcome c of None \<Rightarrow> Inr ()
      | Some o' \<Rightarrow> and_then (check_outcome j o') (\<lambda>_.
          check_commit_text (cm_events c) (snapshot_types c) [cm_entity_id c])) (\<lambda>_.
    (case cm_events c of
       [] \<Rightarrow> if cm_operations c \<noteq> [] \<or> cm_views c \<noteq> []
             then Inl (ProjectorWithoutEvents (length (cm_operations c) + length (cm_views c)))
             else Inr ()
     | first # _ \<Rightarrow>
         and_then (check_entity_types (ev_entity_type first) (cm_events c)) (\<lambda>_.
         and_then (check_new_snapshot (ev_entity_type first) (cm_snapshot c)) (\<lambda>_.
         and_then (check_event_ids (cm_entity_id c) (cm_events c)) (\<lambda>_.
         and_then (ensure (1 \<le> ev_sequence first)
           (InvalidCommitMsg ''event sequence {} is below 1; sequences start at 1''
              [AI (ev_sequence first)])) (\<lambda>_.
         and_then (check_contiguous (cm_events c)) (\<lambda>_.
         check_views (cm_views c))))))))"

section \<open>Transactions\<close>

record 'op transaction_commit =
  tc_streams :: "'op commit list"
  tc_fences :: "read_fence list"
  tc_operations :: "'op list"
  tc_views :: "projected_view list"
  tc_outcome :: "outcome option"

definition new_transaction :: "'op commit list \<Rightarrow> 'op transaction_commit" where
  "new_transaction streams =
    \<lparr>tc_streams = streams, tc_fences = [], tc_operations = [], tc_views = [], tc_outcome = None\<rparr>"

definition transaction_with_outcome :: "'op transaction_commit \<Rightarrow> outcome \<Rightarrow> 'op transaction_commit" where
  "transaction_with_outcome t o' = t\<lparr>tc_outcome := Some o'\<rparr>"

definition with_fences :: "'op transaction_commit \<Rightarrow> read_fence list \<Rightarrow> 'op transaction_commit" where
  "with_fences t fences = t\<lparr>tc_fences := tc_fences t @ fences\<rparr>"

definition transaction_with_operations :: "'op transaction_commit \<Rightarrow> 'op list \<Rightarrow> 'op transaction_commit" where
  "transaction_with_operations t ops = t\<lparr>tc_operations := tc_operations t @ ops\<rparr>"

definition transaction_with_views ::
  "'op transaction_commit \<Rightarrow> projected_view list \<Rightarrow> 'op transaction_commit" where
  "transaction_with_views t views = t\<lparr>tc_views := tc_views t @ views\<rparr>"

definition transaction_event_ids :: "'op transaction_commit \<Rightarrow> event_id list" where
  "transaction_event_ids t = concat (map (\<lambda>s. map ev_id (cm_events s)) (tc_streams t))"

definition transaction_stored_outcome :: "'op transaction_commit \<Rightarrow> outcome option" where
  "transaction_stored_outcome t =
    (case tc_outcome t of None \<Rightarrow> None
     | Some o' \<Rightarrow> Some (stored_outcome_of o' (transaction_event_ids t)))"

subsection \<open>Normalization\<close>

text \<open>The two validation loops: \<open>seen\<close> holds the stream IDs so far.\<close>

fun check_streams :: "json_codec \<Rightarrow> entity_id list \<Rightarrow> 'op commit list \<Rightarrow> error + unit" where
  "check_streams j seen [] = Inr ()"
| "check_streams j seen (s # streams) =
    and_then (validate j s) (\<lambda>_.
    and_then (check_not_reserved (cm_entity_id s)) (\<lambda>_.
    and_then (ensure (cm_entity_id s \<notin> set seen)
      (InvalidCommitMsg ''duplicate stream {}'' [AS (cm_entity_id s)])) (\<lambda>_.
    check_streams j (cm_entity_id s # seen) streams)))"

fun check_fences :: "entity_id list \<Rightarrow> read_fence list \<Rightarrow> error + unit" where
  "check_fences seen [] = Inr ()"
| "check_fences seen (f # fences) =
    and_then (check_not_reserved (rf_entity_id f)) (\<lambda>_.
    and_then (ensure (\<not> (rf_head f < 0 \<or> checked_next (rf_head f) = None \<or> rf_entity_id f \<in> set seen))
      (InvalidCommitMsg ''invalid or duplicate fence {}'' [AS (rf_entity_id f)])) (\<lambda>_.
    check_fences (rf_entity_id f # seen) fences))"

definition carried :: "'op transaction_commit \<Rightarrow> nat" where
  "carried t =
    length (tc_operations t) + length (tc_views t)
    + sum_list (map (\<lambda>s. length (cm_operations s) + length (cm_views s)) (tc_streams t))"

definition has_events :: "'op commit \<Rightarrow> bool" where
  "has_events c \<longleftrightarrow> cm_events c \<noteq> []"

text \<open>The written streams, their operations and views moved to the transaction, and the fences of
  the streams it does not write.\<close>

definition normal_form :: "'op transaction_commit \<Rightarrow> 'op transaction_commit" where
  "normal_form t =
    (let written = filter has_events (tc_streams t);
         streams = sort_key cm_entity_id (map (\<lambda>s. s\<lparr>cm_operations := [], cm_views := []\<rparr>) written)
     in t\<lparr>tc_streams := streams,
          tc_fences := filter (\<lambda>f. rf_entity_id f \<notin> set (map cm_entity_id streams))
                         (sort_key rf_entity_id (tc_fences t)),
          tc_operations := concat (map cm_operations written) @ tc_operations t,
          tc_views := concat (map cm_views written) @ tc_views t\<rparr>)"

definition normalize :: "json_codec \<Rightarrow> 'op transaction_commit \<Rightarrow> error + 'op transaction_commit" where
  "normalize j t =
    and_then (case tc_outcome t of None \<Rightarrow> Inr ()
      | Some o' \<Rightarrow> and_then (check_outcome j o') (\<lambda>_.
          check_commit_text (concat (map cm_events (tc_streams t)))
            (map rf_entity_type (tc_fences t) @ concat (map snapshot_types (tc_streams t)))
            (map rf_entity_id (tc_fences t) @ map cm_entity_id (tc_streams t)))) (\<lambda>_.
    and_then (check_streams j [] (tc_streams t)) (\<lambda>_.
    and_then (check_fences [] (tc_fences t)) (\<lambda>_.
    and_then (for_each (\<lambda>s. ensure (\<not> (cm_snapshot s \<noteq> None \<and> cm_events s = []))
        (InvalidCommitMsg ''snapshot for {} must cover this commit's last event'' [AS (cm_entity_id s)]))
      (tc_streams t)) (\<lambda>_.
    and_then (ensure (\<not> (carried t > 0 \<and> (\<forall>s \<in> set (tc_streams t). cm_events s = [])))
      (ProjectorWithoutEvents (carried t))) (\<lambda>_.
    and_then (check_views (tc_views (normal_form t))) (\<lambda>_.
    Inr (normal_form t)))))))"

definition read_only_fences :: "'op transaction_commit \<Rightarrow> read_fence list" where
  "read_only_fences t =
    filter (\<lambda>f. \<not> (\<exists>s \<in> set (tc_streams t). cm_entity_id s = rf_entity_id f)) (tc_fences t)"

definition check_retention ::
  "'op transaction_commit \<Rightarrow> feature_manifest option \<Rightarrow> (entity_type \<Rightarrow> bool) \<Rightarrow> error + unit" where
  "check_retention t manifest locally_retained =
    for_each (\<lambda>f. ensure
        (\<not> ((case manifest of None \<Rightarrow> False | Some m \<Rightarrow> is_retained m (rf_entity_type f))
            \<or> locally_retained (rf_entity_type f)))
        (RetentionConflict (rf_entity_type f))) (tc_fences t)"

definition transaction_is_empty :: "'op transaction_commit \<Rightarrow> bool" where
  "transaction_is_empty t \<longleftrightarrow>
    tc_streams t = [] \<and> tc_fences t = [] \<and> tc_operations t = [] \<and> tc_views t = []
    \<and> tc_outcome t = None"

section \<open>Sizes\<close>

definition marker_check_size :: nat where
  "marker_check_size =
    item_size (bt_insert ''sk'' (AvN (show_int FEATURES_SORT_KEY))
                (bt_insert ''pk'' (AvS FEATURES_ID) bt_empty))"

definition control_check_sizes :: "nat list" where
  "control_check_sizes = [marker_check_size, lock_check_size]"

definition written_snapshot :: "entity_id \<Rightarrow> event_sequence \<Rightarrow> new_snapshot \<Rightarrow> serialized_snapshot" where
  "written_snapshot entity final s =
    \<lparr>sn_entity_type = ns_entity_type s, sn_entity_id = entity, sn_sequence = ns_sequence s,
     sn_event_sequence = final, sn_payload = ns_payload s\<rparr>"

definition stream_sizes ::
  "json_codec \<Rightarrow> (entity_type \<Rightarrow> int option) \<Rightarrow> 'op commit \<Rightarrow> error + nat list" where
  "stream_sizes j ttl c =
    (case cm_events c of [] \<Rightarrow> Inr []
     | first # _ \<Rightarrow>
        (let final = ev_sequence (last (cm_events c));
             head = head_action_size (head_update (cm_entity_id c) (ev_sequence first) final
                                        (ttl (ev_entity_type first)))
         in and_then (collect (\<lambda>e. and_then (event_item j e (ttl (ev_entity_type e)))
                        (\<lambda>item. Inr (item_size item))) (cm_events c)) (\<lambda>events.
            case cm_snapshot c of None \<Rightarrow> Inr (head # events)
            | Some s \<Rightarrow> and_then (snapshot_item (written_snapshot (cm_entity_id c) final s)
                          (ttl (ns_entity_type s))) (\<lambda>item.
                Inr (head # events @ [item_size item])))))"

definition outcome_sizes :: "json_codec \<Rightarrow> outcome option \<Rightarrow> error + nat list" where
  "outcome_sizes j outcome =
    (case outcome of None \<Rightarrow> Inr []
     | Some o' \<Rightarrow> and_then (outcome_item_size j o') (\<lambda>s. Inr [s]))"

definition commit_sizes ::
  "json_codec \<Rightarrow> (entity_type \<Rightarrow> int option) \<Rightarrow> 'op commit \<Rightarrow> error + nat list" where
  "commit_sizes j ttl c =
    and_then (stream_sizes j ttl c) (\<lambda>stream.
    and_then (outcome_sizes j (stored_outcome c)) (\<lambda>outcome.
    Inr (control_check_sizes @ stream @ outcome)))"

definition transaction_sizes ::
  "json_codec \<Rightarrow> (entity_type \<Rightarrow> int option) \<Rightarrow> 'op transaction_commit \<Rightarrow> error + nat list" where
  "transaction_sizes j ttl t =
    and_then (collect (stream_sizes j ttl) (tc_streams t)) (\<lambda>streams.
    and_then (outcome_sizes j (transaction_stored_outcome t)) (\<lambda>outcome.
    Inr (control_check_sizes @ concat streams
         @ map (\<lambda>f. head_action_size (head_fence (rf_entity_id f) (rf_head f))) (read_only_fences t)
         @ outcome)))"

definition view_sizes :: "projected_view list \<Rightarrow> nat list" where
  "view_sizes views = map (\<lambda>v. view_operation_size (pv_op v)) views"

definition snapshot_commit_size :: "serialized_snapshot \<Rightarrow> error + nat" where
  "snapshot_commit_size s = and_then (snapshot_item s (Some i64_max)) (\<lambda>item. Inr (item_size item))"

definition snapshot_fits :: "serialized_snapshot \<Rightarrow> error + bool" where
  "snapshot_fits s = and_then (snapshot_commit_size s) (\<lambda>n. Inr (n \<le> MAX_COMMIT_ITEM_BYTES))"

definition within_budget ::
  "new_snapshot \<Rightarrow> entity_id \<Rightarrow> event_sequence \<Rightarrow> error + new_snapshot option" where
  "within_budget s entity final =
    and_then (snapshot_fits (written_snapshot entity final s)) (\<lambda>fits.
    Inr (if fits then Some s else None))"

section \<open>Receipts\<close>

definition receipt_of_commit :: "'op commit \<Rightarrow> serialized_event list" where
  "receipt_of_commit c = cm_events c"

definition receipt_of_transaction :: "'op transaction_commit \<Rightarrow> serialized_event list" where
  "receipt_of_transaction t =
    concat (map cm_events (sort_key cm_entity_id (filter has_events (tc_streams t))))"

section \<open>When a commit takes a snapshot\<close>

definition snapshot_events_due :: "event_sequence \<Rightarrow> nat \<Rightarrow> nat \<Rightarrow> nat" where
  "snapshot_events_due current events interval =
    (if interval = 0 then 0
     else let next_snapshot_at = interval - nat (current mod int interval)
          in if events < next_snapshot_at then 0 else events)"

section \<open>What a validated commit satisfies\<close>

lemma ex_Inr_unit: "(\<exists>x. r = Inr (x :: unit)) \<longleftrightarrow> r = Inr ()"
  by auto

text \<open>The sequences of a commit: contiguous from the first.\<close>

definition contiguous :: "serialized_event list \<Rightarrow> bool" where
  "contiguous events \<longleftrightarrow>
    (\<forall>i < length events. ev_sequence (events ! i) = ev_sequence (hd events) + int i)"

lemma check_contiguous_ok:
  assumes "check_contiguous events = Inr ()"
  shows "contiguous events"
proof -
  have step: "ev_sequence (events ! Suc i) = ev_sequence (events ! i) + 1"
    if "Suc i < length events" for i
  proof -
    have "(events ! i, events ! Suc i) \<in> set (zip events (tl events))"
      using that by (auto simp: in_set_zip nth_tl intro!: exI [of _ i])
    then show ?thesis
      using assms by (auto simp: check_contiguous_def result_simps checked_next_Some)
  qed
  have "ev_sequence (events ! i) = ev_sequence (events ! 0) + int i" if "i < length events" for i
    using that
  proof (induction i)
    case (Suc i)
    then show ?case
      using step [of i] by simp
  qed simp
  then show ?thesis
    by (cases events) (auto simp: contiguous_def)
qed

lemma contiguous_last:
  assumes "contiguous events" and "events \<noteq> []"
  shows "ev_sequence (last events) = ev_sequence (hd events) + int (length events) - 1"
proof -
  obtain n where n: "length events = Suc n"
    using assms(2) by (cases events) auto
  then show ?thesis
    using assms by (simp add: contiguous_def last_conv_nth)
qed

lemma contiguous_set:
  assumes "contiguous events" and "events \<noteq> []"
  shows "ev_sequence ` set events = {ev_sequence (hd events)..ev_sequence (last events)}"
proof -
  have "ev_sequence ` set events = (\<lambda>i. ev_sequence (hd events) + int i) ` {0..<length events}"
    using assms(1) by (force simp: contiguous_def set_conv_nth)
  also have "\<dots> = {ev_sequence (hd events)..<ev_sequence (hd events) + int (length events)}"
    by (simp only: image_image [symmetric, of "(+) (ev_sequence (hd events))" int]
        image_int_atLeastLessThan image_add_atLeastLessThan') (simp add: add.commute)
  finally show ?thesis
    using contiguous_last [OF assms] by (auto simp: atLeastLessThan_def)
qed

lemma contiguous_distinct: "contiguous events \<Longrightarrow> distinct (map ev_sequence events)"
  by (auto simp: contiguous_def distinct_conv_nth)

definition well_formed_events :: "entity_id \<Rightarrow> serialized_event list \<Rightarrow> bool" where
  "well_formed_events entity events \<longleftrightarrow>
    contiguous events \<and> (events \<noteq> [] \<longrightarrow> 1 \<le> ev_sequence (hd events))
    \<and> (\<forall>e \<in> set events. ev_entity_id e = entity \<and> ev_id e = for_event entity (ev_sequence e)
        \<and> ev_entity_type e = ev_entity_type (hd events))"

lemma check_entity_types_ok [result_simps]:
  "check_entity_types ty events = Inr u \<longleftrightarrow> (\<forall>e \<in> set events. ev_entity_type e = ty)"
  by (simp add: check_entity_types_def result_simps del: for_each.simps)

lemma check_event_ids_ok [result_simps]:
  "check_event_ids entity events = Inr u \<longleftrightarrow>
    (\<forall>e \<in> set events. ev_entity_id e = entity \<and> ev_id e = for_event (ev_entity_id e) (ev_sequence e))"
  by (simp add: check_event_ids_def result_simps del: for_each.simps)

lemma check_new_snapshot_ok [result_simps]:
  "check_new_snapshot ty snapshot = Inr u \<longleftrightarrow>
    (\<forall>s. snapshot = Some s \<longrightarrow> ns_entity_type s = ty \<and> 1 \<le> ns_sequence s)"
  by (cases snapshot) (simp_all add: check_new_snapshot_def result_simps)

text \<open>When a commit with events is valid.\<close>

lemma validate_Inr:
  assumes "cm_events c \<noteq> []"
  shows "validate j c = Inr () \<longleftrightarrow>
    (\<forall>o'. cm_outcome c = Some o' \<longrightarrow> check_outcome j o' = Inr ()
       \<and> check_commit_text (cm_events c) (snapshot_types c) [cm_entity_id c] = Inr ())
    \<and> check_entity_types (ev_entity_type (hd (cm_events c))) (cm_events c) = Inr ()
    \<and> check_new_snapshot (ev_entity_type (hd (cm_events c))) (cm_snapshot c) = Inr ()
    \<and> check_event_ids (cm_entity_id c) (cm_events c) = Inr ()
    \<and> 1 \<le> ev_sequence (hd (cm_events c)) \<and> check_contiguous (cm_events c) = Inr ()
    \<and> check_views (cm_views c) = Inr ()"
proof -
  obtain first rest where events: "cm_events c = first # rest"
    using assms by (cases "cm_events c") auto
  show ?thesis
    by (cases "cm_outcome c")
      (simp_all only: validate_def events list.case option.case list.sel and_then_Inr ensure_Inr
        option.distinct option.inject simp_thms and_then_simps old.unit.exhaust ex_simps ex_Inr_unit)
qed

lemma validate_events:
  assumes "validate j c = Inr ()"
  shows "well_formed_events (cm_entity_id c) (cm_events c)"
proof (cases "cm_events c = []")
  case False
  note checks = assms [unfolded validate_Inr [OF False] check_entity_types_ok check_event_ids_ok]
  have "contiguous (cm_events c)"
    using checks by (intro check_contiguous_ok) blast
  moreover have "ev_entity_id e = cm_entity_id c \<and> ev_id e = for_event (cm_entity_id c) (ev_sequence e)
      \<and> ev_entity_type e = ev_entity_type (hd (cm_events c))" if "e \<in> set (cm_events c)" for e
    using checks that by metis
  moreover have "1 \<le> ev_sequence (hd (cm_events c))"
    using checks by blast
  ultimately show ?thesis
    unfolding well_formed_events_def by blast
qed (simp add: well_formed_events_def contiguous_def)

lemma validate_views:
  assumes "validate j c = Inr ()"
  shows "check_views (cm_views c) = Inr ()"
proof (cases "cm_events c = []")
  case True
  then show ?thesis
    using assms by (simp add: validate_def result_simps check_views_ok split: if_splits)
qed (use assms in \<open>simp add: validate_Inr\<close>)

lemma validate_snapshot:
  assumes "validate j c = Inr ()" and "cm_events c \<noteq> []" and "cm_snapshot c = Some s"
  shows "1 \<le> ns_sequence s \<and> ns_entity_type s = ev_entity_type (hd (cm_events c))"
  using assms by (simp add: validate_Inr check_new_snapshot_ok)

section \<open>The normal form of a transaction\<close>

text \<open>One step of a loop that remembers the keys it has seen.\<close>

lemma seen_keys_step:
  "P x \<and> f x \<notin> set seen \<and> (\<forall>y \<in> set xs. P y \<and> f y \<notin> set (f x # seen)) \<and> distinct (map f xs) \<longleftrightarrow>
    (\<forall>y \<in> set (x # xs). P y \<and> f y \<notin> set seen) \<and> distinct (map f (x # xs))"
  by auto (metis imageI)

lemma check_streams_ok:
  "check_streams j seen streams = Inr () \<longleftrightarrow>
    (\<forall>s \<in> set streams. (validate j s = Inr () \<and> \<not> is_reserved (cm_entity_id s))
        \<and> cm_entity_id s \<notin> set seen)
    \<and> distinct (map cm_entity_id streams)"
proof (induction streams arbitrary: seen)
  case (Cons s streams)
  have "check_streams j seen (s # streams) = Inr () \<longleftrightarrow>
      (validate j s = Inr () \<and> \<not> is_reserved (cm_entity_id s)) \<and> cm_entity_id s \<notin> set seen
      \<and> check_streams j (cm_entity_id s # seen) streams = Inr ()"
    by (simp add: result_simps)
  then show ?case
    unfolding Cons.IH
    by (rule trans [OF _ seen_keys_step
          [of "\<lambda>s. validate j s = Inr () \<and> \<not> is_reserved (cm_entity_id s)" s cm_entity_id]])
qed simp

lemma check_fences_ok:
  "check_fences seen fences = Inr () \<longleftrightarrow>
    (\<forall>f \<in> set fences. (\<not> is_reserved (rf_entity_id f) \<and> 0 \<le> rf_head f \<and> checked_next (rf_head f) \<noteq> None)
        \<and> rf_entity_id f \<notin> set seen)
    \<and> distinct (map rf_entity_id fences)"
proof (induction fences arbitrary: seen)
  case (Cons f fences)
  have "check_fences seen (f # fences) = Inr () \<longleftrightarrow>
      (\<not> is_reserved (rf_entity_id f) \<and> 0 \<le> rf_head f \<and> checked_next (rf_head f) \<noteq> None)
      \<and> rf_entity_id f \<notin> set seen \<and> check_fences (rf_entity_id f # seen) fences = Inr ()"
    by (simp add: result_simps not_less)
  then show ?case
    unfolding Cons.IH
    by (rule trans [OF _ seen_keys_step
          [of "\<lambda>f. \<not> is_reserved (rf_entity_id f) \<and> 0 \<le> rf_head f \<and> checked_next (rf_head f) \<noteq> None"
             f rf_entity_id]])
qed simp

lemma map_insort_key: "map f (insort_key f x ys) = insort (f x) (map f ys)"
  by (induction ys) auto

lemma map_sort_key: "map f (sort_key f xs) = sort (map f xs)"
  by (induction xs) (simp_all add: map_insort_key)

lemma distinct_map_filter_mono: "distinct (map f xs) \<Longrightarrow> distinct (map f (filter P xs))"
  by (induction xs) auto

lemma distinct_map_sort_key: "distinct (map f (sort_key g xs)) \<longleftrightarrow> distinct (map f xs)"
  by (metis card_distinct distinct_card length_map length_sort set_map set_sort)

lemma normalize_Inr:
  "normalize j t = Inr t' \<longleftrightarrow>
    (case tc_outcome t of None \<Rightarrow> True
      | Some o' \<Rightarrow> check_outcome j o' = Inr () \<and>
          check_commit_text (concat (map cm_events (tc_streams t)))
            (map rf_entity_type (tc_fences t) @ concat (map snapshot_types (tc_streams t)))
            (map rf_entity_id (tc_fences t) @ map cm_entity_id (tc_streams t)) = Inr ())
    \<and> check_streams j [] (tc_streams t) = Inr () \<and> check_fences [] (tc_fences t) = Inr ()
    \<and> (\<forall>s \<in> set (tc_streams t). cm_snapshot s = None \<or> cm_events s \<noteq> [])
    \<and> (carried t = 0 \<or> (\<exists>s \<in> set (tc_streams t). cm_events s \<noteq> []))
    \<and> check_views (tc_views (normal_form t)) = Inr () \<and> t' = normal_form t"
  by (cases "tc_outcome t")
    (simp_all add: normalize_def result_simps not_less eq_commute [of "normal_form t"] del: for_each.simps)

abbreviation strip_stream :: "'op commit \<Rightarrow> 'op commit" where
  "strip_stream s \<equiv> s\<lparr>cm_operations := [], cm_views := []\<rparr>"

lemma has_events_strip [simp]: "has_events (strip_stream s) \<longleftrightarrow> has_events s"
  by (simp add: has_events_def)

lemma normal_form_streams:
  "tc_streams (normal_form t) = sort_key cm_entity_id (map strip_stream (filter has_events (tc_streams t)))"
  by (simp add: normal_form_def Let_def)

lemma normal_form_stream:
  assumes "s \<in> set (tc_streams (normal_form t))"
  obtains s0 where "s0 \<in> set (tc_streams t)" "cm_events s0 \<noteq> []" "s = strip_stream s0"
  using assms by (auto simp: normal_form_streams has_events_def)

lemma normal_form_fences:
  "tc_fences (normal_form t) = filter (\<lambda>f. rf_entity_id f \<notin> cm_entity_id ` set (tc_streams (normal_form t)))
     (sort_key rf_entity_id (tc_fences t))"
  by (simp add: normal_form_def Let_def image_image)

lemma normal_form_rest [simp]:
  "tc_outcome (normal_form t) = tc_outcome t"
  by (simp add: normal_form_def Let_def)

lemma normal_form_ids:
  "map cm_entity_id (tc_streams (normal_form t)) = sort (map cm_entity_id (filter has_events (tc_streams t)))"
  by (simp add: normal_form_streams map_sort_key comp_def)

text \<open>Normalizing twice changes nothing.\<close>

lemma normal_form_idem: "normal_form (normal_form t) = normal_form t"
proof -
  let ?n = "normal_form t"
  have written: "filter has_events (tc_streams ?n) = tc_streams ?n"
    by (auto simp: normal_form_streams intro!: filter_True)
  have strip: "map strip_stream (tc_streams ?n) = tc_streams ?n"
    by (rule map_idI) (auto elim!: normal_form_stream)
  have sorted: "sort_key cm_entity_id (tc_streams ?n) = tc_streams ?n"
    by (rule sort_key_id_if_sorted) (simp add: normal_form_streams)
  have streams: "tc_streams (normal_form ?n) = tc_streams ?n"
    unfolding normal_form_streams [of ?n] written strip sorted ..
  have "sort_key rf_entity_id (tc_fences ?n) = tc_fences ?n"
    by (rule sort_key_id_if_sorted) (simp add: normal_form_fences sorted_filter)
  then have fences: "tc_fences (normal_form ?n) = tc_fences ?n"
    unfolding normal_form_fences [of ?n] streams
    by (simp add: normal_form_fences [of t] conj_commute)
  have none: "cm_operations s = [] \<and> cm_views s = []" if "s \<in> set (tc_streams ?n)" for s
    using that by (auto elim!: normal_form_stream)
  then have "concat (map cm_operations (tc_streams ?n)) = []" "concat (map cm_views (tc_streams ?n)) = []"
    by auto
  then have "tc_operations (normal_form ?n) = tc_operations ?n" "tc_views (normal_form ?n) = tc_views ?n"
    by (simp_all add: normal_form_def [of ?n] Let_def written)
  with streams fences show ?thesis
    by (intro transaction_commit.equality) simp_all
qed

lemma check_commit_text_ok [result_simps]:
  "check_commit_text events types ids = Inr u \<longleftrightarrow>
    (\<forall>e \<in> set events. check_event_text e = Inr ()) \<and> (\<forall>ty \<in> set types. \<not> has_nul ty)
    \<and> (\<forall>i \<in> set ids. \<not> has_nul i)"
  by (simp add: check_commit_text_def check_text_def result_simps del: for_each.simps)

lemma validate_strip:
  assumes "validate j s = Inr ()" and "cm_events s \<noteq> []"
  shows "validate j (strip_stream s) = Inr ()"
  using assms by (simp add: validate_Inr check_views_ok snapshot_types_def)

text \<open>What holds of a normalized transaction.\<close>

lemma normalize_streams:
  assumes "normalize j t = Inr t'"
  shows "sorted (map cm_entity_id (tc_streams t'))" and "distinct (map cm_entity_id (tc_streams t'))"
    and "\<And>s. s \<in> set (tc_streams t') \<Longrightarrow>
      cm_events s \<noteq> [] \<and> validate j s = Inr () \<and> \<not> is_reserved (cm_entity_id s)"
proof -
  have t': "t' = normal_form t" and streams: "check_streams j [] (tc_streams t) = Inr ()"
    using assms by (simp_all add: normalize_Inr)
  show "sorted (map cm_entity_id (tc_streams t'))"
    by (simp add: t' normal_form_ids)
  show "distinct (map cm_entity_id (tc_streams t'))"
    using streams by (simp add: t' normal_form_ids check_streams_ok distinct_map_filter_mono)
  fix s
  assume "s \<in> set (tc_streams t')"
  then obtain s0 where s0: "s0 \<in> set (tc_streams t)" "cm_events s0 \<noteq> []" "s = strip_stream s0"
    unfolding t' by (rule normal_form_stream)
  then have "validate j s0 = Inr ()" "\<not> is_reserved (cm_entity_id s0)"
    using streams by (auto simp: check_streams_ok)
  then show "cm_events s \<noteq> [] \<and> validate j s = Inr () \<and> \<not> is_reserved (cm_entity_id s)"
    using s0 validate_strip [of j s0] by simp
qed

lemma normalize_fences:
  assumes "normalize j t = Inr t'"
  shows "sorted (map rf_entity_id (tc_fences t'))" and "distinct (map rf_entity_id (tc_fences t'))"
    and "\<And>f. f \<in> set (tc_fences t') \<Longrightarrow>
      f \<in> set (tc_fences t) \<and> 0 \<le> rf_head f \<and> checked_next (rf_head f) \<noteq> None
      \<and> \<not> is_reserved (rf_entity_id f) \<and> rf_entity_id f \<notin> cm_entity_id ` set (tc_streams t')"
proof -
  have t': "t' = normal_form t" and fences: "check_fences [] (tc_fences t) = Inr ()"
    using assms by (simp_all add: normalize_Inr)
  show "sorted (map rf_entity_id (tc_fences t'))"
    by (simp add: t' normal_form_fences sorted_filter)
  show "distinct (map rf_entity_id (tc_fences t'))"
    using fences
    by (simp add: t' normal_form_fences check_fences_ok distinct_map_filter_mono distinct_map_sort_key)
  fix f
  assume "f \<in> set (tc_fences t')"
  then show "f \<in> set (tc_fences t) \<and> 0 \<le> rf_head f \<and> checked_next (rf_head f) \<noteq> None
      \<and> \<not> is_reserved (rf_entity_id f) \<and> rf_entity_id f \<notin> cm_entity_id ` set (tc_streams t')"
    using fences unfolding t' normal_form_fences check_fences_ok by auto
qed

lemma normalize_views: "normalize j t = Inr t' \<Longrightarrow> check_views (tc_views t') = Inr ()"
  by (simp add: normalize_Inr)

lemma normalize_again:
  assumes "normalize j t = Inr t'"
  shows "normalize j t' = Inr t'"
proof -
  have t': "t' = normal_form t" and outcome: "\<And>o'. tc_outcome t = Some o' \<Longrightarrow> check_outcome j o' = Inr () \<and>
      check_commit_text (concat (map cm_events (tc_streams t)))
        (map rf_entity_type (tc_fences t) @ concat (map snapshot_types (tc_streams t)))
        (map rf_entity_id (tc_fences t) @ map cm_entity_id (tc_streams t)) = Inr ()"
    using assms by (simp_all add: normalize_Inr)
  note streams = normalize_streams [OF assms] and fences = normalize_fences [OF assms]
  have "check_commit_text (concat (map cm_events (tc_streams t')))
        (map rf_entity_type (tc_fences t') @ concat (map snapshot_types (tc_streams t')))
        (map rf_entity_id (tc_fences t') @ map cm_entity_id (tc_streams t')) = Inr ()"
    if o': "tc_outcome t = Some o'" for o'
  proof -
    have orig: "\<exists>s0 \<in> set (tc_streams t). cm_events s = cm_events s0 \<and> cm_entity_id s = cm_entity_id s0
        \<and> snapshot_types s = snapshot_types s0" if s: "s \<in> set (tc_streams t')" for s
    proof -
      obtain s0 where "s0 \<in> set (tc_streams t)" "s = strip_stream s0"
        using s unfolding t' by (blast elim: normal_form_stream)
      then show ?thesis
        by (intro bexI [of _ s0]) (simp_all add: snapshot_types_def)
    qed
    have "set (concat (map cm_events (tc_streams t'))) \<subseteq> set (concat (map cm_events (tc_streams t)))"
      using orig by auto metis
    moreover have "set (map rf_entity_type (tc_fences t') @ concat (map snapshot_types (tc_streams t')))
      \<subseteq> set (map rf_entity_type (tc_fences t) @ concat (map snapshot_types (tc_streams t)))"
      using orig fences(3) by auto metis
    moreover have "set (map rf_entity_id (tc_fences t') @ map cm_entity_id (tc_streams t'))
      \<subseteq> set (map rf_entity_id (tc_fences t) @ map cm_entity_id (tc_streams t))"
      using orig fences(3) by (auto simp: image_iff) metis+
    ultimately show ?thesis
      using outcome [OF o'] unfolding check_commit_text_ok by blast
  qed
  moreover have "check_streams j [] (tc_streams t') = Inr ()" "check_fences [] (tc_fences t') = Inr ()"
    using streams fences by (simp_all add: check_streams_ok check_fences_ok)
  moreover have "carried t' = 0 \<or> (\<exists>s \<in> set (tc_streams t'). cm_events s \<noteq> [])"
  proof (cases "\<exists>s \<in> set (tc_streams t). cm_events s \<noteq> []")
    case True
    then show ?thesis
      by (auto simp: t' normal_form_streams has_events_def)
  next
    case False
    then have "carried t = 0" "filter has_events (tc_streams t) = []"
      using assms by (auto simp: normalize_Inr has_events_def filter_empty_conv)
    then show ?thesis
      by (simp add: t' carried_def normal_form_def Let_def)
  qed
  ultimately show ?thesis
    unfolding normalize_Inr using streams(3) outcome normalize_views [OF assms] normal_form_idem [of t]
    by (auto simp: t' split: option.splits)
qed

text \<open>The receipt of a transaction lists the events in the order the normalized transaction persists
  them.\<close>

lemma map_sort_key_strip:
  "map cm_events (sort_key cm_entity_id (map strip_stream xs)) = map cm_events (sort_key cm_entity_id xs)"
proof -
  have "map strip_stream (insort_key cm_entity_id x ys) = insort_key cm_entity_id (strip_stream x) (map strip_stream ys)"
    for x and ys :: "'a commit list"
    by (induction ys) auto
  then have "sort_key cm_entity_id (map strip_stream xs) = map strip_stream (sort_key cm_entity_id xs)"
    by (induction xs) simp_all
  then show ?thesis
    by (simp add: comp_def)
qed

lemma receipt_of_normalized:
  assumes "normalize j t = Inr t'"
  shows "receipt_of_transaction t = concat (map cm_events (tc_streams t'))"
  using assms by (simp add: normalize_Inr receipt_of_transaction_def normal_form_streams map_sort_key_strip)

text \<open>A commit takes a snapshot exactly when it reaches or crosses a multiple of the interval.\<close>

lemma snapshot_events_due_crosses:
  assumes "0 < interval"
  shows "snapshot_events_due current events interval =
    (if current div int interval < (current + int events) div int interval then events else 0)"
proof -
  let ?i = "int interval"
  have pos: "0 < ?i"
    using assms by simp
  have "events < interval - nat (current mod ?i) \<longleftrightarrow> current mod ?i + int events < ?i"
    using pos_mod_bound [OF pos, of current] pos_mod_sign [OF pos, of current] by linarith
  also have "\<dots> \<longleftrightarrow> (current + int events) div ?i \<le> current div ?i"
  proof -
    have "(current mod ?i + int events + current div ?i * ?i) div ?i
        = current div ?i + (current mod ?i + int events) div ?i"
      by (rule div_mult_self1) (use pos in simp)
    moreover have "current mod ?i + int events + current div ?i * ?i = current + int events"
      by simp
    ultimately have "(current + int events) div ?i = current div ?i + (current mod ?i + int events) div ?i"
      by simp
    moreover have "0 < (current mod ?i + int events) div ?i \<longleftrightarrow> ?i \<le> current mod ?i + int events"
      by (rule pos_imp_zdiv_pos_iff [OF pos])
    ultimately show ?thesis
      by linarith
  qed
  finally show ?thesis
    using assms by (simp add: snapshot_events_due_def Let_def not_le)
qed

end
