(* ===== verification/Mem_Repository.thy ===== *)
theory Mem_Repository
  imports Repository
begin

text \<open>
  The in-memory repository (\<open>mem.rs\<close>). Clones share one store and keep their own feature-marker cache,
  so an operation takes the handle it runs on and the shared store, and returns its result with both
  as it leaves them. Every operation holds the locks of what it touches from its first check to its
  last write, so operations of different handles interleave whole. Times are the clock readings in
  Unix seconds the operation makes. \<open>MemRepository::Operation\<close> has no values, so a commit's backend
  operations are never looked at.
\<close>

section \<open>State\<close>

record mem_stream =
  ms_events :: "(event_sequence, serialized_event) btree"
  ms_snapshot :: "serialized_snapshot option"
  ms_head :: event_sequence

definition absent_stream :: mem_stream where
  "absent_stream = \<lparr>ms_events = bt_empty, ms_snapshot = None, ms_head = 0\<rparr>"

record mem_store =
  mr_streams :: "(entity_id, mem_stream) btree"
  mr_views :: "(string \<times> string, view_row) btree"
  mr_outcomes :: "(command_id, outcome) btree"
  mr_manifest :: "feature_manifest option"
  mr_rebuild :: rebuild_state

record mem_handle =
  mh_validated :: "validated_marker option"
  mh_journaling :: bool

definition new_store :: mem_store where
  "new_store =
    \<lparr>mr_streams = bt_empty, mr_views = bt_empty, mr_outcomes = bt_empty, mr_manifest = None,
     mr_rebuild = default_rebuild_state\<rparr>"

definition new_handle :: mem_handle where
  "new_handle = \<lparr>mh_validated = None, mh_journaling = False\<rparr>"

definition stream_entity_type :: "mem_stream \<Rightarrow> entity_type option" where
  "stream_entity_type s =
    (case bt_values (ms_events s) of e # _ \<Rightarrow> Some (ev_entity_type e)
     | [] \<Rightarrow> map_option sn_entity_type (ms_snapshot s))"

definition derived_head :: "mem_stream \<Rightarrow> event_sequence" where
  "derived_head s =
    max (case bt_last_key (ms_events s) of None \<Rightarrow> 0 | Some k \<Rightarrow> k)
        (case ms_snapshot s of None \<Rightarrow> 0 | Some sn \<Rightarrow> sn_event_sequence sn)"

definition holds_data :: "mem_stream \<Rightarrow> bool" where
  "holds_data s \<longleftrightarrow> ms_events s \<noteq> [] \<or> ms_snapshot s \<noteq> None"

definition stream_probe :: "mem_stream \<Rightarrow> entity_id \<Rightarrow> (event_sequence \<Rightarrow> error) \<Rightarrow> error" where
  "stream_probe s entity healthy =
    (let stored = ms_head s; derived = derived_head s;
         verdict = (case probe_first stored derived of
                      Ahead \<Rightarrow> after_rederive stored (derived_head s) | other \<Rightarrow> other)
     in if verdict = Settled \<and> stored = derived then healthy stored
        else drift entity stored derived)"

definition stream_of :: "mem_store \<Rightarrow> entity_id \<Rightarrow> mem_stream" where
  "stream_of s entity =
    (case bt_get (mr_streams s) entity of Some st \<Rightarrow> st | None \<Rightarrow> absent_stream)"

section \<open>Views\<close>

definition view_held :: "view_row option \<Rightarrow> view_operation \<Rightarrow> bool" where
  "view_held stored op \<longleftrightarrow>
    (let owned = (case stored of None \<Rightarrow> True | Some row \<Rightarrow> vr_entity_id row = vo_owner op)
     in (case vo_condition op of
           CondNone \<Rightarrow> owned
         | CondAbsent \<Rightarrow> stored = None
         | CondPresent \<Rightarrow> stored \<noteq> None \<and> owned)
        \<and> (case vo_expected_payload op of None \<Rightarrow> True
           | Some expected \<Rightarrow>
              (case stored of None \<Rightarrow> False | Some row \<Rightarrow> owned \<and> vr_payload row = expected)))"

definition check_view_conditions ::
  "(string \<times> string, view_row) btree \<Rightarrow> projected_view list \<Rightarrow> error + unit" where
  "check_view_conditions rows views =
    for_each (\<lambda>v. ensure (view_held (bt_get rows (view_key v)) (pv_op v))
      (ProjectorOperation (condition_failed v))) views"

definition apply_view ::
  "projected_view \<Rightarrow> (string \<times> string, view_row) btree \<Rightarrow> (string \<times> string, view_row) btree" where
  "apply_view v rows =
    (case vo_kind (pv_op v) of
       Put \<Rightarrow> bt_insert (view_key v) (view_row_of (pv_op v)) rows
     | Delete \<Rightarrow> bt_remove (view_key v) rows)"

definition apply_views ::
  "(string \<times> string, view_row) btree \<Rightarrow> projected_view list \<Rightarrow> (string \<times> string, view_row) btree" where
  "apply_views rows views = fold apply_view views rows"

section \<open>Writing a commit\<close>

definition next_version :: "feature_manifest option \<Rightarrow> int" where
  "next_version stored = (case stored of None \<Rightarrow> 1 | Some m \<Rightarrow> fm_version m + 1)"

definition declared_heads :: "feature_manifest option \<Rightarrow> feature_manifest" where
  "declared_heads stored =
    (declare_stream_heads (case stored of None \<Rightarrow> default_manifest | Some m \<Rightarrow> m))
      \<lparr>fm_version := next_version stored\<rparr>"

definition no_stream_data :: "mem_store \<Rightarrow> bool" where
  "no_stream_data s \<longleftrightarrow> \<not> (\<exists>st \<in> set (bt_values (mr_streams s)). holds_data st)"

definition check_manifest :: "mem_handle \<Rightarrow> mem_store \<Rightarrow> (error + unit) \<times> mem_handle \<times> mem_store" where
  "check_manifest h s =
    (if marker_matches (mh_validated h) (mr_manifest s) then (Inr (), h, s)
     else case validate_marker_for_write (mr_manifest s) (mh_journaling h) of
       Inr marker \<Rightarrow> (Inr (), h\<lparr>mh_validated := Some marker\<rparr>, s)
     | Inl e \<Rightarrow>
         if e = StreamHeadsNotMigrated \<and> no_stream_data s then
           (let next = declared_heads (mr_manifest s)
            in (Inr (), h\<lparr>mh_validated := Some (Version (fm_version next))\<rparr>,
                s\<lparr>mr_manifest := Some next\<rparr>))
         else (Inl e, h, s))"

text \<open>What fails for one written stream, if anything does.\<close>

definition stream_failure :: "mem_stream \<Rightarrow> 'op commit \<Rightarrow> error option" where
  "stream_failure held c =
    (let first = ev_sequence (hd (cm_events c));
         head_passes = (if first \<le> 1 then ms_head held = 0 else ms_head held = first - 1);
         events_pass = (\<forall>e \<in> set (cm_events c). \<not> bt_contains (ms_events held) (ev_sequence e))
     in if \<not> head_passes then
          Some (stream_probe held (cm_entity_id c) (gap_or_conflict (cm_entity_id c) first))
        else if \<not> events_pass then
          Some (drift (cm_entity_id c) (ms_head held) (derived_head held))
        else case cm_snapshot c of None \<Rightarrow> None
        | Some new \<Rightarrow>
            (let stored_sequence = (case ms_snapshot held of None \<Rightarrow> 0 | Some existing \<Rightarrow> sn_sequence existing)
             in if next_sequence stored_sequence \<noteq> ns_sequence new then
                  Some (Conflict (cm_entity_id c)
                    (Msg ''snapshot sequence moved: stored {stored_sequence}, commit writes {}''
                       [AI stored_sequence, AI (ns_sequence new)]))
                else None))"

definition fence_failure :: "mem_stream \<Rightarrow> read_fence \<Rightarrow> error option" where
  "fence_failure held f =
    (if ms_head held \<noteq> rf_head f
     then Some (stream_probe held (rf_entity_id f) (\<lambda>_. fence_conflict f)) else None)"

definition write_failures :: "mem_store \<Rightarrow> 'op commit list \<Rightarrow> read_fence list \<Rightarrow> error list" where
  "write_failures s streams fences =
    List.map_filter (\<lambda>c. stream_failure (stream_of s (cm_entity_id c)) c) (filter has_events streams)
    @ List.map_filter (\<lambda>f.
        if \<exists>c \<in> set streams. has_events c \<and> cm_entity_id c = rf_entity_id f then None
        else fence_failure (stream_of s (rf_entity_id f)) f) fences"

definition append_events :: "'op commit \<Rightarrow> mem_stream \<Rightarrow> mem_stream" where
  "append_events c held =
    (let final = ev_sequence (last (cm_events c))
     in held\<lparr>ms_events := fold (\<lambda>e. bt_insert (ev_sequence e) e) (cm_events c) (ms_events held),
             ms_head := max (ms_head held) final,
             ms_snapshot := (case cm_snapshot c of None \<Rightarrow> ms_snapshot held
               | Some new \<Rightarrow> Some (written_snapshot (cm_entity_id c) final new))\<rparr>)"

definition append_stream :: "'op commit \<Rightarrow> (entity_id, mem_stream) btree \<Rightarrow> (entity_id, mem_stream) btree" where
  "append_stream c = bt_update (cm_entity_id c) absent_stream (append_events c)"

definition write_checks ::
  "mem_store \<Rightarrow> 'op commit list \<Rightarrow> read_fence list \<Rightarrow> projected_view list \<Rightarrow> outcome option
    \<Rightarrow> (feature_manifest option \<Rightarrow> error + unit) \<Rightarrow> error + unit" where
  "write_checks s streams fences views outcome retention =
    and_then (retention (mr_manifest s)) (\<lambda>_.
    and_then (ensure (rs_lock (mr_rebuild s) = None \<and> is_settled (rs_generation (mr_rebuild s)))
      RebuildInProgress) (\<lambda>_.
    and_then (case outcome of None \<Rightarrow> Inr ()
      | Some o' \<Rightarrow> ensure (\<not> bt_contains (mr_outcomes s) (oc_command_id o'))
                    (OutcomeConflict (oc_command_id o'))) (\<lambda>_.
    (case rank (write_failures s streams fences) of
       Some e \<Rightarrow> Inl e
     | None \<Rightarrow> check_view_conditions (mr_views s) views))))"

definition write_apply ::
  "mem_store \<Rightarrow> 'op commit list \<Rightarrow> projected_view list \<Rightarrow> outcome option \<Rightarrow> mem_store" where
  "write_apply s streams views outcome =
    s\<lparr>mr_streams := fold append_stream (filter has_events streams) (mr_streams s),
      mr_views := apply_views (mr_views s) views,
      mr_outcomes := (case outcome of None \<Rightarrow> mr_outcomes s
        | Some o' \<Rightarrow> bt_insert (oc_command_id o') o' (mr_outcomes s))\<rparr>"

definition mem_write ::
  "'op commit list \<Rightarrow> read_fence list \<Rightarrow> projected_view list \<Rightarrow> outcome option
    \<Rightarrow> (feature_manifest option \<Rightarrow> error + unit) \<Rightarrow> mem_handle \<Rightarrow> mem_store
    \<Rightarrow> (error + unit) \<times> mem_handle \<times> mem_store" where
  "mem_write streams fences views outcome retention h s =
    (case check_manifest h s of
       (Inl e, h', s') \<Rightarrow> (Inl e, h', s')
     | (Inr _, h', s') \<Rightarrow>
         (case write_checks s' streams fences views outcome retention of
            Inl e \<Rightarrow> (Inl e, h', s')
          | Inr _ \<Rightarrow> (Inr (), h', write_apply s' streams views outcome)))"

definition mem_commit ::
  "json_codec \<Rightarrow> 'op commit \<Rightarrow> mem_handle \<Rightarrow> mem_store \<Rightarrow> (error + unit) \<times> mem_handle \<times> mem_store" where
  "mem_commit j c h s =
    (case and_then (validate j c) (\<lambda>_. check_not_reserved (cm_entity_id c)) of
       Inl e \<Rightarrow> (Inl e, h, s)
     | Inr _ \<Rightarrow>
         if cm_events c = [] \<and> cm_outcome c = None then (Inr (), h, s)
         else case and_then (commit_sizes j (\<lambda>_. None) c) (\<lambda>sizes.
                  check_budget (sizes @ view_sizes (cm_views c))) of
             Inl e \<Rightarrow> (Inl e, h, s)
           | Inr _ \<Rightarrow> mem_write [c] [] (cm_views c) (stored_outcome c) (\<lambda>_. Inr ()) h s)"

definition mem_commit_transaction ::
  "json_codec \<Rightarrow> 'op transaction_commit \<Rightarrow> mem_handle \<Rightarrow> mem_store
    \<Rightarrow> (error + unit) \<times> mem_handle \<times> mem_store" where
  "mem_commit_transaction j t h s =
    (case normalize j t of
       Inl e \<Rightarrow> (Inl e, h, s)
     | Inr t' \<Rightarrow>
         if transaction_is_empty t' then (Inr (), h, s)
         else case and_then (transaction_sizes j (\<lambda>_. None) t') (\<lambda>sizes.
                  check_budget (sizes @ view_sizes (tc_views t'))) of
             Inl e \<Rightarrow> (Inl e, h, s)
           | Inr _ \<Rightarrow> mem_write (tc_streams t') (tc_fences t') (tc_views t')
                       (transaction_stored_outcome t')
                       (\<lambda>m. check_retention t' m (\<lambda>_. False)) h s)"

section \<open>Reads\<close>

definition mem_view :: "mem_store \<Rightarrow> string \<Rightarrow> string \<Rightarrow> view_row option" where
  "mem_view s pk sk = bt_get (mr_views s) (pk, sk)"

definition mem_views :: "mem_store \<Rightarrow> view_row list" where
  "mem_views s = bt_values (mr_views s)"

definition mem_outcome :: "mem_store \<Rightarrow> command_id \<Rightarrow> error + outcome option" where
  "mem_outcome s command =
    and_then (check_command_id command) (\<lambda>_. Inr (bt_get (mr_outcomes s) command))"

definition mem_events_after :: "mem_store \<Rightarrow> entity_id \<Rightarrow> event_sequence \<Rightarrow> serialized_event list" where
  "mem_events_after s entity after =
    (case bt_get (mr_streams s) entity of None \<Rightarrow> []
     | Some st \<Rightarrow> map snd (filter (\<lambda>(k, _). after < k) (ms_events st)))"

definition mem_events :: "mem_store \<Rightarrow> entity_id \<Rightarrow> serialized_event list" where
  "mem_events s entity = mem_events_after s entity 0"

definition mem_latest :: "mem_store \<Rightarrow> entity_id \<Rightarrow> nat \<Rightarrow> error + serialized_event list" where
  "mem_latest s entity n =
    (if n = 0
     then Inl (InvalidArgument (Msg ''latest(n) requires at least one event: got n = 0'' []))
     else Inr (case bt_get (mr_streams s) entity of None \<Rightarrow> []
               | Some st \<Rightarrow> take n (rev (bt_values (ms_events st)))))"

definition mem_snapshot :: "mem_store \<Rightarrow> entity_id \<Rightarrow> serialized_snapshot option" where
  "mem_snapshot s entity =
    (case bt_get (mr_streams s) entity of None \<Rightarrow> None | Some st \<Rightarrow> ms_snapshot st)"

definition mem_entity_heads :: "mem_store \<Rightarrow> entity_type option \<Rightarrow> (entity_id, event_sequence) btree" where
  "mem_entity_heads s entity_type =
    filter (\<lambda>(_, head). 0 < head)
      (map (\<lambda>(entity, st). (entity, derived_head st))
        (filter (\<lambda>(entity, st). \<not> is_reserved entity
            \<and> (case entity_type of None \<Rightarrow> True | Some wanted \<Rightarrow> stream_entity_type st = Some wanted))
          (mr_streams s)))"

section \<open>Snapshots and compaction\<close>

definition mem_put_snapshot ::
  "serialized_snapshot \<Rightarrow> mem_handle \<Rightarrow> mem_store \<Rightarrow> (error + bool) \<times> mem_handle \<times> mem_store" where
  "mem_put_snapshot sn h s =
    (case check_not_reserved (sn_entity_id sn) of
       Inl e \<Rightarrow> (Inl e, h, s)
     | Inr _ \<Rightarrow>
        (case check_manifest h s of
           (Inl e, h', s') \<Rightarrow> (Inl e, h', s')
         | (Inr _, h', s') \<Rightarrow>
            (let held = stream_of s' (sn_entity_id sn)
             in if 0 < sn_event_sequence sn \<and> ms_head held < sn_event_sequence sn then
                  (Inl (drift (sn_entity_id sn) (ms_head held)
                     (max (derived_head held) (sn_event_sequence sn))), h', s')
                else if (case ms_snapshot held of None \<Rightarrow> False
                         | Some existing \<Rightarrow> sn_event_sequence sn < sn_event_sequence existing) then
                  (Inr False, h', s')
                else
                  (Inr True, h', s'\<lparr>mr_streams :=
                     bt_update (sn_entity_id sn) absent_stream (\<lambda>st. st\<lparr>ms_snapshot := Some sn\<rparr>)
                       (mr_streams s')\<rparr>))))"

definition compact_stream :: "event_sequence \<Rightarrow> mem_stream \<Rightarrow> mem_stream" where
  "compact_stream through st = st\<lparr>ms_events := bt_retain (\<lambda>k _. through < k) (ms_events st)\<rparr>"

definition history_dependent_stream :: "feature_manifest option \<Rightarrow> mem_stream \<Rightarrow> entity_type option" where
  "history_dependent_stream manifest st =
    (case (manifest, stream_entity_type st) of
       (Some m, Some ty) \<Rightarrow> if is_history_dependent m ty then Some ty else None
     | _ \<Rightarrow> None)"

definition mem_compact_below ::
  "entity_id \<Rightarrow> event_sequence \<Rightarrow> mem_handle \<Rightarrow> mem_store \<Rightarrow> (error + nat) \<times> mem_store" where
  "mem_compact_below entity through h s =
    (case check_not_reserved entity of
       Inl e \<Rightarrow> (Inl e, s)
     | Inr _ \<Rightarrow>
        if through < 1 then (Inr 0, s)
        else case validate_marker_for_write (mr_manifest s) (mh_journaling h) of
          Inl e \<Rightarrow> (Inl e, s)
        | Inr _ \<Rightarrow>
          (case bt_get (mr_streams s) entity of
             None \<Rightarrow> (Inl (CompactionUncovered entity through None), s)
           | Some st \<Rightarrow>
              (let covered = map_option sn_event_sequence (ms_snapshot st)
               in if (case covered of None \<Rightarrow> True | Some c \<Rightarrow> c < through) then
                    (Inl (CompactionUncovered entity through covered), s)
                  else case history_dependent_stream (mr_manifest s) st of
                    Some ty \<Rightarrow> (Inl (HistoryDependentProjection ty entity), s)
                  | None \<Rightarrow>
                      (Inr (length (ms_events st) - length (ms_events (compact_stream through st))),
                       s\<lparr>mr_streams := bt_insert entity (compact_stream through st) (mr_streams s)\<rparr>))))"

section \<open>The feature marker\<close>

definition mem_update_manifest ::
  "(feature_manifest \<Rightarrow> feature_manifest) \<Rightarrow> mem_handle \<Rightarrow> mem_store \<Rightarrow> (error + unit) \<times> mem_handle \<times> mem_store" where
  "mem_update_manifest change h s =
    (let next = (change (case mr_manifest s of None \<Rightarrow> default_manifest | Some m \<Rightarrow> m))
                  \<lparr>fm_version := next_version (mr_manifest s)\<rparr>
     in (Inr (), h\<lparr>mh_validated := None\<rparr>, s\<lparr>mr_manifest := Some next\<rparr>))"

definition mem_declare_history_dependent ::
  "entity_type list \<Rightarrow> mem_handle \<Rightarrow> mem_store \<Rightarrow> (error + unit) \<times> mem_handle \<times> mem_store" where
  "mem_declare_history_dependent types h s =
    (let missing = missing_history (mr_manifest s) types
     in if missing = [] then (Inr (), h, s) else mem_update_manifest (extend_history missing) h s)"

definition mem_initialize :: "mem_handle \<Rightarrow> mem_store \<Rightarrow> (error + bool) \<times> mem_handle \<times> mem_store" where
  "mem_initialize h s =
    (case (case mr_manifest s of None \<Rightarrow> Inr True
           | Some m \<Rightarrow> and_then (validate_supported m) (\<lambda>_. Inr (\<not> declares_stream_heads m))) of
       Inl e \<Rightarrow> (Inl e, h, s)
     | Inr False \<Rightarrow> (Inr False, h, s)
     | Inr True \<Rightarrow>
         if \<not> no_stream_data s then (Inl StreamHeadsNotMigrated, h, s)
         else (Inr True, h\<lparr>mh_validated := None\<rparr>,
               s\<lparr>mr_manifest := Some (declared_heads (mr_manifest s))\<rparr>))"

definition mem_accept_journal :: "mem_handle \<Rightarrow> mem_handle" where
  "mem_accept_journal h = h\<lparr>mh_journaling := True\<rparr>"

section \<open>The rebuild fence\<close>

definition lease_lost :: "string \<Rightarrow> error" where
  "lease_lost owner = RebuildLeaseLost owner"

definition mem_begin_rebuild ::
  "int \<Rightarrow> string \<Rightarrow> duration \<Rightarrow> mem_store \<Rightarrow> (error + rebuild_lease) \<times> mem_store" where
  "mem_begin_rebuild now owner lease s =
    (case and_then (check_lease owner lease) (\<lambda>seconds.
          and_then (decide (mr_rebuild s) now) (\<lambda>plan. Inr (seconds, plan))) of
       Inl e \<Rightarrow> (Inl e, s)
     | Inr (seconds, plan) \<Rightarrow>
        (let expires = saturating_add now seconds;
             state = mr_rebuild s;
             g = (rs_generation state)\<lparr>rg_value := rg_value (rs_generation state) + pl_increment plan\<rparr>
         in (Inr \<lparr>le_owner = owner, le_generation = rg_value g, le_lease_expires_at = expires\<rparr>,
             s\<lparr>mr_rebuild := state\<lparr>rs_generation := g,
                 rs_lock := Some \<lparr>lk_owner = owner, lk_generation = rg_value g,
                                   lk_lease_expires_at = expires\<rparr>\<rparr>\<rparr>)))"

definition mem_renew_rebuild ::
  "int \<Rightarrow> rebuild_lease \<Rightarrow> duration \<Rightarrow> mem_store \<Rightarrow> (error + rebuild_lease) \<times> mem_store" where
  "mem_renew_rebuild now lease period s =
    (case check_lease (le_owner lease) period of
       Inl e \<Rightarrow> (Inl e, s)
     | Inr seconds \<Rightarrow>
        (let expires = saturating_add now seconds
         in case rs_lock (mr_rebuild s) of
              None \<Rightarrow> (Inl (lease_lost (le_owner lease)), s)
            | Some lock \<Rightarrow>
                if lease_holds lease lock
                then (Inr (lease\<lparr>le_lease_expires_at := expires\<rparr>),
                      s\<lparr>mr_rebuild := (mr_rebuild s)\<lparr>rs_lock := Some (lock\<lparr>lk_lease_expires_at := expires\<rparr>)\<rparr>\<rparr>)
                else (Inl (lease_lost (le_owner lease)), s)))"

definition mem_release ::
  "string \<Rightarrow> (rebuild_lock \<Rightarrow> bool) \<Rightarrow> int \<Rightarrow> bool \<Rightarrow> mem_store \<Rightarrow> (error + rebuild_generation) \<times> mem_store" where
  "mem_release owner held increment force_released s =
    (if \<not> (case rs_lock (mr_rebuild s) of None \<Rightarrow> False | Some lock \<Rightarrow> held lock)
     then (Inl (lease_lost owner), s)
     else let g = \<lparr>rg_value = rg_value (rs_generation (mr_rebuild s)) + increment,
                   rg_force_released = force_released\<rparr>
          in (Inr g, s\<lparr>mr_rebuild := \<lparr>rs_generation = g, rs_lock = None\<rparr>\<rparr>))"

definition mem_end_rebuild :: "rebuild_lease \<Rightarrow> mem_store \<Rightarrow> (error + rebuild_generation) \<times> mem_store" where
  "mem_end_rebuild lease s =
    (case rebuild_check_owner (le_owner lease) of
       Inl e \<Rightarrow> (Inl e, s)
     | Inr _ \<Rightarrow> mem_release (le_owner lease) (lease_holds lease) 1 False s)"

definition mem_force_release_rebuild :: "string \<Rightarrow> mem_store \<Rightarrow> (error + rebuild_generation) \<times> mem_store" where
  "mem_force_release_rebuild owner s =
    (case rebuild_check_owner owner of
       Inl e \<Rightarrow> (Inl e, s)
     | Inr _ \<Rightarrow> mem_release owner (\<lambda>lock. lk_owner lock = owner) 2 True s)"

definition mem_write_rebuild_views ::
  "int \<Rightarrow> rebuild_lease \<Rightarrow> projected_view list \<Rightarrow> mem_store \<Rightarrow> (error + unit) \<times> mem_store" where
  "mem_write_rebuild_views now lease views s =
    (case and_then (rebuild_check_owner (le_owner lease)) (\<lambda>_.
          and_then (check_view_batch views) (\<lambda>_.
          and_then (ensure (case rs_lock (mr_rebuild s) of None \<Rightarrow> False
              | Some lock \<Rightarrow> lease_holds lease lock \<and> now < lk_lease_expires_at lock)
            (lease_lost (le_owner lease))) (\<lambda>_.
          check_view_conditions (mr_views s) views))) of
       Inl e \<Rightarrow> (Inl e, s)
     | Inr _ \<Rightarrow> (Inr (), s\<lparr>mr_views := apply_views (mr_views s) views\<rparr>))"

text \<open>The in-memory repository as a \<open>RebuildFence\<close>, with the clock readings of its operations.\<close>

definition mem_fence :: "int \<Rightarrow> mem_store fence" where
  "mem_fence now =
    \<lparr>fe_generation = (\<lambda>s. Inr (rs_generation (mr_rebuild s))), fe_state = (\<lambda>s. Inr (mr_rebuild s)),
     fe_begin = mem_begin_rebuild now, fe_renew = mem_renew_rebuild now, fe_end = mem_end_rebuild,
     fe_force_release = mem_force_release_rebuild, fe_write = mem_write_rebuild_views now\<rparr>"

end
