(* ===== verification/Mem_Invariants.thy ===== *)
theory Mem_Invariants
  imports Mem_Repository
begin

text \<open>
  What every operation of the in-memory repository keeps: streams whose head agrees with their log
  (no drift), logs that are contiguous above what a snapshot covers, rows stored under their own keys,
  and a rebuild fence whose lock and generation agree.
\<close>

named_theorems mem_ok \<open>operations that keep the invariant of the in-memory repository\<close>

section \<open>The invariant\<close>

text \<open>The log holds exactly the sequences above \<open>lo\<close> up to the head, and a snapshot covers what is
  below.\<close>

definition log_from :: "event_sequence \<Rightarrow> mem_stream \<Rightarrow> bool" where
  "log_from lo st \<longleftrightarrow>
    0 \<le> lo \<and> (\<forall>k. bt_contains (ms_events st) k \<longleftrightarrow> lo < k \<and> k \<le> ms_head st)
    \<and> (lo = 0 \<or> (\<exists>sn. ms_snapshot st = Some sn \<and> lo \<le> sn_event_sequence sn))"

definition stream_ok :: "entity_id \<Rightarrow> mem_stream \<Rightarrow> bool" where
  "stream_ok entity st \<longleftrightarrow>
    bt_wf (ms_events st) \<and> 0 \<le> ms_head st \<and> (\<exists>lo. log_from lo st)
    \<and> (\<forall>sn. ms_snapshot st = Some sn \<longrightarrow> sn_entity_id sn = entity \<and> sn_event_sequence sn \<le> ms_head st)
    \<and> (\<forall>k e. bt_get (ms_events st) k = Some e \<longrightarrow>
         ev_sequence e = k \<and> ev_entity_id e = entity \<and> ev_id e = for_event entity k)"

definition rebuild_ok :: "rebuild_state \<Rightarrow> bool" where
  "rebuild_ok r \<longleftrightarrow>
    0 \<le> rg_value (rs_generation r)
    \<and> (case rs_lock r of
         None \<Rightarrow> is_settled (rs_generation r) \<or> rg_force_released (rs_generation r)
       | Some lock \<Rightarrow> \<not> is_settled (rs_generation r) \<and> lk_generation lock = rg_value (rs_generation r))"

definition views_ok :: "(string \<times> string, view_row) btree \<Rightarrow> bool" where
  "views_ok rows \<longleftrightarrow>
    bt_wf rows \<and> (\<forall>key row. bt_get rows key = Some row \<longrightarrow> key = (vr_pk row, vr_sk row))"

definition outcomes_ok :: "(command_id, outcome) btree \<Rightarrow> bool" where
  "outcomes_ok os \<longleftrightarrow>
    bt_wf os \<and> (\<forall>command o'. bt_get os command = Some o' \<longrightarrow> oc_command_id o' = command)"

definition streams_ok :: "(entity_id, mem_stream) btree \<Rightarrow> bool" where
  "streams_ok m \<longleftrightarrow>
    bt_wf m \<and> (\<forall>entity st. bt_get m entity = Some st \<longrightarrow> stream_ok entity st \<and> \<not> is_reserved entity)"

definition mem_inv :: "mem_store \<Rightarrow> bool" where
  "mem_inv s \<longleftrightarrow>
    streams_ok (mr_streams s) \<and> views_ok (mr_views s) \<and> outcomes_ok (mr_outcomes s)
    \<and> rebuild_ok (mr_rebuild s)"

lemma stream_ok_absent [simp]: "stream_ok entity absent_stream"
  by (auto simp: stream_ok_def absent_stream_def log_from_def bt_contains_def intro: exI [of _ 0])

lemma stream_of_ok: "streams_ok (mr_streams s) \<Longrightarrow> stream_ok entity (stream_of s entity)"
  by (auto simp: stream_of_def streams_ok_def split: option.splits)

lemma mem_inv_new [simp]: "mem_inv new_store"
  by (simp add: mem_inv_def new_store_def streams_ok_def views_ok_def outcomes_ok_def rebuild_ok_def
      default_rebuild_state_def is_settled_def)

lemma stream_ok_above:
  assumes "stream_ok entity st" and "ms_head st < k"
  shows "bt_get (ms_events st) k = None"
proof -
  have "\<not> bt_contains (ms_events st) k"
    using assms by (auto simp: stream_ok_def log_from_def)
  then show ?thesis
    by (simp add: bt_contains_def)
qed

lemma mem_events_after_stream:
  "mem_events_after s entity after = map snd (filter (\<lambda>(k, _). after < k) (ms_events (stream_of s entity)))"
  by (simp add: mem_events_after_def stream_of_def absent_stream_def bt_empty_def split: option.splits)

section \<open>Heads\<close>

lemma bt_last_key_log:
  assumes "bt_wf m" and "\<And>k. bt_contains m k \<longleftrightarrow> lo < k \<and> k \<le> (head::int)"
  shows "bt_last_key m = (if lo < head then Some head else None)"
proof (cases "lo < head")
  case True
  then have "bt_contains m head"
    using assms(2) by simp
  then have "m \<noteq> []"
    by (auto simp: bt_contains_def)
  then obtain k where k: "bt_last_key m = Some k"
    by (simp add: bt_last_key_def)
  have "k = head"
    using bt_last_key_max(1) [OF assms(1) k] bt_last_key_max(2) [OF assms(1) k \<open>bt_contains m head\<close>]
      assms(2) by simp
  then show ?thesis
    using k True by simp
next
  case False
  have "m = []"
  proof (rule ccontr)
    assume "m \<noteq> []"
    then obtain k where k: "bt_last_key m = Some k"
      by (simp add: bt_last_key_def)
    then show False
      using bt_last_key_max(1) [OF assms(1) k] assms(2) False by simp
  qed
  then show ?thesis
    using False by (simp add: bt_last_key_def)
qed

text \<open>No drift: the stored head is the derived head.\<close>

lemma stream_ok_head:
  assumes "stream_ok entity st"
  shows "derived_head st = ms_head st"
proof -
  obtain lo where lo: "log_from lo st" and wf: "bt_wf (ms_events st)" and nonneg: "0 \<le> ms_head st"
    and sn: "\<And>sn. ms_snapshot st = Some sn \<Longrightarrow> sn_event_sequence sn \<le> ms_head st"
    using assms by (auto simp: stream_ok_def)
  have last: "bt_last_key (ms_events st) = (if lo < ms_head st then Some (ms_head st) else None)"
    by (rule bt_last_key_log [OF wf]) (use lo in \<open>simp add: log_from_def\<close>)
  show ?thesis
  proof (cases "lo < ms_head st")
    case True
    then show ?thesis
      using last sn nonneg by (auto simp: derived_head_def max_def split: option.splits)
  next
    case False
    then consider "lo = 0" "ms_head st = 0"
      | sn' where "ms_snapshot st = Some sn'" "sn_event_sequence sn' = ms_head st"
      using lo nonneg sn by (force simp: log_from_def)
    then show ?thesis
    proof cases
      case 1
      then show ?thesis
        using last sn by (auto simp: derived_head_def max_def split: option.splits)
    next
      case 2
      then show ?thesis
        using last False nonneg by (simp add: derived_head_def)
    qed
  qed
qed

text \<open>So a healthy stream's failure is never reported as drift.\<close>

lemma stream_ok_probe:
  "stream_ok entity st \<Longrightarrow> stream_probe st entity' healthy = healthy (ms_head st)"
  by (simp add: stream_probe_def Let_def stream_ok_head probe_first_def)

section \<open>Appending\<close>

abbreviation insert_events ::
  "serialized_event list \<Rightarrow> (event_sequence, serialized_event) btree \<Rightarrow> (event_sequence, serialized_event) btree" where
  "insert_events \<equiv> fold (\<lambda>e. bt_insert (ev_sequence e) e)"

lemma insert_events_other:
  "k \<notin> ev_sequence ` set es \<Longrightarrow> bt_get (insert_events es m) k = bt_get m k"
  by (induction es arbitrary: m) (auto simp: bt_get_insert)

lemma insert_events_get:
  assumes "distinct (map ev_sequence es)" and "e \<in> set es"
  shows "bt_get (insert_events es m) (ev_sequence e) = Some e"
  using assms
proof (induction es arbitrary: m)
  case (Cons e' es)
  show ?case
  proof (cases "e = e'")
    case True
    then show ?thesis
      using Cons.prems insert_events_other [of "ev_sequence e'" es] by (simp add: bt_get_insert)
  next
    case False
    then show ?thesis
      using Cons by simp
  qed
qed simp

lemma bt_wf_fold_insert: "bt_wf m \<Longrightarrow> bt_wf (insert_events es m)"
  by (induction es arbitrary: m) (auto intro: bt_wf_insert)

text \<open>The head condition of a written stream: its first event follows the head.\<close>

lemma stream_failure_None:
  assumes "stream_failure held c = None" and "1 \<le> ev_sequence (hd (cm_events c))"
  shows "ms_head held = ev_sequence (hd (cm_events c)) - 1"
    and "\<And>e. e \<in> set (cm_events c) \<Longrightarrow> \<not> bt_contains (ms_events held) (ev_sequence e)"
    and "\<And>new. cm_snapshot c = Some new \<Longrightarrow> ns_sequence new =
      next_sequence (case ms_snapshot held of None \<Rightarrow> 0 | Some existing \<Rightarrow> sn_sequence existing)"
  using assms by (auto simp: stream_failure_def Let_def split: if_splits option.splits)

lemma append_events_get:
  assumes "contiguous (cm_events c)"
  shows "e \<in> set (cm_events c) \<Longrightarrow> bt_get (ms_events (append_events c held)) (ev_sequence e) = Some e"
    and "k \<notin> ev_sequence ` set (cm_events c) \<Longrightarrow>
      bt_get (ms_events (append_events c held)) k = bt_get (ms_events held) k"
  using insert_events_get [OF contiguous_distinct [OF assms]] insert_events_other
  by (simp_all add: append_events_def Let_def)

lemma append_events_ok:
  assumes held: "stream_ok (cm_entity_id c) held" and ev: "well_formed_events (cm_entity_id c) (cm_events c)"
    and ne: "cm_events c \<noteq> []" and head: "ms_head held = ev_sequence (hd (cm_events c)) - 1"
  shows "stream_ok (cm_entity_id c) (append_events c held)"
    and "ms_head (append_events c held) = ev_sequence (last (cm_events c))"
proof -
  let ?st = "append_events c held" and ?first = "ev_sequence (hd (cm_events c))"
    and ?last = "ev_sequence (last (cm_events c))"
  have con: "contiguous (cm_events c)" and one: "1 \<le> ?first"
    and event: "\<And>e. e \<in> set (cm_events c) \<Longrightarrow>
      ev_entity_id e = cm_entity_id c \<and> ev_id e = for_event (cm_entity_id c) (ev_sequence e)"
    using ev ne by (auto simp: well_formed_events_def)
  have seqs: "ev_sequence ` set (cm_events c) = {?first..?last}"
    by (rule contiguous_set [OF con ne])
  moreover have "hd (cm_events c) \<in> set (cm_events c)"
    using ne by simp
  ultimately have le: "?first \<le> ?last"
    by (metis atLeastAtMost_iff imageI)
  show newhead: "ms_head ?st = ?last"
    using head le by (simp add: append_events_def Let_def)
  have old: "bt_get (ms_events ?st) k = bt_get (ms_events held) k" if "\<not> (?first \<le> k \<and> k \<le> ?last)" for k
    using append_events_get(2) [OF con, of k held] seqs that by auto
  have new: "\<exists>e \<in> set (cm_events c). ev_sequence e = k \<and> bt_get (ms_events ?st) k = Some e"
    if "?first \<le> k" "k \<le> ?last" for k
  proof -
    have "k \<in> ev_sequence ` set (cm_events c)"
      unfolding seqs using that by simp
    then show ?thesis
      using append_events_get(1) [OF con] by blast
  qed
  obtain lo where lo: "log_from lo held" and wf: "bt_wf (ms_events held)"
    and sn: "\<And>sn. ms_snapshot held = Some sn \<Longrightarrow> sn_entity_id sn = cm_entity_id c \<and> sn_event_sequence sn \<le> ms_head held"
    and ok: "\<And>k e. bt_get (ms_events held) k = Some e \<Longrightarrow>
       ev_sequence e = k \<and> ev_entity_id e = cm_entity_id c \<and> ev_id e = for_event (cm_entity_id c) k"
    using held by (auto simp: stream_ok_def)
  have snap: "ms_snapshot ?st = (case cm_snapshot c of None \<Rightarrow> ms_snapshot held
      | Some new \<Rightarrow> Some (written_snapshot (cm_entity_id c) ?last new))"
    by (simp add: append_events_def Let_def)
  have lohead: "lo \<le> ms_head held"
    using lo sn held by (force simp: log_from_def stream_ok_def)
  have "log_from lo ?st"
    unfolding log_from_def
  proof (intro conjI allI)
    show "0 \<le> lo"
      using lo by (simp add: log_from_def)
    fix k
    show "bt_contains (ms_events ?st) k \<longleftrightarrow> lo < k \<and> k \<le> ms_head ?st"
    proof (cases "?first \<le> k \<and> k \<le> ?last")
      case True
      then have "bt_contains (ms_events ?st) k"
        using new [of k] by (auto simp: bt_contains_def)
      moreover have "lo < k \<and> k \<le> ms_head ?st"
        using True lohead head unfolding newhead by linarith
      ultimately show ?thesis
        by simp
    next
      case False
      then have "bt_contains (ms_events ?st) k \<longleftrightarrow> bt_contains (ms_events held) k"
        using old [of k] by (simp add: bt_contains_def)
      moreover have "bt_contains (ms_events held) k \<longleftrightarrow> lo < k \<and> k \<le> ms_head held"
        using lo by (simp add: log_from_def)
      moreover have "k \<le> ms_head held \<longleftrightarrow> k \<le> ms_head ?st"
        using False head le unfolding newhead by linarith
      ultimately show ?thesis
        by simp
    qed
    show "lo = 0 \<or> (\<exists>sn. ms_snapshot ?st = Some sn \<and> lo \<le> sn_event_sequence sn)"
      using lo lohead head le unfolding snap
      by (cases "cm_snapshot c") (auto simp: log_from_def written_snapshot_def)
  qed
  moreover have "bt_wf (ms_events ?st)"
    by (simp add: append_events_def Let_def bt_wf_fold_insert wf)
  moreover have "sn_entity_id sn' = cm_entity_id c \<and> sn_event_sequence sn' \<le> ms_head ?st"
    if "ms_snapshot ?st = Some sn'" for sn'
    using that sn le head unfolding snap newhead
    by (cases "cm_snapshot c") (force simp: written_snapshot_def)+
  moreover have "ev_sequence e = k \<and> ev_entity_id e = cm_entity_id c \<and> ev_id e = for_event (cm_entity_id c) k"
    if "bt_get (ms_events ?st) k = Some e" for k e
  proof (cases "?first \<le> k \<and> k \<le> ?last")
    case True
    then show ?thesis
      using that new [of k] event by auto
  next
    case False
    then show ?thesis
      using that ok [of k e] old [OF False] by simp
  qed
  ultimately show "stream_ok (cm_entity_id c) ?st"
    using newhead one le by (auto simp: stream_ok_def)
qed

section \<open>Commits\<close>

text \<open>The marker check changes the manifest at most.\<close>

lemma check_manifest_frame:
  assumes "check_manifest h s = (r, h', s')"
  shows "s' = s\<lparr>mr_manifest := mr_manifest s'\<rparr>"
  using assms by (auto simp: check_manifest_def Let_def split: if_splits sum.splits)

lemma append_stream_get:
  "bt_get (append_stream c m) entity =
    (if entity = cm_entity_id c
     then Some (append_events c (case bt_get m entity of None \<Rightarrow> absent_stream | Some st \<Rightarrow> st))
     else bt_get m entity)"
  by (simp add: append_stream_def bt_update_def bt_get_insert)

lemma fold_append_other:
  "entity \<notin> cm_entity_id ` set cs \<Longrightarrow> bt_get (fold append_stream cs m) entity = bt_get m entity"
  by (induction cs arbitrary: m) (auto simp: append_stream_get)

lemma fold_append_get:
  assumes "distinct (map cm_entity_id cs)" and "c \<in> set cs"
  shows "bt_get (fold append_stream cs m) (cm_entity_id c) =
    Some (append_events c (case bt_get m (cm_entity_id c) of None \<Rightarrow> absent_stream | Some st \<Rightarrow> st))"
  using assms
proof (induction cs arbitrary: m)
  case (Cons c' cs)
  show ?case
  proof (cases "c = c'")
    case True
    then show ?thesis
      using Cons.prems fold_append_other [of "cm_entity_id c'" cs] by (simp add: append_stream_get)
  next
    case False
    then have "c \<in> set cs" "cm_entity_id c \<noteq> cm_entity_id c'"
      using Cons.prems by (auto simp: image_iff)
    then show ?thesis
      using Cons by (simp add: append_stream_get)
  qed
qed simp

lemma bt_wf_fold_append: "bt_wf m \<Longrightarrow> bt_wf (fold append_stream cs m)"
  by (induction cs arbitrary: m) (auto simp: append_stream_def intro: bt_wf_update)

text \<open>What a write takes: the streams are distinct, valid and not reserved.\<close>

definition writable :: "json_codec \<Rightarrow> 'op commit list \<Rightarrow> bool" where
  "writable j streams \<longleftrightarrow>
    distinct (map cm_entity_id streams)
    \<and> (\<forall>c \<in> set streams. validate j c = Inr () \<and> \<not> is_reserved (cm_entity_id c))"

lemma map_filter_Nil: "List.map_filter f xs = [] \<longleftrightarrow> (\<forall>x \<in> set xs. f x = None)"
  by (induction xs) (auto simp: List.map_filter_def)

lemma write_failures_None:
  assumes "rank (write_failures s streams fences) = None"
  shows "\<And>c. c \<in> set streams \<Longrightarrow> cm_events c \<noteq> [] \<Longrightarrow>
      stream_failure (stream_of s (cm_entity_id c)) c = None"
    and "\<And>f. f \<in> set fences \<Longrightarrow> rf_entity_id f \<notin> cm_entity_id ` {c \<in> set streams. cm_events c \<noteq> []} \<Longrightarrow>
      ms_head (stream_of s (rf_entity_id f)) = rf_head f"
proof -
  have nil: "write_failures s streams fences = []"
    using assms by (simp add: rank_None)
  show "stream_failure (stream_of s (cm_entity_id c)) c = None"
    if "c \<in> set streams" "cm_events c \<noteq> []" for c
    using nil that by (auto simp: write_failures_def map_filter_Nil has_events_def)
  show "ms_head (stream_of s (rf_entity_id f)) = rf_head f"
    if f: "f \<in> set fences" "rf_entity_id f \<notin> cm_entity_id ` {c \<in> set streams. cm_events c \<noteq> []}" for f
  proof -
    have "\<not> (\<exists>c \<in> set streams. has_events c \<and> cm_entity_id c = rf_entity_id f)"
      using f(2) by (force simp: has_events_def)
    then have "fence_failure (stream_of s (rf_entity_id f)) f = None"
      using nil f(1) unfolding write_failures_def by (auto simp: map_filter_Nil split: if_splits)
    then show ?thesis
      by (simp add: fence_failure_def split: if_splits)
  qed
qed

lemma fold_append_ok:
  assumes inv: "streams_ok m" and ok: "writable j streams"
    and pass: "\<And>c. c \<in> set streams \<Longrightarrow> cm_events c \<noteq> [] \<Longrightarrow>
      stream_failure (case bt_get m (cm_entity_id c) of None \<Rightarrow> absent_stream | Some st \<Rightarrow> st) c = None"
  shows "streams_ok (fold append_stream (filter has_events streams) m)"
  unfolding streams_ok_def
proof (intro conjI allI impI)
  let ?cs = "filter has_events streams"
  show "bt_wf (fold append_stream ?cs m)"
    using inv by (simp add: streams_ok_def bt_wf_fold_append)
  fix entity st
  assume get: "bt_get (fold append_stream ?cs m) entity = Some st"
  show "stream_ok entity st" and "\<not> is_reserved entity"
  proof -
    have "stream_ok entity st \<and> \<not> is_reserved entity"
    proof (cases "entity \<in> cm_entity_id ` set ?cs")
      case True
      then obtain c where c: "c \<in> set streams" "cm_events c \<noteq> []" "c \<in> set ?cs" "entity = cm_entity_id c"
        by (auto simp: has_events_def)
      let ?held = "case bt_get m entity of None \<Rightarrow> absent_stream | Some st \<Rightarrow> st"
      have st: "st = append_events c ?held"
        using get fold_append_get [of ?cs c m] c ok by (simp add: writable_def distinct_map_filter_mono)
      have valid: "validate j c = Inr ()" "\<not> is_reserved entity"
        using ok c by (auto simp: writable_def)
      have held: "stream_ok (cm_entity_id c) ?held"
        using inv c(4) by (auto simp: streams_ok_def split: option.splits)
      have wf: "well_formed_events (cm_entity_id c) (cm_events c)"
        by (rule validate_events [OF valid(1)])
      have "ms_head ?held = ev_sequence (hd (cm_events c)) - 1"
        by (rule stream_failure_None) (use pass [OF c(1,2)] c(2,4) wf in \<open>simp_all add: well_formed_events_def\<close>)
      then show ?thesis
        using append_events_ok(1) [OF held wf c(2)] st c(4) valid by simp
    next
      case False
      then show ?thesis
        using get inv fold_append_other [of entity ?cs m] by (simp add: streams_ok_def)
    qed
    then show "stream_ok entity st" and "\<not> is_reserved entity"
      by blast+
  qed
qed

lemma apply_view_ok: "views_ok rows \<Longrightarrow> views_ok (apply_view v rows)"
  by (auto simp: views_ok_def apply_view_def bt_simps wf_intros view_key_def view_row_of_def
      split: view_operation_kind.splits if_splits)

lemma apply_views_ok: "views_ok rows \<Longrightarrow> views_ok (apply_views rows views)"
  unfolding apply_views_def by (induction views arbitrary: rows) (auto intro: apply_view_ok)

lemma write_checks_Inr:
  "write_checks s streams fences views outcome retention = Inr () \<longleftrightarrow>
    retention (mr_manifest s) = Inr ()
    \<and> rs_lock (mr_rebuild s) = None \<and> is_settled (rs_generation (mr_rebuild s))
    \<and> (\<forall>o'. outcome = Some o' \<longrightarrow> bt_get (mr_outcomes s) (oc_command_id o') = None)
    \<and> rank (write_failures s streams fences) = None
    \<and> check_view_conditions (mr_views s) views = Inr ()"
  by (auto simp: write_checks_def result_simps bt_contains_def split: option.splits)

lemma mem_write_Inr:
  assumes "mem_write streams fences views outcome retention h s = (Inr u, h', s')"
  obtains s1 where "check_manifest h s = (Inr (), h', s1)" "s1 = s\<lparr>mr_manifest := mr_manifest s1\<rparr>"
    "write_checks s1 streams fences views outcome retention = Inr ()"
    "s' = write_apply s1 streams views outcome"
proof -
  obtain r h1 s1 where cm: "check_manifest h s = (r, h1, s1)"
    by (cases "check_manifest h s") auto
  then show thesis
    using assms that [of s1] check_manifest_frame [OF cm]
    by (auto simp: mem_write_def split: sum.splits)
qed

lemma mem_write_Inl:
  assumes "mem_write streams fences views outcome retention h s = (Inl e, h', s')"
  shows "s' = s\<lparr>mr_manifest := mr_manifest s'\<rparr>"
proof -
  obtain r h1 s1 where cm: "check_manifest h s = (r, h1, s1)"
    by (cases "check_manifest h s") auto
  then show ?thesis
    using assms check_manifest_frame [OF cm] by (auto simp: mem_write_def split: sum.splits)
qed

text \<open>A commit or a transaction that returns an error has written no stream, view or outcome; one
  that succeeds either had nothing to write or wrote everything it carries.\<close>

lemma mem_commit_cases:
  assumes "mem_commit j c h s = (r, h', s')"
  obtains (failed) e where "r = Inl e" "s' = s\<lparr>mr_manifest := mr_manifest s'\<rparr>"
  | (noop) "r = Inr ()" "cm_events c = []" "cm_outcome c = None" "h' = h" "s' = s"
  | (written) "r = Inr ()" "writable j [c]" "validate j c = Inr ()"
      "mem_write [c] [] (cm_views c) (stored_outcome c) (\<lambda>_. Inr ()) h s = (Inr (), h', s')"
proof (cases "and_then (validate j c) (\<lambda>_. check_not_reserved (cm_entity_id c))")
  case (Inl e)
  then show ?thesis
    using assms failed [of e] by (simp add: mem_commit_def)
next
  case (Inr u)
  note checked = this
  then have valid: "validate j c = Inr ()" "writable j [c]"
    by (simp_all add: result_simps writable_def ex_Inr_unit)
  show ?thesis
  proof (cases "cm_events c = [] \<and> cm_outcome c = None")
    case True
    then show ?thesis
      using assms Inr noop by (simp add: mem_commit_def)
  next
    case False
    show ?thesis
    proof (cases "and_then (commit_sizes j (\<lambda>_. None) c) (\<lambda>sizes. check_budget (sizes @ view_sizes (cm_views c)))")
      case (Inl e)
      then show ?thesis
        using assms checked False failed [of e] by (simp add: mem_commit_def)
    next
      case (Inr u')
      then have wr: "mem_write [c] [] (cm_views c) (stored_outcome c) (\<lambda>_. Inr ()) h s = (r, h', s')"
        using assms checked False by (simp add: mem_commit_def)
      show ?thesis
      proof (cases r)
        case (Inl e)
        then show ?thesis
          using wr failed [of e] mem_write_Inl by blast
      next
        case (Inr u'')
        then show ?thesis
          using wr written valid by simp
      qed
    qed
  qed
qed

lemma mem_transaction_cases:
  assumes "mem_commit_transaction j t h s = (r, h', s')"
  obtains (failed) e where "r = Inl e" "s' = s\<lparr>mr_manifest := mr_manifest s'\<rparr>"
  | (noop) t' where "r = Inr ()" "normalize j t = Inr t'" "transaction_is_empty t'" "h' = h" "s' = s"
  | (written) t' where "r = Inr ()" "normalize j t = Inr t'" "writable j (tc_streams t')"
      "mem_write (tc_streams t') (tc_fences t') (tc_views t') (transaction_stored_outcome t')
        (\<lambda>m. check_retention t' m (\<lambda>_. False)) h s = (Inr (), h', s')"
proof (cases "normalize j t")
  case (Inl e)
  then show ?thesis
    using assms failed [of e] by (simp add: mem_commit_transaction_def)
next
  case (Inr t')
  note checked = this
  then have valid: "writable j (tc_streams t')"
    using normalize_streams [OF Inr] by (simp add: writable_def)
  show ?thesis
  proof (cases "transaction_is_empty t'")
    case True
    then show ?thesis
      using assms Inr noop by (simp add: mem_commit_transaction_def)
  next
    case False
    show ?thesis
    proof (cases "and_then (transaction_sizes j (\<lambda>_. None) t') (\<lambda>sizes. check_budget (sizes @ view_sizes (tc_views t')))")
      case (Inl e)
      then show ?thesis
        using assms checked False failed [of e] by (simp add: mem_commit_transaction_def)
    next
      case (Inr u')
      then have wr: "mem_write (tc_streams t') (tc_fences t') (tc_views t') (transaction_stored_outcome t')
          (\<lambda>m. check_retention t' m (\<lambda>_. False)) h s = (r, h', s')"
        using assms checked False by (simp add: mem_commit_transaction_def)
      show ?thesis
      proof (cases r)
        case (Inl e)
        then show ?thesis
          using wr failed [of e] mem_write_Inl by blast
      next
        case (Inr u'')
        then show ?thesis
          using wr written valid checked by simp
      qed
    qed
  qed
qed

lemma mem_inv_manifest [simp]: "mem_inv (s\<lparr>mr_manifest := m\<rparr>) \<longleftrightarrow> mem_inv s"
  by (simp add: mem_inv_def)

lemma stream_of_manifest [simp]: "stream_of (s\<lparr>mr_manifest := m\<rparr>) = stream_of s"
  by (simp add: stream_of_def fun_eq_iff)

lemma mem_write_ok:
  assumes "mem_write streams fences views outcome retention h s = (Inr u, h', s')"
    and "mem_inv s" and "writable j streams"
  shows "mem_inv s'"
proof -
  obtain s1 where s1: "s1 = s\<lparr>mr_manifest := mr_manifest s1\<rparr>"
    and checks: "write_checks s1 streams fences views outcome retention = Inr ()"
    and s': "s' = write_apply s1 streams views outcome"
    using assms(1) by (rule mem_write_Inr)
  have "mem_inv (s\<lparr>mr_manifest := mr_manifest s1\<rparr>)"
    using assms(2) by simp
  then have inv: "mem_inv s1"
    unfolding s1 [symmetric] .
  have rank: "rank (write_failures s1 streams fences) = None"
    using checks by (simp add: write_checks_Inr)
  have "streams_ok (mr_streams s')"
    unfolding s' write_apply_def
    using inv fold_append_ok [OF _ assms(3), of "mr_streams s1"] write_failures_None(1) [OF rank]
    by (simp add: mem_inv_def stream_of_def)
  moreover have "outcomes_ok (mr_outcomes s')"
    using inv by (auto simp: s' write_apply_def mem_inv_def outcomes_ok_def bt_simps wf_intros
        split: option.splits)
  ultimately show ?thesis
    using inv by (simp add: mem_inv_def s' write_apply_def apply_views_ok)
qed

lemma mem_commit_ok [mem_ok]:
  assumes "mem_commit j c h s = (r, h', s')" and "mem_inv s"
  shows "mem_inv s'"
  using assms(1)
proof (cases rule: mem_commit_cases)
  case (failed e)
  show ?thesis
    by (subst failed(2)) (use assms(2) in simp)
next
  case written
  then show ?thesis
    using mem_write_ok assms(2) by blast
qed (use assms(2) in simp)

lemma mem_transaction_ok [mem_ok]:
  assumes "mem_commit_transaction j t h s = (r, h', s')" and "mem_inv s"
  shows "mem_inv s'"
  using assms(1)
proof (cases rule: mem_transaction_cases)
  case (failed e)
  show ?thesis
    by (subst failed(2)) (use assms(2) in simp)
next
  case (written t')
  then show ?thesis
    using mem_write_ok assms(2) by blast
qed (use assms(2) in simp)

section \<open>Snapshots and compaction\<close>

lemma check_manifest_ok:
  "check_manifest h s = (r, h', s') \<Longrightarrow> mem_inv s' \<longleftrightarrow> mem_inv s"
  using check_manifest_frame [of h s r h' s'] mem_inv_manifest [of "mr_manifest s'" s] by simp

text \<open>Where a snapshot is stored, its stream's head covers it and it is not older than the one it
  replaces.\<close>

lemma put_snapshot_stream_ok:
  assumes ok: "stream_ok entity st" and "sn_entity_id sn = entity"
    and covered: "\<not> (0 < sn_event_sequence sn \<and> ms_head st < sn_event_sequence sn)"
    and newer: "\<And>existing. ms_snapshot st = Some existing \<Longrightarrow> sn_event_sequence existing \<le> sn_event_sequence sn"
  shows "stream_ok entity (st\<lparr>ms_snapshot := Some sn\<rparr>)"
proof -
  obtain lo where lo: "log_from lo st" and nonneg: "0 \<le> ms_head st"
    using ok by (auto simp: stream_ok_def)
  have "log_from lo (st\<lparr>ms_snapshot := Some sn\<rparr>)"
    using lo newer unfolding log_from_def by fastforce
  moreover have "sn_event_sequence sn \<le> ms_head st"
    using covered nonneg by linarith
  ultimately show ?thesis
    using ok assms(2) by (auto simp: stream_ok_def)
qed

lemma update_stream_ok:
  assumes "streams_ok m" and "\<not> is_reserved entity"
    and "stream_ok entity (f (case bt_get m entity of None \<Rightarrow> absent_stream | Some st \<Rightarrow> st))"
  shows "streams_ok (bt_update entity absent_stream f m)"
  using assms by (auto simp: streams_ok_def bt_update_def bt_simps wf_intros)

lemma mem_put_snapshot_ok [mem_ok]:
  assumes "mem_put_snapshot sn h s = (r, h', s')" and "mem_inv s"
  shows "mem_inv s'"
proof (cases "is_reserved (sn_entity_id sn)")
  case True
  then show ?thesis
    using assms by (simp add: mem_put_snapshot_def check_not_reserved_def)
next
  case False
  obtain r1 h1 s1 where cm: "check_manifest h s = (r1, h1, s1)"
    by (cases "check_manifest h s") auto
  have inv: "mem_inv s1"
    using cm assms(2) check_manifest_ok by blast
  let ?held = "stream_of s1 (sn_entity_id sn)"
  have held: "stream_ok (sn_entity_id sn) ?held"
    using inv by (simp add: mem_inv_def stream_of_ok)
  have put: "mem_inv (s1\<lparr>mr_streams := bt_update (sn_entity_id sn) absent_stream
      (\<lambda>st. st\<lparr>ms_snapshot := Some sn\<rparr>) (mr_streams s1)\<rparr>)"
    if "\<not> (0 < sn_event_sequence sn \<and> ms_head ?held < sn_event_sequence sn)"
      "\<not> (case ms_snapshot ?held of None \<Rightarrow> False | Some existing \<Rightarrow> sn_event_sequence sn < sn_event_sequence existing)"
  proof -
    have "stream_ok (sn_entity_id sn) (?held\<lparr>ms_snapshot := Some sn\<rparr>)"
      by (rule put_snapshot_stream_ok [OF held _ that(1)]) (use that(2) in \<open>auto split: option.splits\<close>)
    then show ?thesis
      using inv False update_stream_ok by (simp add: mem_inv_def stream_of_def)
  qed
  show ?thesis
    using assms(1) cm False inv put
    by (auto simp: mem_put_snapshot_def check_not_reserved_def Let_def split: sum.splits if_splits)
qed

text \<open>Compaction removes only sequences the stream's snapshot covers, and leaves the head alone.\<close>

lemma compact_stream_ok:
  assumes ok: "stream_ok entity st" and "ms_snapshot st = Some sn" and "through \<le> sn_event_sequence sn"
    and "1 \<le> through"
  shows "stream_ok entity (compact_stream through st)"
proof -
  obtain lo where lo: "log_from lo st" and wf: "bt_wf (ms_events st)"
    and snap: "sn_event_sequence sn \<le> ms_head st"
    using ok assms(2) by (auto simp: stream_ok_def)
  have get: "bt_get (ms_events (compact_stream through st)) k =
      (if through < k then bt_get (ms_events st) k else None)" for k
    using wf by (simp add: compact_stream_def bt_simps split: option.splits)
  have "lo = 0 \<or> lo \<le> sn_event_sequence sn"
    using lo assms(2) by (auto simp: log_from_def)
  then have "log_from (max lo through) (compact_stream through st)"
    using lo assms(2-) unfolding log_from_def bt_contains_def get
    by (auto simp: compact_stream_def)
  then show ?thesis
    using ok get by (auto simp: stream_ok_def wf_intros compact_stream_def split: if_splits)
qed

lemma mem_compact_below_cases:
  assumes "mem_compact_below entity through h s = (r, s')"
  obtains (unchanged) "s' = s" "\<And>n. r = Inr n \<Longrightarrow> n = 0"
  | (compacted) st sn where "bt_get (mr_streams s) entity = Some st" "ms_snapshot st = Some sn"
      "1 \<le> through" "through \<le> sn_event_sequence sn" "\<not> is_reserved entity"
      "history_dependent_stream (mr_manifest s) st = None"
      "r = Inr (length (ms_events st) - length (ms_events (compact_stream through st)))"
      "s' = s\<lparr>mr_streams := bt_insert entity (compact_stream through st) (mr_streams s)\<rparr>"
proof (cases "is_reserved entity \<or> through < 1 \<or>
    (\<exists>e. validate_marker_for_write (mr_manifest s) (mh_journaling h) = Inl e) \<or> bt_get (mr_streams s) entity = None")
  case True
  then show ?thesis
    using assms unchanged
    by (auto simp: mem_compact_below_def check_not_reserved_def split: if_splits sum.splits)
next
  case False
  then obtain v st where v: "validate_marker_for_write (mr_manifest s) (mh_journaling h) = Inr v"
    and st: "bt_get (mr_streams s) entity = Some st"
    by (cases "validate_marker_for_write (mr_manifest s) (mh_journaling h)") auto
  show ?thesis
  proof (cases "ms_snapshot st")
    case None
    then show ?thesis
      using assms False v st unchanged by (auto simp: mem_compact_below_def check_not_reserved_def)
  next
    case (Some sn)
    then show ?thesis
      using assms False v st unchanged compacted [OF st Some]
      by (auto simp: mem_compact_below_def check_not_reserved_def not_less split: if_splits option.splits)
  qed
qed

lemma mem_compact_below_ok [mem_ok]:
  assumes "mem_compact_below entity through h s = (r, s')" and "mem_inv s"
  shows "mem_inv s'"
  using assms(1)
proof (cases rule: mem_compact_below_cases)
  case (compacted st sn)
  then have "stream_ok entity (compact_stream through st)"
    using assms(2) compact_stream_ok by (auto simp: mem_inv_def streams_ok_def)
  then show ?thesis
    using assms(2) compacted by (auto simp: mem_inv_def streams_ok_def bt_simps wf_intros)
qed (use assms(2) in simp)

section \<open>The marker and the rebuild fence\<close>

lemma mem_update_manifest_ok [mem_ok]:
  "mem_update_manifest change h s = (r, h', s') \<Longrightarrow> mem_inv s \<Longrightarrow> mem_inv s'"
  by (auto simp: mem_update_manifest_def Let_def)

lemma mem_declare_history_ok [mem_ok]:
  "mem_declare_history_dependent types h s = (r, h', s') \<Longrightarrow> mem_inv s \<Longrightarrow> mem_inv s'"
  by (auto simp: mem_declare_history_dependent_def Let_def intro: mem_update_manifest_ok split: if_splits)

lemma mem_initialize_ok [mem_ok]:
  "mem_initialize h s = (r, h', s') \<Longrightarrow> mem_inv s \<Longrightarrow> mem_inv s'"
  by (auto simp: mem_initialize_def split: sum.splits bool.splits if_splits)

lemma decide_Inr:
  assumes "decide r now = Inr plan"
  shows "rg_value (rs_generation r) < rg_value (rs_generation r) + pl_increment plan"
    and "\<not> is_settled \<lparr>rg_value = rg_value (rs_generation r) + pl_increment plan, rg_force_released = b\<rparr>"
    and "\<And>lock. rs_lock r = Some lock \<Longrightarrow> is_expired lock now"
  using assms by (auto simp: decide_def Let_def is_settled_def split: option.splits if_splits)

text \<open>The fence is never in a state \<open>begin\<close> refuses as invalid.\<close>

lemma rebuild_ok_decide:
  assumes "rebuild_ok r"
  shows "\<And>m. decide r now \<noteq> Inl (RebuildStateInvalid m)"
    and "rs_lock r = None \<Longrightarrow> \<exists>plan. decide r now = Inr plan"
  using assms by (auto simp: decide_def rebuild_ok_def Let_def split: option.splits if_splits)

lemma mem_begin_rebuild_Inr:
  assumes "mem_begin_rebuild now owner lease s = (Inr l, s')"
  obtains seconds plan where "check_lease owner lease = Inr seconds" "decide (mr_rebuild s) now = Inr plan"
    "le_owner l = owner" "le_generation l = rg_value (rs_generation (mr_rebuild s)) + pl_increment plan"
    "rs_generation (mr_rebuild s') = (rs_generation (mr_rebuild s))\<lparr>rg_value := le_generation l\<rparr>"
    "rs_lock (mr_rebuild s') = Some \<lparr>lk_owner = owner, lk_generation = le_generation l,
        lk_lease_expires_at = le_lease_expires_at l\<rparr>"
    "s' = s\<lparr>mr_rebuild := mr_rebuild s'\<rparr>"
proof -
  obtain seconds plan where "check_lease owner lease = Inr seconds" "decide (mr_rebuild s) now = Inr plan"
    using assms by (auto simp: mem_begin_rebuild_def result_simps split: sum.splits prod.splits)
  then show thesis
    using assms that [of seconds plan] by (auto simp: mem_begin_rebuild_def Let_def)
qed

lemma mem_begin_rebuild_Inl: "mem_begin_rebuild now owner lease s = (Inl e, s') \<Longrightarrow> s' = s"
  by (auto simp: mem_begin_rebuild_def Let_def split: sum.splits prod.splits)

lemma mem_begin_rebuild_ok [mem_ok]:
  assumes "mem_begin_rebuild now owner lease s = (r, s')" and "mem_inv s"
  shows "mem_inv s'"
proof (cases r)
  case (Inl e)
  then show ?thesis
    using assms mem_begin_rebuild_Inl by blast
next
  case (Inr l)
  then obtain plan where plan: "decide (mr_rebuild s) now = Inr plan"
    and gen: "le_generation l = rg_value (rs_generation (mr_rebuild s)) + pl_increment plan"
      "rs_generation (mr_rebuild s') = (rs_generation (mr_rebuild s))\<lparr>rg_value := le_generation l\<rparr>"
    and lock: "rs_lock (mr_rebuild s') = Some \<lparr>lk_owner = owner, lk_generation = le_generation l,
        lk_lease_expires_at = le_lease_expires_at l\<rparr>"
    and s': "s' = s\<lparr>mr_rebuild := mr_rebuild s'\<rparr>"
    using assms(1) mem_begin_rebuild_Inr by metis
  have "rebuild_ok (mr_rebuild s')"
    using decide_Inr(1,2) [OF plan] assms(2) gen lock
    by (auto simp: rebuild_ok_def mem_inv_def is_settled_def)
  then show ?thesis
    using assms(2) by (subst s') (simp add: mem_inv_def)
qed

lemma mem_renew_rebuild_ok [mem_ok]:
  "mem_renew_rebuild now lease period s = (r, s') \<Longrightarrow> mem_inv s \<Longrightarrow> mem_inv s'"
  by (auto simp: mem_renew_rebuild_def Let_def mem_inv_def rebuild_ok_def split: sum.splits option.splits if_splits)

lemma mem_end_rebuild_ok [mem_ok]:
  "mem_end_rebuild lease s = (r, s') \<Longrightarrow> mem_inv s \<Longrightarrow> mem_inv s'"
  by (auto simp: mem_end_rebuild_def mem_release_def Let_def mem_inv_def rebuild_ok_def is_settled_def
      split: sum.splits option.splits if_splits) presburger+

lemma mem_force_release_ok [mem_ok]:
  "mem_force_release_rebuild owner s = (r, s') \<Longrightarrow> mem_inv s \<Longrightarrow> mem_inv s'"
  by (auto simp: mem_force_release_rebuild_def mem_release_def Let_def mem_inv_def rebuild_ok_def is_settled_def
      split: sum.splits option.splits if_splits)

lemma mem_write_rebuild_views_ok [mem_ok]:
  "mem_write_rebuild_views now lease views s = (r, s') \<Longrightarrow> mem_inv s \<Longrightarrow> mem_inv s'"
  by (auto simp: mem_write_rebuild_views_def mem_inv_def apply_views_ok split: sum.splits)

end
