(* ===== verification/Views.thy ===== *)
theory Views
  imports Mem_Invariants
begin

text \<open>
  Reading and writing view rows outside the commit path (\<open>views.rs\<close>), and the in-memory view
  repository (\<open>mem/views.rs\<close>): point reads and writes, and listings by partition and by entity type,
  paged by an opaque cursor.
\<close>

section \<open>Rows and keys\<close>

record view_page =
  vp_views :: "view_row list"
  vp_next_cursor :: "string option"

definition nul_free :: "string \<Rightarrow> string \<Rightarrow> error + unit" where
  "nul_free value field =
    ensure (\<not> has_nul value)
      (InvalidArgument (Msg ''a view {field} cannot contain U+0000'' [AS field]))"

definition check_view_row :: "view_row \<Rightarrow> error + unit" where
  "check_view_row v =
    and_then (ensure (vr_pk v \<noteq> []) (InvalidArgument (Msg ''a view row needs a non-empty pk'' []))) (\<lambda>_.
    and_then (ensure (utf8_valid (vr_payload v))
      (InvalidRecord (Msg ''view payload is not valid UTF-8 and cannot be stored as a string'' []))) (\<lambda>_.
    and_then (nul_free (vr_pk v) ''pk'') (\<lambda>_.
    and_then (nul_free (vr_sk v) ''sk'') (\<lambda>_.
    and_then (nul_free (vr_entity_id v) ''owner'') (\<lambda>_.
    and_then (nul_free (vr_entity_type v) ''entity type'') (\<lambda>_.
    nul_free (vr_payload v) ''payload''))))))"

definition page_limit :: "nat option \<Rightarrow> nat option" where
  "page_limit limit = (case limit of Some n \<Rightarrow> if 0 < n then Some n else None | None \<Rightarrow> None)"

definition resolve_key :: "string \<Rightarrow> string \<Rightarrow> error + string" where
  "resolve_key pk sk =
    and_then (ensure (pk \<noteq> []) (InvalidArgument (Msg ''a view key needs a non-empty pk'' []))) (\<lambda>_.
    and_then (nul_free pk ''pk'') (\<lambda>_.
    and_then (nul_free sk ''sk'') (\<lambda>_.
    Inr (if sk = [] then DEFAULT_VIEW_SORT_KEY else sk))))"

section \<open>Default methods\<close>

text \<open>\<open>put_views\<close>, over the repository's \<open>put_view\<close>.\<close>

fun put_each :: "(view_row \<Rightarrow> 's \<Rightarrow> (error + unit) \<times> 's) \<Rightarrow> view_row list \<Rightarrow> 's \<Rightarrow> (error + unit) \<times> 's" where
  "put_each put [] s = (Inr (), s)"
| "put_each put (v # vs) s =
    (case put v s of (Inl e, s') \<Rightarrow> (Inl e, s') | (Inr _, s') \<Rightarrow> put_each put vs s')"

definition put_views ::
  "(view_row \<Rightarrow> 's \<Rightarrow> (error + unit) \<times> 's) \<Rightarrow> view_row list \<Rightarrow> 's \<Rightarrow> (error + unit) \<times> 's" where
  "put_views put views s =
    (case for_each check_view_row views of Inl e \<Rightarrow> (Inl e, s) | Inr _ \<Rightarrow> put_each put views s)"

text \<open>The rows \<open>batch_get_views_at\<close> collects: each distinct, non-empty key once, in the order given.\<close>

fun batch_rows ::
  "(string \<Rightarrow> string \<Rightarrow> error + view_row option) \<Rightarrow> string \<Rightarrow> string list \<Rightarrow> string list \<Rightarrow> error + view_row list" where
  "batch_rows get sk seen [] = Inr []"
| "batch_rows get sk seen (pk # pks) =
    (if pk = [] \<or> pk \<in> set seen then batch_rows get sk seen pks
     else and_then (get pk sk) (\<lambda>row.
          and_then (batch_rows get sk (pk # seen) pks) (\<lambda>rows.
          Inr ((case row of None \<Rightarrow> [] | Some r \<Rightarrow> [r]) @ rows))))"

definition batch_get_views_at ::
  "(string \<Rightarrow> string \<Rightarrow> error + view_row option) \<Rightarrow> string list \<Rightarrow> string \<Rightarrow> error + view_row list" where
  "batch_get_views_at get pks sk =
    and_then (resolve_key ''-'' sk) (\<lambda>sk'.
    and_then (for_each (\<lambda>pk. nul_free pk ''pk'') pks) (\<lambda>_.
    batch_rows get sk' [] pks))"

text \<open>The loop of \<open>list_views_by_pk\<close> and \<open>list_views_by_entity_type\<close>: one page after another until a
  page has no cursor. It need not end for an arbitrary repository.\<close>

partial_function (option) list_pages ::
  "(string option \<Rightarrow> error + view_page) \<Rightarrow> string option \<Rightarrow> view_row list \<Rightarrow> (error + view_row list) option" where
  "list_pages page cursor views =
    (case page cursor of
       Inl e \<Rightarrow> Some (Inl e)
     | Inr p \<Rightarrow>
        (case vp_next_cursor p of
           None \<Rightarrow> Some (Inr (views @ vp_views p))
         | Some next \<Rightarrow> list_pages page (Some next) (views @ vp_views p)))"

section \<open>The in-memory view repository\<close>

definition mem_get_view_at :: "mem_store \<Rightarrow> string \<Rightarrow> string \<Rightarrow> error + view_row option" where
  "mem_get_view_at s pk sk = and_then (resolve_key pk sk) (\<lambda>sk'. Inr (mem_view s pk sk'))"

definition mem_get_view :: "mem_store \<Rightarrow> string \<Rightarrow> error + view_row option" where
  "mem_get_view s pk = mem_get_view_at s pk DEFAULT_VIEW_SORT_KEY"

definition stored_row :: "view_row \<Rightarrow> view_row" where
  "stored_row v = (if vr_sk v = [] then v\<lparr>vr_sk := DEFAULT_VIEW_SORT_KEY\<rparr> else v)"

definition mem_put_view :: "view_row \<Rightarrow> mem_store \<Rightarrow> (error + unit) \<times> mem_store" where
  "mem_put_view v s =
    (case check_view_row v of
       Inl e \<Rightarrow> (Inl e, s)
     | Inr _ \<Rightarrow> (Inr (), s\<lparr>mr_views := bt_insert (vr_pk (stored_row v), vr_sk (stored_row v))
                                          (stored_row v) (mr_views s)\<rparr>))"

definition mem_delete_view :: "string \<Rightarrow> string \<Rightarrow> mem_store \<Rightarrow> (error + unit) \<times> mem_store" where
  "mem_delete_view pk sk s =
    (case resolve_key pk sk of
       Inl e \<Rightarrow> (Inl e, s)
     | Inr sk' \<Rightarrow> (Inr (), s\<lparr>mr_views := bt_remove (pk, sk') (mr_views s)\<rparr>))"

subsection \<open>Cursors and pages\<close>

definition key_text :: "item \<Rightarrow> string \<Rightarrow> string option" where
  "key_text key name = (case bt_get key name of Some (AvS v) \<Rightarrow> Some v | _ \<Rightarrow> None)"

definition resume_sk :: "item \<Rightarrow> string option" where
  "resume_sk key = key_text key ''sk''"

definition resume_key :: "item \<Rightarrow> (string \<times> string) option" where
  "resume_key key =
    (case (key_text key ''pk'', key_text key ''sk'') of (Some pk, Some sk) \<Rightarrow> Some (pk, sk) | _ \<Rightarrow> None)"

definition cursor_key ::
  "json_codec \<Rightarrow> (item \<Rightarrow> 't option) \<Rightarrow> string option \<Rightarrow> (item \<Rightarrow> bool) \<Rightarrow> error + 't option" where
  "cursor_key j of_key cursor belongs =
    (case nonempty_text cursor of None \<Rightarrow> Inr None
     | Some c \<Rightarrow>
        and_then (decode_view_cursor j c) (\<lambda>key.
        and_then (ensure (belongs key)
          (InvalidArgument (Msg ''invalid pagination cursor: it belongs to another listing'' []))) (\<lambda>_.
        Inr (of_key key))))"

definition paged :: "view_row list \<Rightarrow> nat option \<Rightarrow> (view_row \<Rightarrow> string) \<Rightarrow> view_page" where
  "paged rows limit cursor =
    (case page_limit limit of
       None \<Rightarrow> \<lparr>vp_views = rows, vp_next_cursor = None\<rparr>
     | Some n \<Rightarrow>
        (let views = take n rows
         in \<lparr>vp_views = views,
             vp_next_cursor = (if views \<noteq> [] \<and> drop n rows \<noteq> [] then Some (cursor (last views)) else None)\<rparr>))"

definition pk_key :: "view_row \<Rightarrow> item" where
  "pk_key row = bt_insert ''sk'' (AvS (vr_sk row)) (bt_insert ''pk'' (AvS (vr_pk row)) bt_empty)"

definition entity_type_key :: "view_row \<Rightarrow> item" where
  "entity_type_key row = bt_insert ''entityType'' (AvS (vr_entity_type row)) (pk_key row)"

definition mem_list_views_by_pk_paged ::
  "json_codec \<Rightarrow> mem_store \<Rightarrow> string \<Rightarrow> nat option \<Rightarrow> string option \<Rightarrow> error + view_page" where
  "mem_list_views_by_pk_paged j s pk limit cursor =
    and_then (nul_free pk ''pk'') (\<lambda>_.
    and_then (cursor_key j resume_sk cursor (\<lambda>key. key_text key ''pk'' = Some pk)) (\<lambda>after.
    let range = filter (\<lambda>(k, _). case after of Some sk \<Rightarrow> (pk, sk) < k | None \<Rightarrow> (pk, []) \<le> k) (mr_views s);
        page = map snd (takeWhile (\<lambda>(k, _). fst k = pk) range)
    in Inr (paged page limit (\<lambda>row. encode_view_cursor j (pk_key row)))))"

definition mem_list_views_by_entity_type_paged ::
  "json_codec \<Rightarrow> mem_store \<Rightarrow> string \<Rightarrow> nat option \<Rightarrow> string option \<Rightarrow> error + view_page" where
  "mem_list_views_by_entity_type_paged j s ty limit cursor =
    and_then (nul_free ty ''entity type'') (\<lambda>_.
    and_then (cursor_key j resume_key cursor (\<lambda>key. key_text key ''entityType'' = Some ty)) (\<lambda>after.
    let range = filter (\<lambda>(k, _). case after of Some start \<Rightarrow> start < k | None \<Rightarrow> True) (mr_views s);
        page = filter (\<lambda>row. vr_entity_type row = ty) (map snd range)
    in Inr (paged page limit (\<lambda>row. encode_view_cursor j (entity_type_key row)))))"

definition mem_list_views_by_pk :: "json_codec \<Rightarrow> mem_store \<Rightarrow> string \<Rightarrow> (error + view_row list) option" where
  "mem_list_views_by_pk j s pk = list_pages (mem_list_views_by_pk_paged j s pk None) None []"

definition mem_list_views_by_entity_type ::
  "json_codec \<Rightarrow> mem_store \<Rightarrow> string \<Rightarrow> (error + view_row list) option" where
  "mem_list_views_by_entity_type j s ty = list_pages (mem_list_views_by_entity_type_paged j s ty None) None []"

section \<open>Cursors decode to the key they encode\<close>

lemma url_unsafe_safe: "c \<noteq> CHR ''-'' \<Longrightarrow> c \<noteq> CHR ''_'' \<Longrightarrow> url_unsafe (url_safe c) = c"
  by (simp add: url_unsafe_def url_safe_def)

lemma url_safe_not: "url_safe c \<noteq> CHR ''+'' \<and> url_safe c \<noteq> CHR ''/''"
  by (simp add: url_safe_def)

lemma alphabet_chars: "c \<in> set ALPHABET \<Longrightarrow> c \<noteq> CHR ''-'' \<and> c \<noteq> CHR ''_''"
  by (auto simp: ALPHABET_def)

lemma symbol_of_alphabet: "symbol_of k \<in> set ALPHABET"
  unfolding symbol_of_def by (rule nth_mem) (simp add: ALPHABET_def)

lemma base64_encode_chars:
  "c \<in> set (base64_encode bytes) \<Longrightarrow> c \<noteq> CHR ''-'' \<and> c \<noteq> CHR ''_''"
proof (induction bytes rule: base64_encode.induct)
  case (1 bytes)
  have "c \<noteq> CHR ''-'' \<and> c \<noteq> CHR ''_''" if "c \<in> set (encode_chunk chunk)" for chunk
    using that alphabet_chars [OF symbol_of_alphabet]
    by (auto simp: encode_chunk_def Let_def split: if_splits)
  with 1 show ?case
    by (subst (asm) (2) base64_encode.simps) (auto split: if_splits)
qed

lemma cursor_round_trip:
  assumes "dec_string_map j (enc_string_map j (string_attributes key)) = Inr (string_attributes key)"
    and "bt_contains (string_attributes key) ''pk''" and "bt_contains (string_attributes key) ''sk''"
  shows "decode_view_cursor j (encode_view_cursor j key) = Inr (map (\<lambda>(name, v). (name, AvS v)) (string_attributes key))"
proof -
  let ?text = "base64_encode (enc_string_map j (string_attributes key))"
  have "map url_unsafe (map url_safe ?text) = ?text"
    using base64_encode_chars url_unsafe_safe by (auto intro!: map_idI)
  moreover have "CHR ''+'' \<notin> set (map url_safe ?text)" "CHR ''/'' \<notin> set (map url_safe ?text)"
    using url_safe_not by auto (metis url_safe_not)+
  ultimately show ?thesis
    using assms unfolding decode_view_cursor_def encode_view_cursor_def
    by (simp add: base64_round_trip del: map_map set_map)
qed

lemma pk_key_attributes: "string_attributes (pk_key row) = [(''pk'', vr_pk row), (''sk'', vr_sk row)]"
  by (simp add: string_attributes_def pk_key_def bt_empty_def map_filter_simps)

lemma entity_type_key_attributes:
  "string_attributes (entity_type_key row) =
    [(''entityType'', vr_entity_type row), (''pk'', vr_pk row), (''sk'', vr_sk row)]"
  by (simp add: string_attributes_def entity_type_key_def pk_key_def bt_empty_def map_filter_simps)

lemma encode_view_cursor_nonempty:
  "enc_string_map j (string_attributes key) \<noteq> [] \<Longrightarrow> encode_view_cursor j key \<noteq> []"
  by (simp add: encode_view_cursor_def base64_encode_nonempty)

text \<open>The JSON codec of the cursors: what it writes is not empty, and it reads back what it wrote.\<close>

definition cursor_codec :: "json_codec \<Rightarrow> bool" where
  "cursor_codec j \<longleftrightarrow>
    (\<forall>m. bt_wf m \<longrightarrow> enc_string_map j m \<noteq> [] \<and> dec_string_map j (enc_string_map j m) = Inr m)"

lemma key_attributes_wf: "bt_wf (string_attributes (pk_key row))" "bt_wf (string_attributes (entity_type_key row))"
  by (simp_all add: pk_key_attributes entity_type_key_attributes bt_wf_def)

lemma cursor_key_pk:
  assumes "cursor_codec j"
  shows "cursor_key j resume_sk (Some (encode_view_cursor j (pk_key row))) (\<lambda>key. key_text key ''pk'' = Some pk) =
    (if vr_pk row = pk then Inr (Some (vr_sk row)) else
       Inl (InvalidArgument (Msg ''invalid pagination cursor: it belongs to another listing'' [])))"
proof -
  have "encode_view_cursor j (pk_key row) \<noteq> []"
    using assms encode_view_cursor_nonempty key_attributes_wf by (simp add: cursor_codec_def)
  moreover have "decode_view_cursor j (encode_view_cursor j (pk_key row)) =
      Inr [(''pk'', AvS (vr_pk row)), (''sk'', AvS (vr_sk row))]"
    by (subst cursor_round_trip) (use assms key_attributes_wf(1) [of row] in
        \<open>simp_all add: cursor_codec_def pk_key_attributes bt_contains_def bt_get_def\<close>)
  ultimately show ?thesis
    by (auto simp: cursor_key_def nonempty_text_def resume_sk_def key_text_def bt_get_def split: list.splits)
qed

lemma cursor_key_entity_type:
  assumes "cursor_codec j"
  shows "cursor_key j resume_key (Some (encode_view_cursor j (entity_type_key row)))
      (\<lambda>key. key_text key ''entityType'' = Some ty) =
    (if vr_entity_type row = ty then Inr (Some (vr_pk row, vr_sk row)) else
       Inl (InvalidArgument (Msg ''invalid pagination cursor: it belongs to another listing'' [])))"
proof -
  have "encode_view_cursor j (entity_type_key row) \<noteq> []"
    using assms encode_view_cursor_nonempty key_attributes_wf by (simp add: cursor_codec_def)
  moreover have "decode_view_cursor j (encode_view_cursor j (entity_type_key row)) =
      Inr [(''entityType'', AvS (vr_entity_type row)), (''pk'', AvS (vr_pk row)), (''sk'', AvS (vr_sk row))]"
    by (subst cursor_round_trip)
      (use assms key_attributes_wf(2) [of row] in
        \<open>simp_all add: cursor_codec_def entity_type_key_attributes bt_contains_def bt_get_def\<close>)
  ultimately show ?thesis
    by (auto simp: cursor_key_def nonempty_text_def resume_key_def key_text_def bt_get_def split: list.splits)
qed

section \<open>Paging through a listing\<close>

text \<open>What a paged listing promises: a page starts at the first row of the listing, and the page of a
  row's cursor at the row after it. Then walking the cursors collects the listing.\<close>

locale paged_listing =
  fixes valid :: "'q \<Rightarrow> bool"
    and rows :: "'q \<Rightarrow> view_row list"
    and limit :: "'q \<Rightarrow> nat option"
    and cursor_of :: "'q \<Rightarrow> view_row \<Rightarrow> string"
    and page :: "'q \<Rightarrow> string option \<Rightarrow> error + view_page"
  assumes first_page: "valid q \<Longrightarrow> page q None = Inr (paged (rows q) (limit q) (cursor_of q))"
    and next_page: "valid q \<Longrightarrow> rows q = before @ r # later \<Longrightarrow>
      page q (Some (cursor_of q r)) = Inr (paged later (limit q) (cursor_of q))"
begin

lemma pages_from:
  assumes "valid q" and "rows q = before @ later" and "page q cursor = Inr (paged later (limit q) (cursor_of q))"
  shows "list_pages (page q) cursor acc = Some (Inr (acc @ later))"
  using assms
proof (induction "length later" arbitrary: before later cursor acc rule: less_induct)
  case less
  show ?case
  proof (cases "page_limit (limit q)")
    case None
    then show ?thesis
      using less.prems by (subst list_pages.simps) (simp add: paged_def)
  next
    case (Some n)
    then have n: "0 < n"
      by (auto simp: page_limit_def split: option.splits if_splits)
    let ?views = "take n later" and ?rest = "drop n later"
    show ?thesis
    proof (cases "?rest = []")
      case True
      then show ?thesis
        using less.prems Some by (subst list_pages.simps) (simp add: paged_def)
    next
      case False
      then have views: "?views \<noteq> []"
        using n by auto
      have split: "rows q = (before @ butlast ?views) @ last ?views # ?rest"
        using less.prems(2) views by (metis append.assoc append_Cons append_Nil append_butlast_last_id append_take_drop_id)
      have "list_pages (page q) (Some (cursor_of q (last ?views))) (acc @ ?views) = Some (Inr ((acc @ ?views) @ ?rest))"
      proof (rule less.hyps [of ?rest "before @ ?views"])
        show "length ?rest < length later"
          using False n by simp
        show "rows q = (before @ ?views) @ ?rest"
          using less.prems(2) by simp
        show "page q (Some (cursor_of q (last ?views))) = Inr (paged ?rest (limit q) (cursor_of q))"
          by (rule next_page [OF less.prems(1) split])
      qed (rule less.prems(1))
      then show ?thesis
        using less.prems Some views False by (subst list_pages.simps) (simp add: paged_def Let_def)
    qed
  qed
qed

lemma pages_collect: "valid q \<Longrightarrow> list_pages (page q) None [] = Some (Inr (rows q))"
  using pages_from [of q "[]" "rows q" None "[]"] first_page by simp

end

subsection \<open>The in-memory listings\<close>

record listing =
  ls_codec :: json_codec
  ls_store :: mem_store
  ls_name :: string
  ls_limit :: "nat option"

definition listing_ok :: "listing \<Rightarrow> bool" where
  "listing_ok q \<longleftrightarrow> cursor_codec (ls_codec q) \<and> views_ok (mr_views (ls_store q)) \<and> \<not> has_nul (ls_name q)"

definition rows_by_pk :: "mem_store \<Rightarrow> string \<Rightarrow> view_row list" where
  "rows_by_pk s pk = map snd (filter (\<lambda>(k, _). fst k = pk) (mr_views s))"

definition rows_by_entity_type :: "mem_store \<Rightarrow> string \<Rightarrow> view_row list" where
  "rows_by_entity_type s ty = filter (\<lambda>row. vr_entity_type row = ty) (map snd (mr_views s))"

text \<open>In a map ordered by \<open>(pk, sk)\<close>, the rows of a partition from a key on are the leading ones.\<close>

lemma takeWhile_partition:
  assumes "bt_wf m" and "\<And>k row. (k, row) \<in> set m \<Longrightarrow> pk \<le> fst k"
  shows "takeWhile (\<lambda>(k, _). fst k = pk) m = filter (\<lambda>(k, _). fst k = (pk :: string)) m"
  using assms
proof (induction m)
  case (Cons e m)
  obtain k row where e: "e = (k, row)"
    by (cases e)
  show ?case
  proof (cases "fst k = pk")
    case True
    then show ?thesis
      using Cons by (auto simp: e bt_wf_def)
  next
    case False
    then have "pk < fst k"
      using Cons.prems(2) [of k row] by (simp add: e)
    moreover have "fst k \<le> fst k'" if "(k', row') \<in> set m" for k' row'
      using Cons.prems(1) that by (force simp: e bt_wf_def less_prod_def')
    ultimately have "filter (\<lambda>(k, _). fst k = pk) m = []"
      by (fastforce simp: filter_empty_conv)
    then show ?thesis
      using False by (simp add: e)
  qed
qed simp

lemma filter_above:
  assumes "bt_wf (xs @ (k, v) # ys)"
  shows "filter (\<lambda>(k', _). k < k') (xs @ (k, v) # ys) = ys"
proof -
  have low: "\<not> k < fst e" if "e \<in> set xs" for e
    using assms that by (fastforce simp: bt_wf_def sorted_wrt_append)
  have high: "k < fst e" if "e \<in> set ys" for e
    using assms that by (auto simp: bt_wf_def sorted_wrt_append)
  have "filter (\<lambda>(k', _). k < k') xs = []" "filter (\<lambda>(k', _). k < k') ys = ys"
    using low high by (auto simp: filter_empty_conv case_prod_beta intro!: filter_True)
  then show ?thesis
    by simp
qed

lemma filter_split:
  assumes "filter P m = before @ e # later"
  obtains xs ys where "m = xs @ e # ys" "filter P ys = later" "P e"
  using assms
proof (induction m arbitrary: before thesis)
  case (Cons x m)
  show ?case
  proof (cases "P x \<and> before = []")
    case True
    then show ?thesis
      using Cons.prems(1) [of "[]" m] Cons.prems(2) by simp
  next
    case False
    then have "filter P m = (if P x then tl before else before) @ e # later"
      using Cons.prems(2) by (cases before) auto
    then obtain xs ys where "m = xs @ e # ys" "filter P ys = later" "P e"
      using Cons.IH by blast
    then show ?thesis
      using Cons.prems(1) [of "x # xs" ys] by simp
  qed
qed simp

lemma bt_wf_suffix: "bt_wf (xs @ ys) \<Longrightarrow> bt_wf ys"
  by (simp add: bt_wf_def sorted_wrt_append)

lemma views_ok_key: "views_ok m \<Longrightarrow> (key, row) \<in> set m \<Longrightarrow> key = (vr_pk row, vr_sk row)"
  using bt_get_iff [of m key row] unfolding views_ok_def by blast

lemma pk_page_after:
  assumes "views_ok m" and "map snd (filter (\<lambda>(k, _). fst k = pk) m) = before @ r # later"
  shows "vr_pk r = pk"
    and "map snd (takeWhile (\<lambda>(k, _). fst k = pk) (filter (\<lambda>(k, _). (pk, vr_sk r) < k) m)) = later"
proof -
  obtain b e l where "filter (\<lambda>(k, _). fst k = pk) m = b @ e # l" and r: "snd e = r" and l: "map snd l = later"
    using assms(2) by (auto simp: map_eq_append_conv map_eq_Cons_conv)
  then obtain xs ys where m: "m = xs @ e # ys" and ys: "filter (\<lambda>(k, _). fst k = pk) ys = l" and e: "fst (fst e) = pk"
    by (auto elim!: filter_split simp: case_prod_beta)
  have key: "e = ((pk, vr_sk r), r)" and "vr_pk r = pk"
    using views_ok_key [OF assms(1), of "fst e" r] e r m by (cases e; auto)+
  then show "vr_pk r = pk"
    by simp
  have wf: "bt_wf m"
    using assms(1) by (simp add: views_ok_def)
  have "filter (\<lambda>(k, _). (pk, vr_sk r) < k) m = ys"
    using wf unfolding m key by (rule filter_above)
  moreover have "takeWhile (\<lambda>(k, _). fst k = pk) ys = filter (\<lambda>(k, _). fst k = pk) ys"
  proof (rule takeWhile_partition)
    show "bt_wf ys"
      using wf unfolding m by (metis append_Cons append_Nil bt_wf_suffix)
    show "pk \<le> fst k" if "(k, row) \<in> set ys" for k row
      using wf that unfolding m key by (force simp: bt_wf_def sorted_wrt_append less_prod_def')
  qed
  ultimately show "map snd (takeWhile (\<lambda>(k, _). fst k = pk) (filter (\<lambda>(k, _). (pk, vr_sk r) < k) m)) = later"
    using ys l by simp
qed

lemma pk_page_first:
  assumes "views_ok m"
  shows "takeWhile (\<lambda>(k, _). fst k = pk) (filter (\<lambda>(k, _). (pk, []) \<le> k) m) = filter (\<lambda>(k, _). fst k = pk) m"
proof -
  have "bt_wf (filter (\<lambda>(k, _). (pk, []) \<le> k) m)"
    using assms by (simp add: views_ok_def wf_intros)
  then have "takeWhile (\<lambda>(k, _). fst k = pk) (filter (\<lambda>(k, _). (pk, []) \<le> k) m)
      = filter (\<lambda>(k, _). fst k = pk) (filter (\<lambda>(k, _). (pk, []) \<le> k) m)"
    by (rule takeWhile_partition) (auto simp: less_eq_prod_def)
  also have "\<dots> = filter (\<lambda>(k, _). fst k = pk) m"
    by (auto simp: filter_filter intro!: filter_cong)
  finally show ?thesis .
qed

interpretation by_pk: paged_listing listing_ok "\<lambda>q. rows_by_pk (ls_store q) (ls_name q)" ls_limit
  "\<lambda>q row. encode_view_cursor (ls_codec q) (pk_key row)"
  "\<lambda>q. mem_list_views_by_pk_paged (ls_codec q) (ls_store q) (ls_name q) (ls_limit q)"
proof
  fix q
  assume "listing_ok q"
  then show "mem_list_views_by_pk_paged (ls_codec q) (ls_store q) (ls_name q) (ls_limit q) None =
      Inr (paged (rows_by_pk (ls_store q) (ls_name q)) (ls_limit q) (\<lambda>row. encode_view_cursor (ls_codec q) (pk_key row)))"
    by (simp add: mem_list_views_by_pk_paged_def nul_free_def listing_ok_def cursor_key_def nonempty_text_def
        rows_by_pk_def pk_page_first)
next
  fix q before r later
  assume "listing_ok q" and "rows_by_pk (ls_store q) (ls_name q) = before @ r # later"
  then show "mem_list_views_by_pk_paged (ls_codec q) (ls_store q) (ls_name q) (ls_limit q)
      (Some (encode_view_cursor (ls_codec q) (pk_key r))) =
      Inr (paged later (ls_limit q) (\<lambda>row. encode_view_cursor (ls_codec q) (pk_key row)))"
    using pk_page_after [of "mr_views (ls_store q)" "ls_name q" before r later]
    by (simp add: mem_list_views_by_pk_paged_def nul_free_def listing_ok_def cursor_key_pk rows_by_pk_def)
qed

interpretation by_type: paged_listing listing_ok "\<lambda>q. rows_by_entity_type (ls_store q) (ls_name q)" ls_limit
  "\<lambda>q row. encode_view_cursor (ls_codec q) (entity_type_key row)"
  "\<lambda>q. mem_list_views_by_entity_type_paged (ls_codec q) (ls_store q) (ls_name q) (ls_limit q)"
proof
  fix q
  assume "listing_ok q"
  then show "mem_list_views_by_entity_type_paged (ls_codec q) (ls_store q) (ls_name q) (ls_limit q) None =
      Inr (paged (rows_by_entity_type (ls_store q) (ls_name q)) (ls_limit q)
        (\<lambda>row. encode_view_cursor (ls_codec q) (entity_type_key row)))"
    by (simp add: mem_list_views_by_entity_type_paged_def nul_free_def listing_ok_def cursor_key_def
        nonempty_text_def rows_by_entity_type_def)
next
  fix q before r later
  assume ok: "listing_ok q" and rows: "rows_by_entity_type (ls_store q) (ls_name q) = before @ r # later"
  let ?m = "mr_views (ls_store q)" and ?ty = "ls_name q"
  have "filter (\<lambda>row. vr_entity_type row = ?ty) (map snd ?m) = before @ r # later"
    using rows by (simp add: rows_by_entity_type_def)
  then obtain xs ys where m: "map snd ?m = xs @ r # ys" and ys: "filter (\<lambda>row. vr_entity_type row = ?ty) ys = later"
    and ty: "vr_entity_type r = ?ty"
    by (rule filter_split)
  obtain us e vs where split: "?m = us @ e # vs" "snd e = r" "map snd vs = ys"
    using m by (auto simp: map_eq_append_conv map_eq_Cons_conv)
  then have key: "e = ((vr_pk r, vr_sk r), r)"
    using ok views_ok_key [of ?m "fst e" r] by (cases e) (auto simp: listing_ok_def)
  have "bt_wf ?m"
    using ok by (simp add: listing_ok_def views_ok_def)
  then have "filter (\<lambda>(k, _). (vr_pk r, vr_sk r) < k) ?m = vs"
    unfolding split(1) key by (rule filter_above)
  then show "mem_list_views_by_entity_type_paged (ls_codec q) (ls_store q) (ls_name q) (ls_limit q)
      (Some (encode_view_cursor (ls_codec q) (entity_type_key r))) =
      Inr (paged later (ls_limit q) (\<lambda>row. encode_view_cursor (ls_codec q) (entity_type_key row)))"
    using ok ty ys split(3)
    by (simp add: mem_list_views_by_entity_type_paged_def nul_free_def listing_ok_def cursor_key_entity_type)
qed

section \<open>What the view writes keep\<close>

lemma mem_put_view_ok [mem_ok]: "mem_put_view v s = (r, s') \<Longrightarrow> mem_inv s \<Longrightarrow> mem_inv s'"
  by (auto simp: mem_put_view_def mem_inv_def views_ok_def bt_simps wf_intros split: sum.splits if_splits)

lemma mem_delete_view_ok [mem_ok]: "mem_delete_view pk sk s = (r, s') \<Longrightarrow> mem_inv s \<Longrightarrow> mem_inv s'"
  by (auto simp: mem_delete_view_def mem_inv_def views_ok_def bt_simps wf_intros split: sum.splits if_splits)

section \<open>What the view reads see of the writes\<close>

text \<open>The sort key a row or a request stands for: an empty one is the default.\<close>

abbreviation default_sk :: "string \<Rightarrow> string" where
  "default_sk sk \<equiv> if sk = [] then ''VIEW'' else sk"

lemma resolve_key_ok:
  "resolve_key pk sk = Inr sk' \<longleftrightarrow> pk \<noteq> [] \<and> \<not> has_nul pk \<and> \<not> has_nul sk \<and> sk' = default_sk sk"
  by (auto simp: resolve_key_def nul_free_def result_simps DEFAULT_VIEW_SORT_KEY_def)

lemma resolve_key_same:
  "resolve_key pk sk = Inr k \<Longrightarrow> default_sk sk' = default_sk sk \<Longrightarrow> resolve_key pk sk' = Inr (default_sk sk)"
  by (auto simp: resolve_key_ok has_nul_def split: if_splits)

lemma stored_row_eq: "stored_row v = v\<lparr>vr_sk := default_sk (vr_sk v)\<rparr>"
  by (simp add: stored_row_def DEFAULT_VIEW_SORT_KEY_def)

lemma check_view_row_key: "check_view_row v = Inr () \<Longrightarrow> resolve_key (vr_pk v) (vr_sk v) = Inr (default_sk (vr_sk v))"
  by (auto simp: check_view_row_def resolve_key_ok nul_free_def result_simps)

text \<open>After a write of one key, a read sees it exactly under the keys that stand for that one.\<close>

lemma mem_get_view_at_written:
  assumes key: "resolve_key pk sk = Inr (default_sk sk)"
    and view: "\<And>pk' k. mem_view s' pk' k = (if pk' = pk \<and> k = default_sk sk then row else mem_view s pk' k)"
  shows "mem_get_view_at s' pk' sk' =
    (if pk' = pk \<and> default_sk sk' = default_sk sk then Inr row else mem_get_view_at s pk' sk')"
proof (cases "resolve_key pk' sk'")
  case (Inl e)
  then have "\<not> (pk' = pk \<and> default_sk sk' = default_sk sk)"
    using resolve_key_same [OF key, of sk'] by (metis Inl_Inr_False)
  then show ?thesis
    by (simp only: mem_get_view_at_def Inl and_then_def sum.case if_False)
next
  case (Inr k)
  then have k: "default_sk sk' = k"
    by (simp only: resolve_key_ok)
  show ?thesis
    unfolding k by (simp only: mem_get_view_at_def Inr and_then_def sum.case view split: if_split) blast
qed

text \<open>A row is read back as it was put, under every key that stands for its own, until it is deleted.\<close>

lemma mem_get_put_view:
  assumes "mem_put_view v s = (Inr (), s')"
  shows "mem_get_view_at s' pk sk =
    (if pk = vr_pk v \<and> default_sk sk = default_sk (vr_sk v) then Inr (Some (v\<lparr>vr_sk := default_sk (vr_sk v)\<rparr>))
     else mem_get_view_at s pk sk)"
proof -
  let ?row = "v\<lparr>vr_sk := default_sk (vr_sk v)\<rparr>"
  have key: "resolve_key (vr_pk v) (vr_sk v) = Inr (default_sk (vr_sk v))"
    and s': "mr_views s' = bt_insert (vr_pk v, default_sk (vr_sk v)) ?row (mr_views s)"
    using assms check_view_row_key [of v] by (auto simp: mem_put_view_def stored_row_eq split: sum.splits)
  show ?thesis
    by (rule mem_get_view_at_written [OF key]) (simp add: mem_view_def s' bt_simps)
qed

lemma mem_get_delete_view:
  assumes "mem_delete_view pk sk s = (Inr (), s')"
  shows "mem_get_view_at s' pk' sk' =
    (if pk' = pk \<and> default_sk sk' = default_sk sk then Inr None else mem_get_view_at s pk' sk')"
proof -
  have key: "resolve_key pk sk = Inr (default_sk sk)"
    and s': "mr_views s' = bt_remove (pk, default_sk sk) (mr_views s)"
    using assms by (auto simp: mem_delete_view_def resolve_key_ok split: sum.splits)
  show ?thesis
    by (rule mem_get_view_at_written [OF key]) (simp add: mem_view_def s' bt_simps)
qed

lemma mem_delete_view_put:
  assumes "mem_put_view v s = (Inr (), s')"
  shows "fst (mem_delete_view (vr_pk v) (vr_sk v) s') = Inr ()"
  using assms check_view_row_key [of v] by (auto simp: mem_put_view_def mem_delete_view_def split: sum.splits)

end
