(* ===== verification/Mem_System.thy ===== *)
theory Mem_System
  imports Views
begin

text \<open>
  Any number of handles over one in-memory store: the operations as a step relation, and what holds of
  every store a sequence of steps can reach. An operation holds the locks of what it touches, so one
  step is one call of one handle.
\<close>

section \<open>Steps\<close>

record mem_system =
  sy_store :: mem_store
  sy_handles :: "mem_handle list"

definition new_system :: mem_system where
  "new_system = \<lparr>sy_store = new_store, sy_handles = [new_handle]\<rparr>"

definition handle_step ::
  "nat \<Rightarrow> (mem_handle \<Rightarrow> mem_store \<Rightarrow> 'r \<times> mem_handle \<times> mem_store) \<Rightarrow> mem_system \<Rightarrow> mem_system" where
  "handle_step i f y =
    (let (_, h, s) = f (sy_handles y ! i) (sy_store y)
     in \<lparr>sy_store = s, sy_handles = (sy_handles y)[i := h]\<rparr>)"

definition store_step :: "(mem_store \<Rightarrow> 'r \<times> mem_store) \<Rightarrow> mem_system \<Rightarrow> mem_system" where
  "store_step f y = y\<lparr>sy_store := snd (f (sy_store y))\<rparr>"

inductive mem_step :: "json_codec \<Rightarrow> mem_system \<Rightarrow> mem_system \<Rightarrow> bool" for j where
  commit: "i < length (sy_handles y) \<Longrightarrow> mem_step j y (handle_step i (mem_commit j (c :: unit commit)) y)"
| transaction: "i < length (sy_handles y) \<Longrightarrow>
    mem_step j y (handle_step i (mem_commit_transaction j (t :: unit transaction_commit)) y)"
| put_snapshot: "i < length (sy_handles y) \<Longrightarrow> mem_step j y (handle_step i (mem_put_snapshot sn) y)"
| compact: "i < length (sy_handles y) \<Longrightarrow>
    mem_step j y (store_step (mem_compact_below entity through (sy_handles y ! i)) y)"
| update_manifest: "i < length (sy_handles y) \<Longrightarrow> mem_step j y (handle_step i (mem_update_manifest change) y)"
| declare_history: "i < length (sy_handles y) \<Longrightarrow>
    mem_step j y (handle_step i (mem_declare_history_dependent types) y)"
| initialize: "i < length (sy_handles y) \<Longrightarrow> mem_step j y (handle_step i mem_initialize y)"
| clone: "i < length (sy_handles y) \<Longrightarrow> mem_step j y (y\<lparr>sy_handles := sy_handles y @ [sy_handles y ! i]\<rparr>)"
| accept_journal: "i < length (sy_handles y) \<Longrightarrow>
    mem_step j y (y\<lparr>sy_handles := (sy_handles y)[i := mem_accept_journal (sy_handles y ! i)]\<rparr>)"
| begin_rebuild: "mem_step j y (store_step (mem_begin_rebuild now owner lease) y)"
| renew_rebuild: "mem_step j y (store_step (mem_renew_rebuild now l period) y)"
| end_rebuild: "mem_step j y (store_step (mem_end_rebuild l) y)"
| force_release: "mem_step j y (store_step (mem_force_release_rebuild owner) y)"
| write_views: "mem_step j y (store_step (mem_write_rebuild_views now l views) y)"
| put_view: "mem_step j y (store_step (mem_put_view row) y)"
| delete_view: "mem_step j y (store_step (mem_delete_view pk sk) y)"

inductive_cases mem_step_elim: "mem_step j y y'"

definition mem_steps :: "json_codec \<Rightarrow> mem_system \<Rightarrow> mem_system \<Rightarrow> bool" where
  "mem_steps j = (mem_step j)\<^sup>*\<^sup>*"

definition reachable :: "json_codec \<Rightarrow> mem_system \<Rightarrow> bool" where
  "reachable j y \<longleftrightarrow> mem_steps j new_system y"

section \<open>Systems that only move forward\<close>

text \<open>A step relation that keeps an invariant and, under it, only moves forward in a preorder.\<close>

locale forward_system =
  fixes step :: "'y \<Rightarrow> 'y \<Rightarrow> bool"
    and inv :: "'y \<Rightarrow> bool"
    and forward :: "'y \<Rightarrow> 'y \<Rightarrow> bool"
  assumes step_inv: "step y y' \<Longrightarrow> inv y \<Longrightarrow> inv y'"
    and step_forward: "step y y' \<Longrightarrow> inv y \<Longrightarrow> forward y y'"
    and forward_refl: "forward y y"
    and forward_trans: "forward x y \<Longrightarrow> forward y z \<Longrightarrow> forward x z"
begin

lemma steps_forward: "step\<^sup>*\<^sup>* y y' \<Longrightarrow> inv y \<Longrightarrow> inv y' \<and> forward y y'"
  by (induction rule: rtranclp_induct) (auto intro: step_inv step_forward forward_refl forward_trans)

end

subsection \<open>Streams\<close>

definition covered_by_snapshot :: "mem_stream \<Rightarrow> event_sequence \<Rightarrow> bool" where
  "covered_by_snapshot st k \<longleftrightarrow> (\<exists>sn. ms_snapshot st = Some sn \<and> k \<le> sn_event_sequence sn)"

definition stream_extends :: "mem_stream \<Rightarrow> mem_stream \<Rightarrow> bool" where
  "stream_extends st st' \<longleftrightarrow>
    ms_head st \<le> ms_head st'
    \<and> (\<forall>k \<le> ms_head st. bt_get (ms_events st') k = bt_get (ms_events st) k
        \<or> bt_get (ms_events st') k = None \<and> covered_by_snapshot st' k)
    \<and> (\<forall>k. covered_by_snapshot st k \<longrightarrow> covered_by_snapshot st' k)"

lemma stream_extends_refl [simp]: "stream_extends st st"
  by (simp add: stream_extends_def)

lemma stream_extends_trans:
  assumes "stream_extends a b" and "stream_extends b c"
  shows "stream_extends a c"
proof -
  have "bt_get (ms_events c) k = bt_get (ms_events a) k \<or> bt_get (ms_events c) k = None \<and> covered_by_snapshot c k"
    if "k \<le> ms_head a" for k
  proof -
    have "k \<le> ms_head b"
      using assms(1) that by (simp add: stream_extends_def)
    then show ?thesis
      using assms that unfolding stream_extends_def by metis
  qed
  then show ?thesis
    using assms by (auto simp: stream_extends_def)
qed

lemma append_events_extends:
  assumes "stream_ok (cm_entity_id c) held" and "well_formed_events (cm_entity_id c) (cm_events c)"
    and "cm_events c \<noteq> []" and head: "ms_head held = ev_sequence (hd (cm_events c)) - 1"
  shows "stream_extends held (append_events c held)"
proof -
  let ?first = "ev_sequence (hd (cm_events c))" and ?last = "ev_sequence (last (cm_events c))"
  have con: "contiguous (cm_events c)"
    using assms(2) by (simp add: well_formed_events_def)
  have seqs: "ev_sequence ` set (cm_events c) = {?first..?last}"
    by (rule contiguous_set [OF con assms(3)])
  have "hd (cm_events c) \<in> set (cm_events c)"
    using assms(3) by simp
  then have le: "?first \<le> ?last"
    using seqs by (metis atLeastAtMost_iff imageI)
  have "bt_get (ms_events (append_events c held)) k = bt_get (ms_events held) k" if "k \<le> ms_head held" for k
    by (rule append_events_get(2) [OF con]) (use that head seqs in auto)
  moreover have "covered_by_snapshot held k \<longrightarrow> covered_by_snapshot (append_events c held) k" for k
    using assms(1) head le
    by (cases "cm_snapshot c")
      (force simp: covered_by_snapshot_def append_events_def Let_def written_snapshot_def stream_ok_def)+
  ultimately show ?thesis
    using head le append_events_ok(2) [OF assms] by (auto simp: stream_extends_def)
qed

lemma put_snapshot_extends:
  assumes "\<And>existing. ms_snapshot st = Some existing \<Longrightarrow> sn_event_sequence existing \<le> sn_event_sequence sn"
  shows "stream_extends st (st\<lparr>ms_snapshot := Some sn\<rparr>)"
  using assms by (fastforce simp: stream_extends_def covered_by_snapshot_def)

lemma compact_stream_extends:
  assumes "stream_ok entity st" and "ms_snapshot st = Some sn" and "through \<le> sn_event_sequence sn"
  shows "stream_extends st (compact_stream through st)"
proof -
  have "bt_wf (ms_events st)"
    using assms(1) by (simp add: stream_ok_def)
  then show ?thesis
    using assms(2,3)
    by (auto simp: stream_extends_def compact_stream_def bt_simps covered_by_snapshot_def split: option.splits)
qed

subsection \<open>Stores\<close>

definition manifest_version :: "feature_manifest option \<Rightarrow> int option" where
  "manifest_version m = map_option fm_version m"

definition version_le :: "feature_manifest option \<Rightarrow> feature_manifest option \<Rightarrow> bool" where
  "version_le m m' \<longleftrightarrow>
    m' = m \<or> (case (m, m') of (None, Some _) \<Rightarrow> True | (Some a, Some b) \<Rightarrow> fm_version a < fm_version b | _ \<Rightarrow> False)"

definition store_extends :: "mem_store \<Rightarrow> mem_store \<Rightarrow> bool" where
  "store_extends s s' \<longleftrightarrow>
    (\<forall>entity. stream_extends (stream_of s entity) (stream_of s' entity))
    \<and> (\<forall>command o'. bt_get (mr_outcomes s) command = Some o' \<longrightarrow> bt_get (mr_outcomes s') command = Some o')
    \<and> rg_value (rs_generation (mr_rebuild s)) \<le> rg_value (rs_generation (mr_rebuild s'))
    \<and> version_le (mr_manifest s) (mr_manifest s')"

lemma version_le_trans: "version_le a b \<Longrightarrow> version_le b c \<Longrightarrow> version_le a c"
  by (auto simp: version_le_def split: option.splits)

lemma store_extends_refl [simp]: "store_extends s s"
  by (simp add: store_extends_def version_le_def)

lemma store_extends_trans: "store_extends a b \<Longrightarrow> store_extends b c \<Longrightarrow> store_extends a c"
  unfolding store_extends_def by (blast intro: stream_extends_trans version_le_trans order_trans)

named_theorems mem_forward \<open>operations that only move the store forward\<close>

lemma version_le_next: "version_le m (Some (m'\<lparr>fm_version := next_version m\<rparr>))"
  by (simp add: version_le_def next_version_def split: option.splits)

lemma version_le_refl [simp]: "version_le m m"
  by (simp add: version_le_def)

lemma check_manifest_version: "check_manifest h s = (r, h', s') \<Longrightarrow> version_le (mr_manifest s) (mr_manifest s')"
  by (auto simp: check_manifest_def Let_def declared_heads_def version_le_next split: if_splits sum.splits)

lemma manifest_extends:
  "version_le (mr_manifest s) m \<Longrightarrow> store_extends s (s\<lparr>mr_manifest := m\<rparr>)"
  by (simp add: store_extends_def)

lemma check_manifest_extends:
  assumes "check_manifest h s = (r, h', s')"
  shows "store_extends s s'"
  using manifest_extends [OF check_manifest_version [OF assms]] check_manifest_frame [OF assms] by simp

text \<open>The streams after a write: the written ones appended to, the others as they were.\<close>

lemma write_apply_stream:
  assumes "writable j streams"
  shows "\<And>c. c \<in> set streams \<Longrightarrow> cm_events c \<noteq> [] \<Longrightarrow>
      stream_of (write_apply s streams views outcome) (cm_entity_id c) =
        append_events c (stream_of s (cm_entity_id c))"
    and "\<And>entity. entity \<notin> cm_entity_id ` {c \<in> set streams. cm_events c \<noteq> []} \<Longrightarrow>
      stream_of (write_apply s streams views outcome) entity = stream_of s entity"
proof -
  let ?cs = "filter has_events streams"
  have distinct: "distinct (map cm_entity_id ?cs)"
    using assms by (simp add: writable_def distinct_map_filter_mono)
  show "stream_of (write_apply s streams views outcome) (cm_entity_id c) =
      append_events c (stream_of s (cm_entity_id c))" if "c \<in> set streams" "cm_events c \<noteq> []" for c
    using fold_append_get [OF distinct, of c "mr_streams s"] that
    by (auto simp: stream_of_def write_apply_def has_events_def split: option.splits)
  show "stream_of (write_apply s streams views outcome) entity = stream_of s entity"
    if "entity \<notin> cm_entity_id ` {c \<in> set streams. cm_events c \<noteq> []}" for entity
    using fold_append_other [of entity ?cs "mr_streams s"] that
    by (auto simp: stream_of_def write_apply_def has_events_def)
qed

lemma write_apply_extends:
  assumes inv: "mem_inv s" and ok: "writable j streams"
    and checks: "write_checks s streams fences views outcome retention = Inr ()"
  shows "store_extends s (write_apply s streams views outcome)"
proof -
  have rank: "rank (write_failures s streams fences) = None"
    and fresh: "\<And>o'. outcome = Some o' \<Longrightarrow> bt_get (mr_outcomes s) (oc_command_id o') = None"
    using checks by (simp_all add: write_checks_Inr)
  have "stream_extends (stream_of s entity) (stream_of (write_apply s streams views outcome) entity)" for entity
  proof (cases "entity \<in> cm_entity_id ` {c \<in> set streams. cm_events c \<noteq> []}")
    case True
    then obtain c where c: "c \<in> set streams" "cm_events c \<noteq> []" "entity = cm_entity_id c"
      by blast
    have valid: "validate j c = Inr ()"
      using ok c(1) by (simp add: writable_def)
    have held: "stream_ok (cm_entity_id c) (stream_of s (cm_entity_id c))"
      using inv by (simp add: mem_inv_def stream_of_ok)
    have wf: "well_formed_events (cm_entity_id c) (cm_events c)"
      by (rule validate_events [OF valid])
    have "ms_head (stream_of s (cm_entity_id c)) = ev_sequence (hd (cm_events c)) - 1"
      by (rule stream_failure_None(1) [OF write_failures_None(1) [OF rank c(1,2)]])
        (use wf c(2) in \<open>simp add: well_formed_events_def\<close>)
    then show ?thesis
      using append_events_extends [OF held wf c(2)] write_apply_stream(1) [OF ok c(1,2)] c(3) by simp
  next
    case False
    then show ?thesis
      using write_apply_stream(2) [OF ok False] by simp
  qed
  moreover have "bt_get (mr_outcomes (write_apply s streams views outcome)) command = Some o'"
    if "bt_get (mr_outcomes s) command = Some o'" for command o'
    using that fresh by (auto simp: write_apply_def bt_get_insert split: option.splits)
  moreover have "mr_rebuild (write_apply s streams views outcome) = mr_rebuild s"
    "mr_manifest (write_apply s streams views outcome) = mr_manifest s"
    by (simp_all add: write_apply_def)
  ultimately show ?thesis
    by (simp add: store_extends_def)
qed

lemma mem_write_extends:
  assumes "mem_write streams fences views outcome retention h s = (r, h', s')"
    and "mem_inv s" and "writable j streams"
  shows "store_extends s s'"
proof -
  obtain r1 h1 s1 where cm: "check_manifest h s = (r1, h1, s1)"
    by (cases "check_manifest h s") auto
  have inv: "mem_inv s1"
    using cm assms(2) check_manifest_ok by blast
  have ext: "store_extends s s1"
    by (rule check_manifest_extends [OF cm])
  have "s' = s1 \<or> write_checks s1 streams fences views outcome retention = Inr ()
      \<and> s' = write_apply s1 streams views outcome"
    using assms(1) cm by (auto simp: mem_write_def split: sum.splits)
  then show ?thesis
    using ext write_apply_extends [OF inv assms(3)] store_extends_trans by blast
qed

lemma mem_commit_forward [mem_forward]:
  assumes "mem_commit j c h s = (r, h', s')" and "mem_inv s"
  shows "store_extends s s'"
proof -
  have "s' = s \<or> writable j [c] \<and>
      mem_write [c] [] (cm_views c) (stored_outcome c) (\<lambda>_. Inr ()) h s = (r, h', s')"
    using assms(1)
    by (auto simp: mem_commit_def writable_def result_simps split: sum.splits if_splits)
  then show ?thesis
    using assms(2) mem_write_extends by (metis store_extends_refl)
qed

lemma mem_transaction_forward [mem_forward]:
  assumes "mem_commit_transaction j t h s = (r, h', s')" and "mem_inv s"
  shows "store_extends s s'"
proof (cases "normalize j t")
  case (Inl e)
  then show ?thesis
    using assms by (simp add: mem_commit_transaction_def)
next
  case (Inr t')
  have ok: "writable j (tc_streams t')"
    using normalize_streams [OF Inr] by (simp add: writable_def)
  have "s' = s \<or> mem_write (tc_streams t') (tc_fences t') (tc_views t') (transaction_stored_outcome t')
      (\<lambda>m. check_retention t' m (\<lambda>_. False)) h s = (r, h', s')"
    using assms(1) Inr by (auto simp: mem_commit_transaction_def split: sum.splits if_splits)
  then show ?thesis
    using assms(2) ok mem_write_extends by (metis store_extends_refl)
qed

lemma stream_of_update:
  "stream_of (s\<lparr>mr_streams := bt_update entity absent_stream f (mr_streams s)\<rparr>) e =
    (if e = entity then f (stream_of s entity) else stream_of s e)"
  by (simp add: stream_of_def bt_update_def bt_get_insert split: option.splits)

lemma stream_update_extends:
  "stream_extends (stream_of s entity) (f (stream_of s entity)) \<Longrightarrow>
    store_extends s (s\<lparr>mr_streams := bt_update entity absent_stream f (mr_streams s)\<rparr>)"
  by (simp add: store_extends_def stream_of_update)

lemma mem_put_snapshot_forward [mem_forward]:
  assumes "mem_put_snapshot sn h s = (r, h', s')" and "mem_inv s"
  shows "store_extends s s'"
proof (cases "is_reserved (sn_entity_id sn)")
  case True
  then show ?thesis
    using assms by (simp add: mem_put_snapshot_def check_not_reserved_def)
next
  case False
  obtain r1 h1 s1 where cm: "check_manifest h s = (r1, h1, s1)"
    by (cases "check_manifest h s") auto
  let ?held = "stream_of s1 (sn_entity_id sn)"
  have "store_extends s1 (s1\<lparr>mr_streams := bt_update (sn_entity_id sn) absent_stream
      (\<lambda>st. st\<lparr>ms_snapshot := Some sn\<rparr>) (mr_streams s1)\<rparr>)"
    if "\<not> (case ms_snapshot ?held of None \<Rightarrow> False | Some existing \<Rightarrow> sn_event_sequence sn < sn_event_sequence existing)"
    by (rule stream_update_extends, rule put_snapshot_extends) (use that in \<open>auto split: option.splits\<close>)
  then have "s' = s1 \<or> store_extends s1 s'"
    using assms(1) cm False
    by (auto simp: mem_put_snapshot_def check_not_reserved_def Let_def split: sum.splits if_splits)
  then show ?thesis
    using check_manifest_extends [OF cm] store_extends_trans by blast
qed

lemma mem_compact_below_forward [mem_forward]:
  assumes "mem_compact_below entity through h s = (r, s')" and "mem_inv s"
  shows "store_extends s s'"
  using assms(1)
proof (cases rule: mem_compact_below_cases)
  case (compacted st sn)
  then have "stream_ok entity st"
    using assms(2) by (simp add: mem_inv_def streams_ok_def)
  then have "stream_extends st (compact_stream through st)"
    using compacted by (intro compact_stream_extends)
  then show ?thesis
    using compacted by (simp add: store_extends_def stream_of_def bt_get_insert)
qed simp

lemma mem_update_manifest_forward [mem_forward]:
  "mem_update_manifest change h s = (r, h', s') \<Longrightarrow> store_extends s s'"
  by (auto simp: mem_update_manifest_def Let_def intro!: manifest_extends version_le_next)

lemma mem_declare_history_forward [mem_forward]:
  "mem_declare_history_dependent types h s = (r, h', s') \<Longrightarrow> store_extends s s'"
  by (auto simp: mem_declare_history_dependent_def Let_def split: if_splits intro: mem_update_manifest_forward)

lemma mem_initialize_forward [mem_forward]:
  "mem_initialize h s = (r, h', s') \<Longrightarrow> store_extends s s'"
  by (auto simp: mem_initialize_def declared_heads_def split: sum.splits bool.splits if_splits
      intro!: manifest_extends version_le_next)

lemma rebuild_extends:
  "rg_value (rs_generation (mr_rebuild s)) \<le> rg_value (rs_generation r) \<Longrightarrow> store_extends s (s\<lparr>mr_rebuild := r\<rparr>)"
  by (simp add: store_extends_def stream_of_def)

lemma mem_begin_rebuild_forward [mem_forward]:
  assumes "mem_begin_rebuild now owner lease s = (r, s')"
  shows "store_extends s s'"
proof (cases r)
  case (Inl e)
  then show ?thesis
    using assms mem_begin_rebuild_Inl [of now owner lease s e s'] by simp
next
  case (Inr l)
  then obtain plan where "decide (mr_rebuild s) now = Inr plan"
    "le_generation l = rg_value (rs_generation (mr_rebuild s)) + pl_increment plan"
    "rs_generation (mr_rebuild s') = (rs_generation (mr_rebuild s))\<lparr>rg_value := le_generation l\<rparr>"
    and s': "s' = s\<lparr>mr_rebuild := mr_rebuild s'\<rparr>"
    using assms mem_begin_rebuild_Inr by metis
  then have "rg_value (rs_generation (mr_rebuild s)) \<le> rg_value (rs_generation (mr_rebuild s'))"
    using decide_Inr(1) by fastforce
  then show ?thesis
    by (subst s') (rule rebuild_extends)
qed

lemma mem_renew_rebuild_forward [mem_forward]:
  "mem_renew_rebuild now l period s = (r, s') \<Longrightarrow> store_extends s s'"
  by (auto simp: mem_renew_rebuild_def Let_def intro!: rebuild_extends split: sum.splits option.splits if_splits)

lemma mem_release_forward:
  "mem_release owner held increment forced s = (r, s') \<Longrightarrow> 0 \<le> increment \<Longrightarrow> store_extends s s'"
  by (auto simp: mem_release_def Let_def intro!: rebuild_extends split: if_splits)

lemma mem_end_rebuild_forward [mem_forward]:
  "mem_end_rebuild l s = (r, s') \<Longrightarrow> store_extends s s'"
  by (auto simp: mem_end_rebuild_def split: sum.splits intro: mem_release_forward)

lemma mem_force_release_forward [mem_forward]:
  "mem_force_release_rebuild owner s = (r, s') \<Longrightarrow> store_extends s s'"
  by (auto simp: mem_force_release_rebuild_def split: sum.splits intro: mem_release_forward)

lemma views_extends: "store_extends s (s\<lparr>mr_views := rows\<rparr>)"
  by (simp add: store_extends_def stream_of_def)

lemma mem_views_forward [mem_forward]:
  "mem_write_rebuild_views now l views s = (r, s') \<Longrightarrow> store_extends s s'"
  "mem_put_view v s = (r, s') \<Longrightarrow> store_extends s s'"
  "mem_delete_view pk sk s = (r, s') \<Longrightarrow> store_extends s s'"
  by (auto simp: mem_write_rebuild_views_def mem_put_view_def mem_delete_view_def views_extends
      split: sum.splits)

subsection \<open>Handles\<close>

text \<open>A cached marker version is one the handle validated: an older one than the store's, or the
  store's own, whose manifest then passes the validation of a write.\<close>

definition handle_ok :: "feature_manifest option \<Rightarrow> mem_handle \<Rightarrow> bool" where
  "handle_ok m h \<longleftrightarrow>
    (case mh_validated h of None \<Rightarrow> True
     | Some Absent \<Rightarrow> False
     | Some (Version v) \<Rightarrow>
        (case m of None \<Rightarrow> False
         | Some m' \<Rightarrow> v < fm_version m'
             \<or> v = fm_version m' \<and> validate_marker_for_write m (mh_journaling h) = Inr (Version v)))"

lemma handle_ok_version_le: "handle_ok m h \<Longrightarrow> version_le m m' \<Longrightarrow> handle_ok m' h"
  by (auto simp: handle_ok_def version_le_def split: option.splits validated_marker.splits)

lemma handle_ok_unvalidated [simp]: "handle_ok m (h\<lparr>mh_validated := None\<rparr>)"
  by (simp add: handle_ok_def)

lemma validate_declared_heads:
  assumes "validate_marker_for_write m journaling = Inl StreamHeadsNotMigrated"
  shows "validate_marker_for_write (Some (declared_heads m)) journaling = Inr (Version (fm_version (declared_heads m)))"
proof -
  define base where "base = (case m of None \<Rightarrow> default_manifest | Some m' \<Rightarrow> m')"
  have old: "set (fm_features base) \<subseteq> set SUPPORTED_FEATURES
      \<and> (\<not> journaling \<longrightarrow> bt_get (fm_features base) JOURNAL_FEATURE = None
          \<and> bt_get (fm_features base) JOURNAL_COMPACTION_FEATURE = None)"
  proof (cases m)
    case (Some m')
    obtain u v where "validate_supported m' = Inr u" "(if journaling then Inr () else refuse_journal m') = Inr v"
      using assms Some
      by (auto simp: validate_marker_for_write_def validate_supported_def refuse_journal_def JOURNAL_ONLY_def
          and_then_def ensure_def split: sum.splits if_splits option.splits dest!: for_each_err)
    then show ?thesis
      by (auto simp: validate_supported_ok refuse_journal_ok base_def Some split: if_splits)
  qed (simp add: base_def default_manifest_def bt_empty_def)
  have features: "fm_features (declared_heads m) = bt_insert STREAM_HEADS_FEATURE STREAM_HEADS_VERSION (fm_features base)"
    by (simp add: declared_heads_def declare_stream_heads_def base_def)
  have "set (fm_features (declared_heads m)) \<subseteq> insert (STREAM_HEADS_FEATURE, STREAM_HEADS_VERSION) (set (fm_features base))"
    unfolding features by (rule bt_insert_set)
  also have "\<dots> \<subseteq> set SUPPORTED_FEATURES"
    using old by (simp add: SUPPORTED_FEATURES_def)
  finally have supported: "set (fm_features (declared_heads m)) \<subseteq> set SUPPORTED_FEATURES" .
  have "bt_get (fm_features (declared_heads m)) JOURNAL_FEATURE = bt_get (fm_features base) JOURNAL_FEATURE"
    "bt_get (fm_features (declared_heads m)) JOURNAL_COMPACTION_FEATURE = bt_get (fm_features base) JOURNAL_COMPACTION_FEATURE"
    unfolding features by (simp_all add: bt_get_insert feature_names)
  moreover have "declares_stream_heads (declared_heads m)"
    by (simp add: declares_stream_heads_def features bt_get_insert)
  ultimately show ?thesis
    unfolding validate_marker_for_write_ok using supported old by simp
qed

lemma check_manifest_cases:
  assumes "check_manifest h s = (r, h', s')"
  obtains (cached) "marker_matches (mh_validated h) (mr_manifest s)" "r = Inr ()" "h' = h" "s' = s"
  | (validated) marker where "validate_marker_for_write (mr_manifest s) (mh_journaling h) = Inr marker"
      "r = Inr ()" "h' = h\<lparr>mh_validated := Some marker\<rparr>" "s' = s"
  | (declared) "validate_marker_for_write (mr_manifest s) (mh_journaling h) = Inl StreamHeadsNotMigrated"
      "r = Inr ()" "no_stream_data s"
      "h' = h\<lparr>mh_validated := Some (Version (fm_version (declared_heads (mr_manifest s))))\<rparr>"
      "s' = s\<lparr>mr_manifest := Some (declared_heads (mr_manifest s))\<rparr>"
  | (refused) e where "r = Inl e" "h' = h" "s' = s"
proof (cases "marker_matches (mh_validated h) (mr_manifest s)")
  case True
  then have "check_manifest h s = (Inr (), h, s)"
    by (simp add: check_manifest_def)
  then show ?thesis
    using True assms by (intro cached) simp_all
next
  case no_match: False
  show ?thesis
  proof (cases "validate_marker_for_write (mr_manifest s) (mh_journaling h)")
    case (Inr marker)
    then have "check_manifest h s = (Inr (), h\<lparr>mh_validated := Some marker\<rparr>, s)"
      using no_match by (simp add: check_manifest_def)
    then show ?thesis
      using Inr assms by (intro validated) simp_all
  next
    case (Inl e)
    show ?thesis
    proof (cases "e = StreamHeadsNotMigrated \<and> no_stream_data s")
      case True
      then have "check_manifest h s =
          (Inr (), h\<lparr>mh_validated := Some (Version (fm_version (declared_heads (mr_manifest s))))\<rparr>,
           s\<lparr>mr_manifest := Some (declared_heads (mr_manifest s))\<rparr>)"
        using no_match Inl by (simp add: check_manifest_def Let_def)
      then show ?thesis
        using True Inl assms by (intro declared) simp_all
    next
      case False
      then have "check_manifest h s = (Inl e, h, s)"
        using no_match Inl by (simp only: check_manifest_def sum.case if_False)
      then show ?thesis
        using assms by (intro refused) simp_all
    qed
  qed
qed

lemma handle_ok_current:
  "handle_ok (Some m) (h\<lparr>mh_validated := Some (Version (fm_version m))\<rparr>) \<longleftrightarrow>
    validate_marker_for_write (Some m) (mh_journaling h) = Inr (Version (fm_version m))"
  by (simp add: handle_ok_def)

lemma check_manifest_handle:
  assumes "check_manifest h s = (r, h', s')" and "handle_ok (mr_manifest s) h"
  shows "handle_ok (mr_manifest s') h'"
    and "r = Inr u \<Longrightarrow> \<exists>v. validate_marker_for_write (mr_manifest s') (mh_journaling h') = Inr v"
    and "mh_journaling h' = mh_journaling h"
proof -
  have "handle_ok (mr_manifest s') h' \<and> (r = Inr u \<longrightarrow>
      (\<exists>v. validate_marker_for_write (mr_manifest s') (mh_journaling h') = Inr v)) \<and> mh_journaling h' = mh_journaling h"
    using assms(1)
  proof (cases rule: check_manifest_cases)
    case cached
    then show ?thesis
      using assms(2)
      by (auto simp: marker_matches_def handle_ok_def split: option.splits validated_marker.splits)
  next
    case (validated marker)
    then obtain m where m: "mr_manifest s = Some m" "marker = Version (fm_version m)"
      by (auto simp: validate_marker_for_write_ok)
    then show ?thesis
      using validated handle_ok_current [of m h] by simp
  next
    case declared
    then show ?thesis
      using validate_declared_heads [OF declared(1)] handle_ok_current [of "declared_heads (mr_manifest s)" h] by simp
  qed (use assms(2) in simp)
  then show "handle_ok (mr_manifest s') h'"
    and "r = Inr u \<Longrightarrow> \<exists>v. validate_marker_for_write (mr_manifest s') (mh_journaling h') = Inr v"
    and "mh_journaling h' = mh_journaling h"
    by blast+
qed

lemma mem_write_handle:
  assumes "mem_write streams fences views outcome retention h s = (r, h', s')" and "handle_ok (mr_manifest s) h"
  shows "handle_ok (mr_manifest s') h'"
proof -
  obtain r1 h1 s1 where cm: "check_manifest h s = (r1, h1, s1)"
    by (cases "check_manifest h s") auto
  then show ?thesis
    using assms check_manifest_handle(1) [OF cm assms(2)]
    by (auto simp: mem_write_def write_apply_def split: sum.splits)
qed

lemma mem_commit_handle:
  "mem_commit j c h s = (r, h', s') \<Longrightarrow> handle_ok (mr_manifest s) h \<Longrightarrow> handle_ok (mr_manifest s') h'"
  by (auto simp: mem_commit_def split: sum.splits if_splits intro: mem_write_handle)

lemma mem_transaction_handle:
  "mem_commit_transaction j t h s = (r, h', s') \<Longrightarrow> handle_ok (mr_manifest s) h \<Longrightarrow> handle_ok (mr_manifest s') h'"
  by (auto simp: mem_commit_transaction_def split: sum.splits if_splits intro: mem_write_handle)

lemma mem_put_snapshot_handle:
  assumes "mem_put_snapshot sn h s = (r, h', s')" and "handle_ok (mr_manifest s) h"
  shows "handle_ok (mr_manifest s') h'"
proof -
  obtain r1 h1 s1 where cm: "check_manifest h s = (r1, h1, s1)"
    by (cases "check_manifest h s") auto
  then show ?thesis
    using assms check_manifest_handle(1) [OF cm assms(2)]
    by (auto simp: mem_put_snapshot_def Let_def split: sum.splits if_splits)
qed

lemma mem_marker_handle:
  "mem_update_manifest change h s = (r, h', s') \<Longrightarrow> handle_ok (mr_manifest s') h'"
  "mem_declare_history_dependent types h s = (r, h', s') \<Longrightarrow> handle_ok (mr_manifest s) h \<Longrightarrow> handle_ok (mr_manifest s') h'"
  "mem_initialize h s = (b, h', s') \<Longrightarrow> handle_ok (mr_manifest s) h \<Longrightarrow> handle_ok (mr_manifest s') h'"
  by (auto simp: mem_update_manifest_def mem_declare_history_dependent_def mem_initialize_def Let_def
      split: sum.splits bool.splits if_splits)

section \<open>Every reachable system\<close>

definition sys_inv :: "mem_system \<Rightarrow> bool" where
  "sys_inv y \<longleftrightarrow> mem_inv (sy_store y) \<and> (\<forall>h \<in> set (sy_handles y). handle_ok (mr_manifest (sy_store y)) h)"

lemma handle_step_inv:
  assumes "sys_inv y" and "i < length (sy_handles y)"
    and ok: "\<And>h s r h' s'. f h s = (r, h', s') \<Longrightarrow> mem_inv s \<Longrightarrow> mem_inv s'"
    and ext: "\<And>h s r h' s'. f h s = (r, h', s') \<Longrightarrow> mem_inv s \<Longrightarrow> store_extends s s'"
    and handle: "\<And>h s r h' s'. f h s = (r, h', s') \<Longrightarrow> handle_ok (mr_manifest s) h \<Longrightarrow> handle_ok (mr_manifest s') h'"
  shows "sys_inv (handle_step i f y) \<and> store_extends (sy_store y) (sy_store (handle_step i f y))"
proof -
  obtain r h' s' where f: "f (sy_handles y ! i) (sy_store y) = (r, h', s')"
    by (cases "f (sy_handles y ! i) (sy_store y)") auto
  have inv: "mem_inv (sy_store y)" and handles: "\<And>h. h \<in> set (sy_handles y) \<Longrightarrow> handle_ok (mr_manifest (sy_store y)) h"
    using assms(1) by (simp_all add: sys_inv_def)
  have ext': "store_extends (sy_store y) s'"
    by (rule ext [OF f inv])
  have "handle_ok (mr_manifest s') h" if "h \<in> set ((sy_handles y)[i := h'])" for h
  proof -
    have "h = h' \<or> h \<in> set (sy_handles y)"
      using that set_update_subset_insert by fastforce
    then show ?thesis
      using handle [OF f] handles assms(2) handle_ok_version_le ext' by (auto simp: store_extends_def)
  qed
  then show ?thesis
    using ok [OF f inv] ext' by (simp add: sys_inv_def handle_step_def f)
qed

lemma store_step_inv:
  assumes "sys_inv y"
    and ok: "\<And>s r s'. f s = (r, s') \<Longrightarrow> mem_inv s \<Longrightarrow> mem_inv s'"
    and ext: "\<And>s r s'. f s = (r, s') \<Longrightarrow> mem_inv s \<Longrightarrow> store_extends s s'"
  shows "sys_inv (store_step f y) \<and> store_extends (sy_store y) (sy_store (store_step f y))"
proof -
  obtain r s' where f: "f (sy_store y) = (r, s')"
    by (cases "f (sy_store y)")
  have inv: "mem_inv (sy_store y)" and handles: "\<And>h. h \<in> set (sy_handles y) \<Longrightarrow> handle_ok (mr_manifest (sy_store y)) h"
    using assms(1) by (simp_all add: sys_inv_def)
  have ext': "store_extends (sy_store y) s'"
    by (rule ext [OF f inv])
  then have "version_le (mr_manifest (sy_store y)) (mr_manifest s')"
    by (simp add: store_extends_def)
  then show ?thesis
    using ok [OF f inv] handles ext' handle_ok_version_le by (auto simp: sys_inv_def store_step_def f)
qed

lemma handle_ok_accept: "handle_ok m h \<Longrightarrow> handle_ok m (mem_accept_journal h)"
  by (auto simp: handle_ok_def mem_accept_journal_def validate_marker_for_write_ok
      split: option.splits validated_marker.splits)

lemma mem_step_inv_forward:
  assumes "mem_step j y y'" and "sys_inv y"
  shows "sys_inv y' \<and> store_extends (sy_store y) (sy_store y')"
  using assms
proof (cases rule: mem_step.cases)
  case (commit i c)
  show ?thesis
    unfolding commit(1)
    by (rule handle_step_inv [OF assms(2) commit(2) mem_commit_ok mem_commit_forward mem_commit_handle])
next
  case (transaction i t)
  show ?thesis
    unfolding transaction(1)
    by (rule handle_step_inv [OF assms(2) transaction(2) mem_transaction_ok mem_transaction_forward mem_transaction_handle])
next
  case (put_snapshot i sn)
  show ?thesis
    unfolding put_snapshot(1)
    by (rule handle_step_inv [OF assms(2) put_snapshot(2) mem_put_snapshot_ok mem_put_snapshot_forward mem_put_snapshot_handle])
next
  case (compact i entity through)
  show ?thesis
    unfolding compact(1) by (rule store_step_inv [OF assms(2) mem_compact_below_ok mem_compact_below_forward])
next
  case (update_manifest i change)
  show ?thesis
    unfolding update_manifest(1) by (rule handle_step_inv [OF assms(2) update_manifest(2) mem_update_manifest_ok mem_update_manifest_forward mem_marker_handle(1)])
next
  case (declare_history i types)
  show ?thesis
    unfolding declare_history(1) by (rule handle_step_inv [OF assms(2) declare_history(2) mem_declare_history_ok mem_declare_history_forward mem_marker_handle(2)])
next
  case (initialize i)
  show ?thesis
    unfolding initialize(1) by (rule handle_step_inv [OF assms(2) initialize(2) mem_initialize_ok mem_initialize_forward mem_marker_handle(3)])
next
  case (clone i)
  then show ?thesis
    using assms(2) by (auto simp: sys_inv_def)
next
  case (accept_journal i)
  have "handle_ok (mr_manifest (sy_store y)) h"
    if "h \<in> set ((sy_handles y)[i := mem_accept_journal (sy_handles y ! i)])" for h
  proof -
    have "h = mem_accept_journal (sy_handles y ! i) \<or> h \<in> set (sy_handles y)"
      using that set_update_subset_insert by fastforce
    then show ?thesis
      using assms(2) accept_journal(2) handle_ok_accept by (auto simp: sys_inv_def)
  qed
  then show ?thesis
    using assms(2) accept_journal by (simp add: sys_inv_def)
next
  case (begin_rebuild now owner lease)
  show ?thesis
    unfolding begin_rebuild by (rule store_step_inv [OF assms(2) mem_begin_rebuild_ok mem_begin_rebuild_forward])
next
  case (renew_rebuild now l period)
  show ?thesis
    unfolding renew_rebuild by (rule store_step_inv [OF assms(2) mem_renew_rebuild_ok mem_renew_rebuild_forward])
next
  case (end_rebuild l)
  show ?thesis
    unfolding end_rebuild by (rule store_step_inv [OF assms(2) mem_end_rebuild_ok mem_end_rebuild_forward])
next
  case (force_release owner)
  show ?thesis
    unfolding force_release by (rule store_step_inv [OF assms(2) mem_force_release_ok mem_force_release_forward])
next
  case (write_views now l views)
  show ?thesis
    unfolding write_views by (rule store_step_inv [OF assms(2) mem_write_rebuild_views_ok mem_views_forward(1)])
next
  case (put_view row)
  show ?thesis
    unfolding put_view by (rule store_step_inv [OF assms(2) mem_put_view_ok mem_views_forward(2)])
next
  case (delete_view pk sk)
  show ?thesis
    unfolding delete_view by (rule store_step_inv [OF assms(2) mem_delete_view_ok mem_views_forward(3)])
qed

interpretation mem: forward_system "mem_step j" sys_inv "\<lambda>y y'. store_extends (sy_store y) (sy_store y')" for j
proof
  fix y y'
  assume "mem_step j y y'" and "sys_inv y"
  then show "sys_inv y'" and "store_extends (sy_store y) (sy_store y')"
    using mem_step_inv_forward by blast+
qed (auto intro: store_extends_trans)

lemma sys_inv_new [simp]: "sys_inv new_system"
  by (simp add: sys_inv_def new_system_def new_handle_def handle_ok_def)

lemma reachable_inv: "reachable j y \<Longrightarrow> sys_inv y"
  using mem.steps_forward [of j new_system y] by (simp add: reachable_def mem_steps_def)

lemma steps_extend: "mem_steps j y y' \<Longrightarrow> sys_inv y \<Longrightarrow> sys_inv y' \<and> store_extends (sy_store y) (sy_store y')"
  using mem.steps_forward [of j y y'] by (simp add: mem_steps_def)

section \<open>What follows for commits\<close>

lemma reachable_stream_ok:
  "reachable j y \<Longrightarrow> stream_ok entity (stream_of (sy_store y) entity)"
  using reachable_inv [of j y] by (simp add: sys_inv_def mem_inv_def stream_of_ok)

text \<open>What a written transaction leaves in the store.\<close>

lemma transaction_written:
  assumes "mem_commit_transaction j t h s = (Inr u, h', s')" and "normalize j t = Inr t'"
    and "\<not> transaction_is_empty t'"
  obtains s1 where "check_manifest h s = (Inr (), h', s1)" "s1 = s\<lparr>mr_manifest := mr_manifest s1\<rparr>"
    "writable j (tc_streams t')"
    "write_checks s1 (tc_streams t') (tc_fences t') (tc_views t') (transaction_stored_outcome t')
      (\<lambda>m. check_retention t' m (\<lambda>_. False)) = Inr ()"
    "s' = write_apply s1 (tc_streams t') (tc_views t') (transaction_stored_outcome t')"
  using assms(1)
proof (cases rule: mem_transaction_cases)
  case (failed e)
  then show ?thesis
    by simp
next
  case (noop t'')
  then show ?thesis
    using assms by simp
next
  case (written t'')
  then have "t'' = t'"
    using assms(2) by simp
  with written show ?thesis
    using that by (auto elim!: mem_write_Inr)
qed

lemma commit_written:
  assumes "mem_commit j c h s = (Inr u, h', s')" and "cm_events c \<noteq> [] \<or> cm_outcome c \<noteq> None"
  obtains s1 where "check_manifest h s = (Inr (), h', s1)" "s1 = s\<lparr>mr_manifest := mr_manifest s1\<rparr>"
    "writable j [c]" "validate j c = Inr ()"
    "write_checks s1 [c] [] (cm_views c) (stored_outcome c) (\<lambda>_. Inr ()) = Inr ()"
    "s' = write_apply s1 [c] (cm_views c) (stored_outcome c)"
  using assms(1)
proof (cases rule: mem_commit_cases)
  case (failed e)
  then show ?thesis
    by simp
next
  case noop
  then show ?thesis
    using assms by simp
next
  case written
  then show ?thesis
    using that by (auto elim!: mem_write_Inr)
qed

text \<open>A commit is accepted only when its first event follows the stream's head.\<close>

lemma written_head:
  assumes "writable j streams" and "write_checks s streams fences views outcome retention = Inr ()"
    and "c \<in> set streams" and "cm_events c \<noteq> []"
  shows "ms_head (stream_of s (cm_entity_id c)) = ev_sequence (hd (cm_events c)) - 1"
proof -
  have "rank (write_failures s streams fences) = None"
    using assms(2) by (simp add: write_checks_Inr)
  then have "stream_failure (stream_of s (cm_entity_id c)) c = None"
    using assms(3,4) by (rule write_failures_None(1))
  moreover have "1 \<le> ev_sequence (hd (cm_events c))"
    using assms validate_events [of j c] by (auto simp: writable_def well_formed_events_def)
  ultimately show ?thesis
    by (rule stream_failure_None(1))
qed

text \<open>In a healthy store every ranked failure is a conflict: drift is never reported.\<close>

lemma stream_failure_conflict:
  assumes ok: "stream_ok (cm_entity_id c) held" and wf: "well_formed_events (cm_entity_id c) (cm_events c)"
    and ne: "cm_events c \<noteq> []" and "stream_failure held c = Some e"
  shows "is_conflict e"
proof -
  let ?first = "ev_sequence (hd (cm_events c))"
  have seqs: "ev_sequence ` set (cm_events c) = {?first..ev_sequence (last (cm_events c))}"
    using wf ne by (intro contiguous_set) (simp_all add: well_formed_events_def)
  have "\<not> bt_contains (ms_events held) (ev_sequence e')"
    if "ms_head held = ?first - 1" "e' \<in> set (cm_events c)" for e'
  proof -
    have "?first \<le> ev_sequence e'"
      using seqs that(2) by (metis atLeastAtMost_iff imageI)
    then show ?thesis
      using ok that(1) by (auto simp: stream_ok_def log_from_def)
  qed
  moreover have "1 \<le> ?first"
    using wf ne by (simp add: well_formed_events_def)
  ultimately show ?thesis
    using assms(4) stream_ok_probe [OF ok]
    by (auto simp: stream_failure_def Let_def is_conflict_def gap_or_conflict_def conflict_def
        split: if_splits option.splits)
qed

lemma fence_failure_conflict:
  "stream_ok (rf_entity_id f) held \<Longrightarrow> fence_failure held f = Some e \<Longrightarrow> is_conflict e"
  by (auto simp: fence_failure_def stream_ok_probe split: if_splits)

lemma write_failures_conflict:
  assumes "mem_inv s" and "writable j streams" and "e \<in> set (write_failures s streams fences)"
  shows "is_conflict e"
proof -
  have ok: "stream_ok entity (stream_of s entity)" for entity
    using assms(1) by (simp add: mem_inv_def stream_of_ok)
  have mapf: "x \<in> set (List.map_filter g xs) \<longleftrightarrow> (\<exists>y \<in> set xs. g y = Some x)" for x g and xs :: "'z list"
    by (induction xs) (auto simp: List.map_filter_def)
  consider c where "c \<in> set streams" "cm_events c \<noteq> []" "stream_failure (stream_of s (cm_entity_id c)) c = Some e"
    | f where "fence_failure (stream_of s (rf_entity_id f)) f = Some e"
    using assms(3) unfolding write_failures_def by (auto simp: mapf has_events_def split: if_splits)
  then show ?thesis
  proof cases
    case 1
    then show ?thesis
      using assms(2) validate_events by (intro stream_failure_conflict [OF ok]) (auto simp: writable_def)
  next
    case 2
    then show ?thesis
      using fence_failure_conflict ok by blast
  qed
qed

section \<open>Reading back what a commit wrote\<close>

lemma append_events_read:
  assumes ok: "stream_ok (cm_entity_id c) held" and wf: "well_formed_events (cm_entity_id c) (cm_events c)"
    and ne: "cm_events c \<noteq> []" and head: "ms_head held = ev_sequence (hd (cm_events c)) - 1"
  shows "map snd (filter (\<lambda>(k, _). ms_head held < k) (ms_events (append_events c held))) = cm_events c"
proof -
  let ?new = "map (\<lambda>e. (ev_sequence e, e)) (cm_events c)" and ?log = "ms_events (append_events c held)"
  have con: "contiguous (cm_events c)"
    using wf by (simp add: well_formed_events_def)
  have new: "bt_wf ?new"
    using con by (auto simp: bt_wf_def contiguous_def sorted_wrt_iff_nth_less comp_def)
  have log: "bt_wf ?log"
    using append_events_ok(1) [OF assms] by (simp add: stream_ok_def)
  have "bt_get (filter (\<lambda>(k, _). ms_head held < k) ?log) k = bt_get ?new k" for k
  proof -
    have "bt_get (filter (\<lambda>(k, _). ms_head held < k) ?log) k = (if ms_head held < k then bt_get ?log k else None)"
      using bt_get_retain [OF log, of "\<lambda>k _. ms_head held < k" k]
      by (simp add: bt_retain_def case_prod_unfold split: option.splits)
    also have "\<dots> = bt_get ?new k"
    proof (cases "k \<in> ev_sequence ` set (cm_events c)")
      case True
      then obtain e where e: "e \<in> set (cm_events c)" "k = ev_sequence e"
        by blast
      then have "bt_get ?new k = Some e"
        using bt_get_iff [OF new] by simp
      moreover have "ms_head held < k"
        using True contiguous_set [OF con ne] head by auto
      ultimately show ?thesis
        using append_events_get(1) [OF con e(1)] e(2) by simp
    next
      case False
      then have "bt_get ?new k = None"
        by (auto simp: bt_get_def map_of_eq_None_iff)
      moreover have "ms_head held < k \<Longrightarrow> bt_get (ms_events held) k = None"
        using stream_ok_above [OF ok] by simp
      ultimately show ?thesis
        using append_events_get(2) [OF con False] by simp
    qed
    finally show ?thesis .
  qed
  then have "filter (\<lambda>(k, _). ms_head held < k) ?log = ?new"
    by (intro bt_ext wf_intros log new)
  then show ?thesis
    by (simp add: comp_def)
qed

lemma written_stream:
  assumes inv: "mem_inv s" and w: "writable j streams"
    and checks: "write_checks s streams fences views outcome retention = Inr ()"
    and c: "c \<in> set streams" "cm_events c \<noteq> []"
  shows "mem_events_after (write_apply s streams views outcome) (cm_entity_id c)
      (ev_sequence (hd (cm_events c)) - 1) = cm_events c"
    and "ms_head (stream_of (write_apply s streams views outcome) (cm_entity_id c)) = ev_sequence (last (cm_events c))"
proof -
  have ok: "stream_ok (cm_entity_id c) (stream_of s (cm_entity_id c))"
    using inv by (simp add: mem_inv_def stream_of_ok)
  have wf: "well_formed_events (cm_entity_id c) (cm_events c)"
    using w c(1) validate_events by (auto simp: writable_def)
  note head = written_head [OF w checks c]
  show "mem_events_after (write_apply s streams views outcome) (cm_entity_id c)
      (ev_sequence (hd (cm_events c)) - 1) = cm_events c"
    using append_events_read [OF ok wf c(2) head] write_apply_stream(1) [OF w c, of s views outcome] head
    by (simp add: mem_events_after_stream)
  show "ms_head (stream_of (write_apply s streams views outcome) (cm_entity_id c)) = ev_sequence (last (cm_events c))"
    using append_events_ok(2) [OF ok wf c(2) head] write_apply_stream(1) [OF w c] by simp
qed

end
