(* ===== verification/Samples.thy ===== *)
theory Samples
  imports Mem_System "HOL-Library.Code_Target_Nat"
begin

text \<open>
  Concrete inputs: a codec, events, commits and systems the theorems are applied to. Natural numbers
  are evaluated in binary here, since sizes and limits are compared.
\<close>

section \<open>A codec\<close>

text \<open>Each character is marked and each string ended, so a list of pairs reads back.\<close>

definition mark_string :: "string \<Rightarrow> bytes" where
  "mark_string s = concat (map (\<lambda>c. [CHR ''x'', c]) s) @ ''.''"

definition mark_map :: "(string, string) btree \<Rightarrow> bytes" where
  "mark_map m = concat (map (\<lambda>(k, v). mark_string k @ mark_string v) m) @ ''!''"

fun read_string :: "bytes \<Rightarrow> string \<times> bytes" where
  "read_string (m # c # rest) =
    (if m = CHR ''x'' then (case read_string rest of (s, rest') \<Rightarrow> (c # s, rest')) else ([], c # rest))"
| "read_string _ = ([], [])"

lemma read_mark_string: "rest \<noteq> [] \<Longrightarrow> read_string (mark_string s @ rest) = (s, rest)"
  by (induction s) (auto simp: mark_string_def neq_Nil_conv)

fun read_map :: "nat \<Rightarrow> bytes \<Rightarrow> (string, string) btree" where
  "read_map 0 bytes = []"
| "read_map (Suc n) bytes =
    (case bytes of [] \<Rightarrow> [] | c # _ \<Rightarrow>
       if c = CHR ''!'' then []
       else case read_string bytes of (k, rest) \<Rightarrow>
         (case read_string rest of (v, rest') \<Rightarrow> (k, v) # read_map n rest'))"

lemma mark_map_Cons: "mark_map ((k, v) # m) = mark_string k @ mark_string v @ mark_map m"
  by (simp add: mark_map_def)

lemma mark_map_nonempty [simp]: "mark_map m \<noteq> []" "mark_string s @ rest \<noteq> []"
  by (simp_all add: mark_map_def mark_string_def)

lemma hd_mark_string: "hd (mark_string s @ rest) \<noteq> CHR ''!''"
  by (cases s) (simp_all add: mark_string_def)

lemma read_mark_map: "length m \<le> n \<Longrightarrow> read_map (Suc n) (mark_map m) = m"
proof (induction m arbitrary: n)
  case Nil
  then show ?case
    by (simp add: mark_map_def)
next
  case (Cons e m)
  obtain k v where e: "e = (k, v)"
    by (cases e)
  obtain n' where n': "n = Suc n'"
    using Cons.prems by (cases n) auto
  obtain c cs where "mark_map ((k, v) # m) = c # cs" "c \<noteq> CHR ''!''"
    using hd_mark_string [of k "mark_string v @ mark_map m"]
    by (metis list.collapse mark_map_Cons mark_map_nonempty(2))
  moreover have "read_string (mark_map ((k, v) # m)) = (k, mark_string v @ mark_map m)"
    unfolding mark_map_Cons by (rule read_mark_string) simp
  moreover have "read_string (mark_string v @ mark_map m) = (v, mark_map m)"
    by (rule read_mark_string) simp
  moreover have "read_map (Suc n') (mark_map m) = m"
    using Cons.IH Cons.prems n' by simp
  ultimately show ?case
    by (simp add: e n')
qed

lemma length_mark_map: "length m \<le> length (mark_map m)"
  by (induction m) (auto simp: mark_map_def mark_string_def)

definition sample_codec :: json_codec where
  "sample_codec =
    \<lparr>enc_metadata = (\<lambda>_. ''{}''), enc_strings = concat, enc_rejection = rj_code,
     dec_metadata = (\<lambda>_. Inr None), dec_event_ids = (\<lambda>_. Inr None), dec_targets = (\<lambda>_. None),
     dec_rejection = Inl, enc_features = (\<lambda>_. ''{}''), dec_features = Inl, dec_string_set = Inl,
     enc_string_map = mark_map, dec_string_map = (\<lambda>b. Inr (read_map (Suc (length b)) b))\<rparr>"

lemma sample_cursor_codec: "cursor_codec sample_codec"
  using read_mark_map [OF length_mark_map] by (simp add: cursor_codec_def sample_codec_def)

section \<open>Commits\<close>

definition sample_event :: "entity_id \<Rightarrow> event_sequence \<Rightarrow> serialized_event" where
  "sample_event entity k =
    \<lparr>ev_id = for_event entity k, ev_sequence = k, ev_type = ''opened'', ev_version = 1,
     ev_entity_id = entity, ev_entity_type = ''order'', ev_payload = ''{}'', ev_metadata = default_metadata\<rparr>"

definition sample_commit :: "unit commit" where
  "sample_commit =
    commit_with_outcome
      (commit_with_snapshot (new_commit ''a'' [sample_event ''a'' 1, sample_event ''a'' 2])
         \<lparr>ns_entity_type = ''order'', ns_sequence = 1, ns_payload = ''{}''\<rparr>)
      (accepted_outcome ''c'' ''digest'')"

definition sample_fence :: read_fence where
  "sample_fence = \<lparr>rf_entity_id = ''f'', rf_entity_type = ''order'', rf_head = 0, rf_provenance = Caller\<rparr>"

definition sample_transaction :: "unit transaction_commit" where
  "sample_transaction =
    transaction_with_outcome
      (with_fences
         (new_transaction [new_commit ''b'' [sample_event ''b'' 1], new_commit ''a'' [sample_event ''a'' 3]])
         [sample_fence])
      (accepted_outcome ''d'' ''digest'')"

section \<open>Systems\<close>

definition sample_handle :: mem_handle where
  "sample_handle = \<lparr>mh_validated = Some (Version 1), mh_journaling = False\<rparr>"

text \<open>The store the first commit leaves, and the one the transaction leaves after it.\<close>

definition sample_outcome :: "command_id \<Rightarrow> event_id list \<Rightarrow> outcome" where
  "sample_outcome command ids = (accepted_outcome command ''digest'')\<lparr>oc_event_ids := ids\<rparr>"

definition sample_snapshot :: serialized_snapshot where
  "sample_snapshot =
    \<lparr>sn_entity_type = ''order'', sn_entity_id = ''a'', sn_sequence = 1, sn_event_sequence = 2, sn_payload = ''{}''\<rparr>"

definition sample_store :: mem_store where
  "sample_store =
    \<lparr>mr_streams = [(''a'', \<lparr>ms_events = [(1, sample_event ''a'' 1), (2, sample_event ''a'' 2)],
        ms_snapshot = Some sample_snapshot, ms_head = 2\<rparr>)],
     mr_views = [],
     mr_outcomes = [(''c'', sample_outcome ''c'' [''a:1'', ''a:2''])],
     mr_manifest = Some \<lparr>fm_version = 1, fm_features = [(''stream-heads'', 1)], fm_history_dependent = [],
        fm_retention = []\<rparr>,
     mr_rebuild = default_rebuild_state\<rparr>"

definition later_store :: mem_store where
  "later_store = sample_store
    \<lparr>mr_streams :=
       [(''a'', \<lparr>ms_events = [(1, sample_event ''a'' 1), (2, sample_event ''a'' 2), (3, sample_event ''a'' 3)],
          ms_snapshot = Some sample_snapshot, ms_head = 3\<rparr>),
        (''b'', \<lparr>ms_events = [(1, sample_event ''b'' 1)], ms_snapshot = None, ms_head = 1\<rparr>)],
     mr_outcomes := [(''c'', sample_outcome ''c'' [''a:1'', ''a:2'']), (''d'', sample_outcome ''d'' [''a:3'', ''b:1''])]\<rparr>"

lemma sample_commit_runs:
  "mem_commit sample_codec sample_commit new_handle new_store = (Inr (), sample_handle, sample_store)"
  by code_simp

lemma sample_transaction_runs:
  "mem_commit_transaction sample_codec sample_transaction sample_handle sample_store =
    (Inr (), sample_handle, later_store)"
  by code_simp

definition sample_system :: mem_system where
  "sample_system = \<lparr>sy_store = sample_store, sy_handles = [sample_handle]\<rparr>"

lemma sample_system_simps [simp]:
  "sy_store sample_system = sample_store" "sy_handles sample_system = [sample_handle]"
  by (simp_all add: sample_system_def)

lemma reachable_new: "reachable j new_system"
  by (simp add: reachable_def mem_steps_def)

lemma reachable_sample: "reachable sample_codec sample_system"
proof -
  have "mem_step sample_codec new_system (handle_step 0 (mem_commit sample_codec sample_commit) new_system)"
    by (rule mem_step.commit) (simp add: new_system_def)
  moreover have "handle_step 0 (mem_commit sample_codec sample_commit) new_system = sample_system"
    by (simp add: handle_step_def new_system_def sample_commit_runs sample_system_def)
  ultimately show ?thesis
    by (simp add: reachable_def mem_steps_def r_into_rtranclp)
qed

end
