(* ===== verification/Mem_Correct.thy ===== *)
theory Mem_Correct
  imports Samples
begin

text \<open>
  What the in-memory repository promises: of every store its operations can reach, of a commit and a
  transaction, of compaction, of the rebuild fence and of the paged view listings.
\<close>

lemma normalize_outcome_id:
  assumes "normalize j t = Inr t'" and "transaction_stored_outcome t' = Some o'"
  shows "check_command_id (oc_command_id o') = Inr ()"
proof -
  have "tc_outcome t' = tc_outcome t"
    using assms(1) by (auto simp: normalize_Inr normal_form_def Let_def)
  then obtain o1 where o1: "tc_outcome t = Some o1" "oc_command_id o' = oc_command_id o1"
    using assms(2) by (auto simp: transaction_stored_outcome_def stored_outcome_of_def split: option.splits)
  then have "check_outcome j o1 = Inr ()"
    using assms(1) by (simp add: normalize_Inr)
  then show ?thesis
    using o1(2) by (auto simp: check_outcome_def and_then_def split: sum.splits)
qed

section \<open>Every reachable store\<close>

text \<open>C8: in every store any interleaving of calls can reach, a stream's stored head is the head its log
  and snapshot show (no drift), and its log holds every sequence from some point up to the head, with
  a snapshot covering what is missing below.\<close>

theorem reachable_streams_agree_with_their_heads:
  assumes "reachable j y" and "st = stream_of (sy_store y) entity"
  shows "derived_head st = ms_head st
    \<and> (\<exists>lo \<ge> 0. (\<forall>k. bt_contains (ms_events st) k \<longleftrightarrow> lo < k \<and> k \<le> ms_head st)
        \<and> (lo = 0 \<or> covered_by_snapshot st lo))"
proof -
  have "stream_ok entity st"
    using assms reachable_stream_ok by simp
  then show ?thesis
    using stream_ok_head by (auto simp: stream_ok_def log_from_def covered_by_snapshot_def)
qed

theorem reachable_streams_agree_with_their_heads_witness:
  "ms_head (stream_of sample_store ''a'') = 2
    \<and> derived_head (stream_of sample_store ''a'') = 2"
proof -
  have "ms_head (stream_of sample_store ''a'') = 2"
    by code_simp
  then show ?thesis
    using reachable_streams_agree_with_their_heads [OF reachable_sample refl, of "''a''"] by simp
qed

text \<open>C9: a log is append-only: whatever calls follow, a stored event stays as it is, or is gone because
  a snapshot that covers it is stored; no head moves back, and no recorded outcome changes.\<close>

theorem stored_history_is_kept:
  assumes "reachable j y" and "mem_steps j y y'"
  shows "(\<forall>k e. bt_get (ms_events (stream_of (sy_store y) entity)) k = Some e \<longrightarrow>
        bt_get (ms_events (stream_of (sy_store y') entity)) k = Some e
        \<or> bt_get (ms_events (stream_of (sy_store y') entity)) k = None
          \<and> covered_by_snapshot (stream_of (sy_store y') entity) k)
    \<and> ms_head (stream_of (sy_store y) entity) \<le> ms_head (stream_of (sy_store y') entity)
    \<and> (\<forall>command o'. bt_get (mr_outcomes (sy_store y)) command = Some o' \<longrightarrow>
        bt_get (mr_outcomes (sy_store y')) command = Some o')"
proof -
  have ext: "store_extends (sy_store y) (sy_store y')"
    using steps_extend [OF assms(2) reachable_inv [OF assms(1)]] by blast
  then have stream: "stream_extends (stream_of (sy_store y) entity) (stream_of (sy_store y') entity)"
    by (simp add: store_extends_def)
  have event: "bt_get (ms_events (stream_of (sy_store y') entity)) k = Some e
      \<or> bt_get (ms_events (stream_of (sy_store y') entity)) k = None
        \<and> covered_by_snapshot (stream_of (sy_store y') entity) k"
    if e: "bt_get (ms_events (stream_of (sy_store y) entity)) k = Some e" for k e
  proof -
    have "bt_contains (ms_events (stream_of (sy_store y) entity)) k"
      using e by (simp add: bt_contains_def)
    then have "k \<le> ms_head (stream_of (sy_store y) entity)"
      using reachable_stream_ok [OF assms(1), of entity] by (auto simp: stream_ok_def log_from_def)
    then show ?thesis
      using stream e unfolding stream_extends_def by fastforce
  qed
  have "ms_head (stream_of (sy_store y) entity) \<le> ms_head (stream_of (sy_store y') entity)"
    using stream by (simp add: stream_extends_def)
  moreover have "\<forall>command o'. bt_get (mr_outcomes (sy_store y)) command = Some o' \<longrightarrow>
      bt_get (mr_outcomes (sy_store y')) command = Some o'"
    using ext by (simp add: store_extends_def)
  ultimately show ?thesis
    using event by blast
qed

definition compacted_system :: mem_system where
  "compacted_system = store_step (mem_compact_below ''a'' 1 sample_handle) sample_system"

theorem stored_history_is_kept_witness:
  "bt_get (ms_events (stream_of (sy_store compacted_system) ''a'')) 1 = None
    \<and> covered_by_snapshot (stream_of (sy_store compacted_system) ''a'') 1"
proof -
  have "mem_step sample_codec sample_system compacted_system"
    using mem_step.compact [of 0 sample_system sample_codec "''a''" 1] by (simp add: compacted_system_def)
  then have steps: "mem_steps sample_codec sample_system compacted_system"
    by (simp add: mem_steps_def r_into_rtranclp)
  have "bt_get (ms_events (stream_of (sy_store sample_system) ''a'')) 1 = Some (sample_event ''a'' 1)"
    by code_simp
  moreover have "bt_get (ms_events (stream_of (sy_store compacted_system) ''a'')) 1 = None"
    by code_simp
  ultimately show ?thesis
    using stored_history_is_kept [OF reachable_sample steps, of "''a''"] by fastforce
qed

section \<open>Commits and transactions\<close>

text \<open>C10: a commit or a transaction that fails has written nothing: streams, views, outcomes and the
  rebuild state are as they were. Only the feature marker may have been declared.\<close>

theorem failed_writes_change_no_data:
  "(mem_commit j c h s = (Inl e, h', s') \<longrightarrow> s' = s\<lparr>mr_manifest := mr_manifest s'\<rparr>)
    \<and> (mem_commit_transaction j t h s = (Inl e, h', s') \<longrightarrow> s' = s\<lparr>mr_manifest := mr_manifest s'\<rparr>)"
  by (auto elim: mem_commit_cases mem_transaction_cases)

text \<open>A commit of an event the stream already holds.\<close>

definition again :: "(error + unit) \<times> mem_handle \<times> mem_store" where
  "again = mem_commit sample_codec (new_commit ''a'' [sample_event ''a'' 2] :: unit commit) new_handle sample_store"

theorem failed_writes_change_no_data_witness:
  "\<not> is_ok (fst again) \<and> mr_streams (snd (snd again)) = mr_streams sample_store"
proof -
  have failed: "\<not> is_ok (fst again)"
    by code_simp
  then obtain e where "fst again = Inl e"
    by (cases "fst again") auto
  then have "again = (Inl e, fst (snd again), snd (snd again))"
    by (metis prod.collapse)
  then have "snd (snd again) = sample_store\<lparr>mr_manifest := mr_manifest (snd (snd again))\<rparr>"
    using failed_writes_change_no_data by (metis again_def)
  then have "mr_streams (snd (snd again)) = mr_streams sample_store"
    by (metis mem_store.select_convs(1) mem_store.surjective mem_store.update_convs(4))
  then show ?thesis
    using failed by simp
qed

text \<open>C11: a transaction that succeeds has applied its whole normal form: every stream it carries reads
  back exactly its events after the old head, and its head is its last event; every other stream is as
  it was; the views and the outcome are the ones it carries.\<close>

theorem transaction_applies_everything:
  assumes "reachable j y" and "mem_commit_transaction j t h (sy_store y) = (Inr (), h', s')"
    and "normalize j t = Inr t'"
  shows "(\<forall>c \<in> set (tc_streams t').
        mem_events_after s' (cm_entity_id c) (ev_sequence (hd (cm_events c)) - 1) = cm_events c
        \<and> ms_head (stream_of s' (cm_entity_id c)) = ev_sequence (last (cm_events c)))
    \<and> (\<forall>entity. entity \<notin> cm_entity_id ` set (tc_streams t') \<longrightarrow>
        stream_of s' entity = stream_of (sy_store y) entity)
    \<and> mr_views s' = apply_views (mr_views (sy_store y)) (tc_views t')
    \<and> (\<forall>o'. transaction_stored_outcome t' = Some o' \<longrightarrow> mem_outcome s' (oc_command_id o') = Inr (Some o'))"
proof (cases "transaction_is_empty t'")
  case True
  have "s' = sy_store y"
    using assms(2,3) True by (simp add: mem_commit_transaction_def)
  then show ?thesis
    using True by (simp add: transaction_is_empty_def transaction_stored_outcome_def apply_views_def)
next
  case False
  obtain s1 where "check_manifest h (sy_store y) = (Inr (), h', s1)" and s1: "s1 = (sy_store y)\<lparr>mr_manifest := mr_manifest s1\<rparr>"
    and w: "writable j (tc_streams t')"
    and checks: "write_checks s1 (tc_streams t') (tc_fences t') (tc_views t') (transaction_stored_outcome t')
      (\<lambda>m. check_retention t' m (\<lambda>_. False)) = Inr ()"
    and s': "s' = write_apply s1 (tc_streams t') (tc_views t') (transaction_stored_outcome t')"
    by (rule transaction_written [OF assms(2,3) False])
  have "mem_inv (sy_store y)"
    using reachable_inv [OF assms(1)] by (simp add: sys_inv_def)
  then have inv: "mem_inv s1"
    by (subst s1) simp
  have same: "stream_of s1 entity = stream_of (sy_store y) entity" "mr_views s1 = mr_views (sy_store y)" for entity
    by (subst s1, simp add: stream_of_def)+
  have events: "c \<in> set (tc_streams t') \<Longrightarrow> cm_events c \<noteq> []" for c
    using normalize_streams(3) [OF assms(3)] by blast
  have "check_command_id (oc_command_id o') = Inr ()" if "transaction_stored_outcome t' = Some o'" for o'
    using normalize_outcome_id [OF assms(3) that] .
  then have "mem_outcome s' (oc_command_id o') = Inr (Some o')" if "transaction_stored_outcome t' = Some o'" for o'
    using that by (simp add: s' write_apply_def mem_outcome_def bt_get_insert)
  moreover have "stream_of s' entity = stream_of (sy_store y) entity"
    if "entity \<notin> cm_entity_id ` set (tc_streams t')" for entity
  proof -
    have "entity \<notin> cm_entity_id ` {c \<in> set (tc_streams t'). cm_events c \<noteq> []}"
      using that by blast
    then show ?thesis
      unfolding s' using write_apply_stream(2) [OF w] same(1) by simp
  qed
  moreover have "mr_views s' = apply_views (mr_views (sy_store y)) (tc_views t')"
    using same(2) by (simp add: s' write_apply_def)
  ultimately show ?thesis
    using written_stream [OF inv w checks _ events] unfolding s' by blast
qed

theorem transaction_applies_everything_witness:
  "mem_events_after later_store ''a'' 2 = [sample_event ''a'' 3]
    \<and> stream_of later_store ''f'' = stream_of sample_store ''f''"
proof -
  have norm: "normalize sample_codec sample_transaction = Inr (normal_form sample_transaction)"
    by code_simp
  have streams: "tc_streams (normal_form sample_transaction) =
      [new_commit ''a'' [sample_event ''a'' 3], new_commit ''b'' [sample_event ''b'' 1]]"
    by code_simp
  have "ev_sequence (sample_event ''a'' 3) = 3"
    by (simp add: sample_event_def)
  then show ?thesis
    using transaction_applies_everything [OF reachable_sample _ norm, of sample_handle sample_handle later_store]
    by (simp add: sample_transaction_runs streams new_commit_def)
qed

text \<open>C12: optimistic concurrency: a transaction that writes succeeds only when every stream it writes is
  exactly at the sequence before its first event, every stream it fences is at the fenced head, no
  rebuild holds the fence, and its command has no recorded outcome.\<close>

theorem transaction_needs_current_heads:
  assumes "mem_commit_transaction j t h s = (Inr (), h', s')" and "normalize j t = Inr t'"
    and "\<not> transaction_is_empty t'"
  shows "(\<forall>c \<in> set (tc_streams t'). ms_head (stream_of s (cm_entity_id c)) = ev_sequence (hd (cm_events c)) - 1)
    \<and> (\<forall>f \<in> set (tc_fences t'). ms_head (stream_of s (rf_entity_id f)) = rf_head f)
    \<and> rs_lock (mr_rebuild s) = None \<and> is_settled (rs_generation (mr_rebuild s))
    \<and> (\<forall>o'. transaction_stored_outcome t' = Some o' \<longrightarrow> bt_get (mr_outcomes s) (oc_command_id o') = None)"
proof -
  obtain s1 where "check_manifest h s = (Inr (), h', s1)" and s1: "s1 = s\<lparr>mr_manifest := mr_manifest s1\<rparr>"
    and w: "writable j (tc_streams t')"
    and checks: "write_checks s1 (tc_streams t') (tc_fences t') (tc_views t') (transaction_stored_outcome t')
      (\<lambda>m. check_retention t' m (\<lambda>_. False)) = Inr ()"
    and "s' = write_apply s1 (tc_streams t') (tc_views t') (transaction_stored_outcome t')"
    by (rule transaction_written [OF assms])
  have same: "stream_of s1 entity = stream_of s entity" "mr_rebuild s1 = mr_rebuild s"
    "mr_outcomes s1 = mr_outcomes s" for entity
    by (subst s1, simp add: stream_of_def)+
  have "rank (write_failures s1 (tc_streams t') (tc_fences t')) = None"
    using checks by (simp add: write_checks_Inr)
  then have "ms_head (stream_of s (rf_entity_id f)) = rf_head f" if "f \<in> set (tc_fences t')" for f
    using write_failures_None(2) [of s1 "tc_streams t'" "tc_fences t'" f] normalize_fences(3) [OF assms(2) that] that same
    by auto
  moreover have "ms_head (stream_of s (cm_entity_id c)) = ev_sequence (hd (cm_events c)) - 1"
    if "c \<in> set (tc_streams t')" for c
    using written_head [OF w checks that] normalize_streams(3) [OF assms(2) that] same by simp
  ultimately show ?thesis
    using checks same by (auto simp: write_checks_Inr)
qed

theorem transaction_needs_current_heads_witness:
  "ms_head (stream_of sample_store ''f'') = 0 \<and> ms_head (stream_of sample_store ''a'') = 2"
proof -
  have norm: "normalize sample_codec sample_transaction = Inr (normal_form sample_transaction)"
    by code_simp
  have nf: "tc_streams (normal_form sample_transaction) =
      [new_commit ''a'' [sample_event ''a'' 3], new_commit ''b'' [sample_event ''b'' 1]]"
    "tc_fences (normal_form sample_transaction) = [sample_fence]"
    by code_simp+
  have "ev_sequence (sample_event ''a'' 3) = 3" "rf_entity_id sample_fence = ''f''" "rf_head sample_fence = 0"
    by (simp_all add: sample_event_def sample_fence_def)
  then show ?thesis
    using transaction_needs_current_heads [OF sample_transaction_runs norm]
    by (simp add: nf transaction_is_empty_def new_commit_def)
qed

end
