(* ===== verification/Mem_Services.thy ===== *)
theory Mem_Services
  imports Mem_Correct
begin

text \<open>
  What the in-memory repository promises across calls: the errors a healthy store reports, commands
  recorded once, the feature gate, compaction, the rebuild fence with its leases and reader epochs,
  and the paged view listings.
\<close>

section \<open>Errors, outcomes and the feature gate\<close>

text \<open>C23: a write that races with another reports a conflict: in a reachable store, whatever head or
  fence check a transaction fails, the error it reports is a conflict, which callers retry, and never
  drift, which needs an operator.\<close>

theorem reachable_store_reports_conflicts:
  assumes "reachable j y" and "normalize j t = Inr t'"
    and "rank (write_failures (sy_store y) (tc_streams t') (tc_fences t')) = Some e"
  shows "is_conflict e"
proof -
  have "writable j (tc_streams t')"
    using normalize_streams [OF assms(2)] by (simp add: writable_def)
  moreover have "mem_inv (sy_store y)"
    using reachable_inv [OF assms(1)] by (simp add: sys_inv_def)
  ultimately show ?thesis
    using rank_mem [OF assms(3)] write_failures_conflict by blast
qed

definition stale_transaction :: "unit transaction_commit" where
  "stale_transaction = new_transaction [new_commit ''a'' [sample_event ''a'' 2]]"

theorem reachable_store_reports_conflicts_witness:
  "\<exists>e. rank (write_failures sample_store (tc_streams stale_transaction) []) = Some e \<and> is_conflict e"
proof -
  have norm: "normalize sample_codec stale_transaction = Inr stale_transaction"
    by code_simp
  have "rank (write_failures sample_store (tc_streams stale_transaction) []) \<noteq> None"
    by code_simp
  then obtain e where e: "rank (write_failures sample_store (tc_streams stale_transaction) []) = Some e"
    by blast
  have "tc_fences stale_transaction = []"
    by (simp add: stale_transaction_def new_transaction_def)
  then have "is_conflict e"
    using reachable_store_reports_conflicts [OF reachable_sample norm] e by simp
  then show ?thesis
    using e by blast
qed

text \<open>C17: a command is recorded at most once: once its outcome is stored, no later call changes it, and
  every later transaction that carries the command fails.\<close>

theorem recorded_command_never_runs_again:
  assumes "reachable j y" and "mem_steps j y y'"
    and "bt_get (mr_outcomes (sy_store y)) command = Some o'"
    and "tc_outcome t = Some o2" and "oc_command_id o2 = command"
  shows "bt_get (mr_outcomes (sy_store y')) command = Some o'
    \<and> \<not> is_ok (fst (mem_commit_transaction j t h (sy_store y')))"
proof -
  have kept: "bt_get (mr_outcomes (sy_store y')) command = Some o'"
    using steps_extend [OF assms(2) reachable_inv [OF assms(1)]] assms(3) by (simp add: store_extends_def)
  have False if ok: "fst (mem_commit_transaction j t h (sy_store y')) = Inr ()"
  proof -
    obtain h' s' where run: "mem_commit_transaction j t h (sy_store y') = (Inr (), h', s')"
      using ok by (metis prod.collapse)
    then obtain t' where norm: "normalize j t = Inr t'"
      by (auto simp: mem_commit_transaction_def split: sum.splits)
    then have outcome: "tc_outcome t' = Some o2"
      using assms(4) by (auto simp: normalize_Inr normal_form_def Let_def)
    then have "\<not> transaction_is_empty t'"
      by (simp add: transaction_is_empty_def)
    then obtain s1 where "check_manifest h (sy_store y') = (Inr (), h', s1)"
      and s1: "s1 = (sy_store y')\<lparr>mr_manifest := mr_manifest s1\<rparr>" and "writable j (tc_streams t')"
      and checks: "write_checks s1 (tc_streams t') (tc_fences t') (tc_views t') (transaction_stored_outcome t')
        (\<lambda>m. check_retention t' m (\<lambda>_. False)) = Inr ()"
      and "s' = write_apply s1 (tc_streams t') (tc_views t') (transaction_stored_outcome t')"
      by (rule transaction_written [OF run norm])
    have "mr_outcomes s1 = mr_outcomes (sy_store y')"
      by (subst s1) simp
    then show False
      using checks kept outcome assms(5)
      by (auto simp: write_checks_Inr transaction_stored_outcome_def stored_outcome_of_def)
  qed
  then show ?thesis
    using kept by (auto simp: is_ok_iff)
qed

definition repeated_command :: "unit transaction_commit" where
  "repeated_command = transaction_with_outcome (new_transaction []) (accepted_outcome ''c'' ''other'')"

theorem recorded_command_never_runs_again_witness:
  "bt_get (mr_outcomes sample_store) ''c'' = Some (sample_outcome ''c'' [''a:1'', ''a:2''])
    \<and> \<not> is_ok (fst (mem_commit_transaction sample_codec repeated_command new_handle sample_store))"
proof -
  have steps: "mem_steps sample_codec sample_system sample_system"
    by (simp add: mem_steps_def)
  have stored: "bt_get (mr_outcomes (sy_store sample_system)) ''c'' = Some (sample_outcome ''c'' [''a:1'', ''a:2''])"
    by (simp add: sample_store_def bt_get_def)
  have command: "tc_outcome repeated_command = Some (accepted_outcome ''c'' ''other'')"
    "oc_command_id (accepted_outcome ''c'' ''other'') = ''c''"
    by (simp_all add: repeated_command_def transaction_with_outcome_def accepted_outcome_def)
  show ?thesis
    using recorded_command_never_runs_again [OF reachable_sample steps stored command, of new_handle] by simp
qed

text \<open>C24: the feature gate: when a handle of a reachable system writes, the marker the store then holds
  passes the validation of a write with that handle, although the handle skips the validation while
  the marker's version is the one it cached.\<close>

theorem writes_pass_the_feature_gate:
  assumes "reachable j y" and "h \<in> set (sy_handles y)"
    and "mem_commit_transaction j t h (sy_store y) = (Inr (), h', s')"
    and "normalize j t = Inr t'" and "\<not> transaction_is_empty t'"
  shows "\<exists>v. validate_marker_for_write (mr_manifest s') (mh_journaling h) = Inr v"
proof -
  have ok: "handle_ok (mr_manifest (sy_store y)) h"
    using reachable_inv [OF assms(1)] assms(2) by (simp add: sys_inv_def)
  obtain s1 where cm: "check_manifest h (sy_store y) = (Inr (), h', s1)"
    and "s1 = (sy_store y)\<lparr>mr_manifest := mr_manifest s1\<rparr>" "writable j (tc_streams t')"
    "write_checks s1 (tc_streams t') (tc_fences t') (tc_views t') (transaction_stored_outcome t')
      (\<lambda>m. check_retention t' m (\<lambda>_. False)) = Inr ()"
    "s' = write_apply s1 (tc_streams t') (tc_views t') (transaction_stored_outcome t')"
    by (rule transaction_written [OF assms(3,4,5)])
  then show ?thesis
    using check_manifest_handle(2,3) [OF cm ok] by (simp add: write_apply_def)
qed

theorem writes_pass_the_feature_gate_witness:
  "\<exists>v. validate_marker_for_write (mr_manifest later_store) (mh_journaling sample_handle) = Inr v"
proof -
  have norm: "normalize sample_codec sample_transaction = Inr (normal_form sample_transaction)"
    by code_simp
  have "\<not> transaction_is_empty (normal_form sample_transaction)"
    by code_simp
  then show ?thesis
    using writes_pass_the_feature_gate [OF reachable_sample _ _ norm, of sample_handle sample_handle later_store]
    by (simp add: sample_transaction_runs)
qed

section \<open>Compaction\<close>

text \<open>C19: compaction removes only what a snapshot covers: the events after \<open>through\<close>, the snapshot, the
  head and every other stream are as they were, the count it returns is the number of events it removed,
  and it removes none unless a snapshot reaches \<open>through\<close>.\<close>

theorem compaction_keeps_the_uncovered_tail:
  assumes "reachable j y" and "mem_compact_below entity through h (sy_store y) = (Inr n, s')"
  shows "(\<forall>other after. other \<noteq> entity \<or> through \<le> after \<longrightarrow>
        mem_events_after s' other after = mem_events_after (sy_store y) other after)
    \<and> mem_snapshot s' entity = mem_snapshot (sy_store y) entity
    \<and> ms_head (stream_of s' entity) = ms_head (stream_of (sy_store y) entity)
    \<and> n = length (ms_events (stream_of (sy_store y) entity)) - length (ms_events (stream_of s' entity))
    \<and> (0 < n \<longrightarrow> covered_by_snapshot (stream_of (sy_store y) entity) through)"
  using assms(2)
proof (cases rule: mem_compact_below_cases)
  case unchanged
  then show ?thesis
    by simp
next
  case (compacted st sn)
  then have st: "stream_of (sy_store y) entity = st" "stream_of s' entity = compact_stream through st"
    "\<And>other. other \<noteq> entity \<Longrightarrow> stream_of s' other = stream_of (sy_store y) other"
    by (simp_all add: stream_of_def bt_get_insert)
  have "mem_events_after s' other after = mem_events_after (sy_store y) other after"
    if "other \<noteq> entity \<or> through \<le> after" for other after
  proof (cases "other = entity")
    case True
    then have "filter (\<lambda>(k, _). after < k) (ms_events (compact_stream through st)) =
        filter (\<lambda>(k, _). after < k) (ms_events st)"
      using that by (auto simp: compact_stream_def bt_retain_def intro!: filter_cong)
    then show ?thesis
      using True st by (simp add: mem_events_after_stream)
  next
    case False
    then show ?thesis
      using st by (simp add: mem_events_after_stream)
  qed
  then show ?thesis
    using compacted st
    by (simp add: mem_snapshot_def compact_stream_def bt_get_insert covered_by_snapshot_def)
qed

definition compacted_store :: mem_store where
  "compacted_store = sample_store\<lparr>mr_streams := [(''a'', \<lparr>ms_events = [(2, sample_event ''a'' 2)],
     ms_snapshot = Some sample_snapshot, ms_head = 2\<rparr>)]\<rparr>"

theorem compaction_keeps_the_uncovered_tail_witness:
  "mem_compact_below ''a'' 1 sample_handle sample_store = (Inr 1, compacted_store)
    \<and> mem_events_after compacted_store ''a'' 1 = mem_events_after sample_store ''a'' 1"
proof -
  have run: "mem_compact_below ''a'' 1 sample_handle (sy_store sample_system) = (Inr 1, compacted_store)"
    by code_simp
  then show ?thesis
    using compaction_keeps_the_uncovered_tail [OF reachable_sample run] by simp
qed

section \<open>The rebuild fence\<close>

lemma stale_lease_holds_nothing:
  assumes "rebuild_ok r" and "le_generation l < rg_value (rs_generation r)"
  shows "\<And>lock. rs_lock r = Some lock \<Longrightarrow> \<not> lease_holds l lock"
  using assms by (auto simp: rebuild_ok_def lease_holds_def)

lemma begin_generation:
  assumes "mem_begin_rebuild now owner lease s = (Inr l, s')"
  shows "rg_value (rs_generation (mr_rebuild s)) < le_generation l"
    and "rg_value (rs_generation (mr_rebuild s')) = le_generation l"
proof -
  obtain plan where "decide (mr_rebuild s) now = Inr plan"
    "le_generation l = rg_value (rs_generation (mr_rebuild s)) + pl_increment plan"
    and gen: "rs_generation (mr_rebuild s') = (rs_generation (mr_rebuild s))\<lparr>rg_value := le_generation l\<rparr>"
    using assms by (rule mem_begin_rebuild_Inr)
  then show "rg_value (rs_generation (mr_rebuild s)) < le_generation l"
    using decide_Inr(1) by fastforce
  show "rg_value (rs_generation (mr_rebuild s')) = le_generation l"
    using gen by simp
qed

lemma store_step_reachable: "reachable j y \<Longrightarrow> mem_step j y (store_step f y) \<Longrightarrow> reachable j (store_step f y)"
  unfolding reachable_def mem_steps_def by (rule rtranclp.rtrancl_into_rtrancl)

lemma steps_reachable: "reachable j y \<Longrightarrow> mem_steps j y y' \<Longrightarrow> reachable j y'"
  unfolding reachable_def mem_steps_def by (rule rtranclp_trans)

lemma begin_steps_generation:
  assumes "reachable j y" and "fst (mem_begin_rebuild now owner period (sy_store y)) = Inr l"
    and "mem_steps j (store_step (mem_begin_rebuild now owner period) y) y'"
  shows "reachable j y'" and "rg_value (rs_generation (mr_rebuild (sy_store y))) < le_generation l"
    and "le_generation l \<le> rg_value (rs_generation (mr_rebuild (sy_store y')))"
proof -
  let ?y = "store_step (mem_begin_rebuild now owner period) y"
  have run: "mem_begin_rebuild now owner period (sy_store y) = (Inr l, sy_store ?y)"
    using assms(2) by (simp add: store_step_def prod_eq_iff)
  have reach: "reachable j ?y"
    by (rule store_step_reachable [OF assms(1) mem_step.begin_rebuild])
  then show "reachable j y'"
    using assms(3) by (rule steps_reachable)
  show "rg_value (rs_generation (mr_rebuild (sy_store y))) < le_generation l"
    by (rule begin_generation(1) [OF run])
  have "store_extends (sy_store ?y) (sy_store y')"
    using steps_extend [OF assms(3) reachable_inv [OF reach]] by blast
  then show "le_generation l \<le> rg_value (rs_generation (mr_rebuild (sy_store y')))"
    using begin_generation(2) [OF run] by (simp add: store_extends_def)
qed

lemma reachable_rebuild_ok: "reachable j y \<Longrightarrow> rebuild_ok (mr_rebuild (sy_store y))"
  using reachable_inv by (auto simp: sys_inv_def mem_inv_def)

text \<open>A lease the stored lock does not match is refused by every call, which leaves the store as it is.\<close>

lemma lost_lease_refused:
  assumes "\<And>lock. rs_lock (mr_rebuild s) = Some lock \<Longrightarrow> \<not> lease_holds l lock"
  shows "\<not> is_ok (fst (mem_write_rebuild_views now l views s)) \<and> snd (mem_write_rebuild_views now l views s) = s"
    and "\<not> is_ok (fst (mem_renew_rebuild now l period s)) \<and> snd (mem_renew_rebuild now l period s) = s"
    and "\<not> is_ok (fst (mem_end_rebuild l s)) \<and> snd (mem_end_rebuild l s) = s"
  using assms
  by (auto simp: mem_write_rebuild_views_def mem_renew_rebuild_def mem_end_rebuild_def mem_release_def Let_def
      and_then_def ensure_def is_ok_def split: sum.splits option.splits if_splits)

text \<open>C16: leases are fencing tokens: once another rebuild has begun after a lease was given out, that
  lease can never again write views, renew, or end a rebuild, whatever happens in between and
  whatever the clock shows, and its calls leave the store as it is.\<close>

theorem stale_lease_is_fenced:
  assumes "reachable j y1" and "fst (mem_begin_rebuild now1 owner1 period1 (sy_store y1)) = Inr l1"
    and "mem_steps j (store_step (mem_begin_rebuild now1 owner1 period1) y1) y2"
    and "fst (mem_begin_rebuild now2 owner2 period2 (sy_store y2)) = Inr l2"
    and "mem_steps j (store_step (mem_begin_rebuild now2 owner2 period2) y2) y3"
  shows "\<not> is_ok (fst (mem_write_rebuild_views now l1 views (sy_store y3)))
    \<and> snd (mem_write_rebuild_views now l1 views (sy_store y3)) = sy_store y3
    \<and> \<not> is_ok (fst (mem_renew_rebuild now l1 period (sy_store y3)))
    \<and> snd (mem_renew_rebuild now l1 period (sy_store y3)) = sy_store y3
    \<and> \<not> is_ok (fst (mem_end_rebuild l1 (sy_store y3)))
    \<and> snd (mem_end_rebuild l1 (sy_store y3)) = sy_store y3"
proof -
  note first = begin_steps_generation [OF assms(1-3)]
  note second = begin_steps_generation [OF first(1) assms(4,5)]
  have "le_generation l1 < rg_value (rs_generation (mr_rebuild (sy_store y3)))"
    using first(3) second(2,3) by linarith
  then show ?thesis
    using lost_lease_refused stale_lease_holds_nothing [OF reachable_rebuild_ok [OF second(1)]] by simp
qed

definition first_rebuild :: mem_system where
  "first_rebuild = store_step (mem_begin_rebuild 0 ''one'' 1000000000) sample_system"

definition second_rebuild :: mem_system where
  "second_rebuild = store_step (mem_begin_rebuild 10 ''two'' 1000000000) first_rebuild"

theorem stale_lease_is_fenced_witness:
  "\<not> is_ok (fst (mem_end_rebuild \<lparr>le_owner = ''one'', le_generation = 1, le_lease_expires_at = 1\<rparr>
      (sy_store second_rebuild)))"
proof -
  have one: "fst (mem_begin_rebuild 0 ''one'' 1000000000 (sy_store sample_system)) =
      Inr \<lparr>le_owner = ''one'', le_generation = 1, le_lease_expires_at = 1\<rparr>"
    by code_simp
  have two: "fst (mem_begin_rebuild 10 ''two'' 1000000000 (sy_store first_rebuild)) =
      Inr \<lparr>le_owner = ''two'', le_generation = 3, le_lease_expires_at = 11\<rparr>"
    by code_simp
  have "mem_steps sample_codec (store_step (mem_begin_rebuild 0 ''one'' 1000000000) sample_system) first_rebuild"
    "mem_steps sample_codec (store_step (mem_begin_rebuild 10 ''two'' 1000000000) first_rebuild) second_rebuild"
    by (simp_all add: mem_steps_def first_rebuild_def second_rebuild_def)
  then show ?thesis
    using stale_lease_is_fenced [OF reachable_sample one _ two] by blast
qed

text \<open>C20: reader epochs: when a reader observes an epoch and later verifies it, no rebuild held the fence
  at any moment in between, and no rebuild wrote a view.\<close>

theorem verified_epoch_saw_no_rebuild:
  assumes "reachable j y" and "epoch_observe (rs_generation (mr_rebuild (sy_store y))) = Inr epoch"
    and "mem_steps j y z" and "mem_steps j z y'"
    and "epoch_verify epoch (rs_generation (mr_rebuild (sy_store y'))) = Inr ()"
  shows "rs_lock (mr_rebuild (sy_store z)) = None
    \<and> \<not> is_ok (fst (mem_write_rebuild_views now l views (sy_store z)))"
proof -
  have z: "reachable j z"
    using assms(1,3) by (rule steps_reachable)
  have "store_extends (sy_store y) (sy_store z)" "store_extends (sy_store z) (sy_store y')"
    using steps_extend assms(1,3,4) z reachable_inv by blast+
  then have "rg_value (rs_generation (mr_rebuild (sy_store z))) = epoch"
    using assms(2,5) by (simp add: store_extends_def epoch_observe_def epoch_verify_def result_simps)
  moreover have "epoch mod 2 = 0"
    using assms(2) by (auto simp: epoch_observe_def unavailable_def is_settled_def result_simps)
  ultimately have "rs_lock (mr_rebuild (sy_store z)) = None"
    using reachable_rebuild_ok [OF z] by (auto simp: rebuild_ok_def is_settled_def split: option.splits)
  then show ?thesis
    using lost_lease_refused(1) [of "sy_store z"] by simp
qed

theorem verified_epoch_saw_no_rebuild_witness:
  "epoch_observe (rs_generation (mr_rebuild sample_store)) = Inr 0
    \<and> epoch_verify 0 (rs_generation (mr_rebuild sample_store)) = Inr ()
    \<and> rs_lock (mr_rebuild sample_store) = None"
proof -
  have "epoch_observe (rs_generation (mr_rebuild (sy_store sample_system))) = Inr 0"
    "epoch_verify 0 (rs_generation (mr_rebuild (sy_store sample_system))) = Inr ()"
    by code_simp+
  moreover have "mem_steps sample_codec sample_system sample_system"
    by (simp add: mem_steps_def)
  ultimately show ?thesis
    using verified_epoch_saw_no_rebuild [OF reachable_sample] by (metis sample_system_simps(1))
qed

text \<open>C21: the fence never wedges: in every reachable store a valid owner can begin a rebuild as soon as
  no lock is stored or the stored lease has expired, also after a force release left the generation
  odd; and only a live lock refuses it.\<close>

theorem rebuild_can_always_begin:
  assumes "reachable j y" and "check_lease owner period = Inr seconds"
  shows "is_ok (fst (mem_begin_rebuild now owner period (sy_store y))) \<longleftrightarrow>
    (\<forall>lock. rs_lock (mr_rebuild (sy_store y)) = Some lock \<longrightarrow> is_expired lock now)"
proof -
  have "is_ok (fst (mem_begin_rebuild now owner period (sy_store y))) \<longleftrightarrow> is_ok (decide (mr_rebuild (sy_store y)) now)"
    using assms(2) by (simp add: mem_begin_rebuild_def is_ok_def and_then_def Let_def split: sum.splits)
  also have "\<dots> \<longleftrightarrow> (\<forall>lock. rs_lock (mr_rebuild (sy_store y)) = Some lock \<longrightarrow> is_expired lock now)"
    using reachable_rebuild_ok [OF assms(1)]
    by (auto simp: decide_def rebuild_ok_def Let_def split: option.splits)
  finally show ?thesis .
qed

theorem rebuild_can_always_begin_witness:
  "is_ok (fst (mem_begin_rebuild 5 ''one'' 1000000000 sample_store))"
proof -
  have "check_lease ''one'' 1000000000 = Inr 1"
    by code_simp
  then show ?thesis
    using rebuild_can_always_begin [OF reachable_sample, of "''one''" 1000000000 1 5]
    by (simp add: sample_store_def default_rebuild_state_def)
qed

section \<open>Views\<close>

text \<open>C28: paging through a partition of views with any page limit ends and collects exactly the
  partition's rows, in order, each once.\<close>

theorem paging_a_partition_collects_it:
  assumes "reachable j y" and "cursor_codec codec" and "\<not> has_nul pk"
  shows "list_pages (mem_list_views_by_pk_paged codec (sy_store y) pk limit) None [] =
    Some (Inr (rows_by_pk (sy_store y) pk))"
proof -
  have "views_ok (mr_views (sy_store y))"
    using reachable_inv [OF assms(1)] by (simp add: sys_inv_def mem_inv_def)
  then show ?thesis
    using by_pk.pages_collect [of "\<lparr>ls_codec = codec, ls_store = sy_store y, ls_name = pk, ls_limit = limit\<rparr>"] assms(2,3)
    by (simp add: listing_ok_def)
qed

definition sample_row :: "string \<Rightarrow> view_row" where
  "sample_row sk = \<lparr>vr_pk = ''p'', vr_sk = sk, vr_entity_id = ''a'', vr_entity_type = ''order'',
     vr_payload = ''{}'', vr_ttl = 0\<rparr>"

definition view_system :: mem_system where
  "view_system = store_step (mem_put_view (sample_row ''2'')) (store_step (mem_put_view (sample_row ''1'')) new_system)"

lemma reachable_views: "reachable sample_codec view_system"
  unfolding view_system_def by (intro store_step_reachable reachable_new mem_step.put_view)

lemma view_system_rows: "mr_views (sy_store view_system) = [((''p'', ''1''), sample_row ''1''), ((''p'', ''2''), sample_row ''2'')]"
  by code_simp

theorem paging_a_partition_collects_it_witness:
  "list_pages (mem_list_views_by_pk_paged sample_codec (sy_store view_system) ''p'' (Some 1)) None [] =
    Some (Inr [sample_row ''1'', sample_row ''2''])"
proof -
  have "\<not> has_nul ''p''"
    by code_simp
  then show ?thesis
    using paging_a_partition_collects_it [OF reachable_views sample_cursor_codec]
    by (simp add: rows_by_pk_def view_system_rows)
qed

text \<open>C29: paging through the views of an entity type with any page limit ends and collects exactly
  the rows of that type, in key order, each once.\<close>

theorem paging_an_entity_type_collects_it:
  assumes "reachable j y" and "cursor_codec codec" and "\<not> has_nul ty"
  shows "list_pages (mem_list_views_by_entity_type_paged codec (sy_store y) ty limit) None [] =
    Some (Inr (rows_by_entity_type (sy_store y) ty))"
proof -
  have "views_ok (mr_views (sy_store y))"
    using reachable_inv [OF assms(1)] by (simp add: sys_inv_def mem_inv_def)
  then show ?thesis
    using by_type.pages_collect [of "\<lparr>ls_codec = codec, ls_store = sy_store y, ls_name = ty, ls_limit = limit\<rparr>"] assms(2,3)
    by (simp add: listing_ok_def)
qed

theorem paging_an_entity_type_collects_it_witness:
  "list_pages (mem_list_views_by_entity_type_paged sample_codec (sy_store view_system) ''order'' (Some 1)) None [] =
    Some (Inr [sample_row ''1'', sample_row ''2''])"
proof -
  have "\<not> has_nul ''order''"
    by code_simp
  then show ?thesis
    using paging_an_entity_type_collects_it [OF reachable_views sample_cursor_codec]
    by (simp add: rows_by_entity_type_def view_system_rows) (simp add: sample_row_def)
qed

text \<open>C30: a row that was put is read back as it was put, its empty sort key filled in as \<open>VIEW\<close>. It is
  read under every key that stands for its own: an empty requested sort key also means \<open>VIEW\<close>, and so
  does \<open>get_view\<close>, which has none. Under every other key a read gives what it gave before. The key the
  row was put with also deletes it: then a read finds no row there, and every other key is as it was.\<close>

theorem view_reads_back_what_was_put:
  assumes "mem_put_view v s = (Inr (), s')"
  shows "(\<forall>pk sk. mem_get_view_at s' pk sk =
      (if pk = vr_pk v \<and> default_sk sk = default_sk (vr_sk v) then Inr (Some (v\<lparr>vr_sk := default_sk (vr_sk v)\<rparr>))
       else mem_get_view_at s pk sk))
    \<and> mem_get_view s' (vr_pk v) =
      (if vr_sk v \<in> {[], ''VIEW''} then Inr (Some (v\<lparr>vr_sk := ''VIEW''\<rparr>)) else mem_get_view s (vr_pk v))
    \<and> (\<exists>s''. mem_delete_view (vr_pk v) (vr_sk v) s' = (Inr (), s'')
      \<and> (\<forall>pk sk. mem_get_view_at s'' pk sk =
          (if pk = vr_pk v \<and> default_sk sk = default_sk (vr_sk v) then Inr None else mem_get_view_at s pk sk)))"
proof -
  obtain s'' where del: "mem_delete_view (vr_pk v) (vr_sk v) s' = (Inr (), s'')"
    using mem_delete_view_put [OF assms] by (metis prod.collapse)
  note put = mem_get_put_view [OF assms]
  have "mem_get_view_at s'' pk sk =
      (if pk = vr_pk v \<and> default_sk sk = default_sk (vr_sk v) then Inr None else mem_get_view_at s pk sk)" for pk sk
    unfolding mem_get_delete_view [OF del] put by argo
  moreover have "mem_get_view s' (vr_pk v) =
      (if vr_sk v \<in> {[], ''VIEW''} then Inr (Some (v\<lparr>vr_sk := ''VIEW''\<rparr>)) else mem_get_view s (vr_pk v))"
    using put [of "vr_pk v" "''VIEW''"] by (auto simp: mem_get_view_def DEFAULT_VIEW_SORT_KEY_def)
  ultimately show ?thesis
    using put del by blast
qed

theorem view_reads_back_what_was_put_witness:
  "let s = snd (mem_put_view (sample_row []) new_store)
   in mem_get_view_at s ''p'' [] = Inr (Some (sample_row ''VIEW''))
    \<and> mem_get_view_at s ''p'' ''VIEW'' = Inr (Some (sample_row ''VIEW''))
    \<and> mem_get_view s ''p'' = Inr (Some (sample_row ''VIEW''))
    \<and> mem_get_view_at (snd (mem_delete_view ''p'' [] s)) ''p'' ''VIEW'' = Inr None"
proof -
  have row: "vr_pk (sample_row []) = ''p''" "vr_sk (sample_row []) = []"
    "(sample_row [])\<lparr>vr_sk := ''VIEW''\<rparr> = sample_row ''VIEW''"
    by (simp_all add: sample_row_def)
  have "fst (mem_put_view (sample_row []) new_store) = Inr ()"
    by code_simp
  then have "mem_put_view (sample_row []) new_store = (Inr (), snd (mem_put_view (sample_row []) new_store))"
    by (metis prod.collapse)
  from view_reads_back_what_was_put [OF this, unfolded row] show ?thesis
    by (auto simp: Let_def row)
qed

end
