(* ===== verification/Projection.thy ===== *)
theory Projection
  imports View_Ops "HOL-Library.Sublist"
begin

text \<open>
  Commit-wide projectors (\<open>projection.rs\<close>): the view of a commit a projector sees, running the
  projectors over it, and replaying commits into view rows. A projector is application code: its
  methods are the fields of a record, and its error is the text it shows.
\<close>

section \<open>The view of a commit\<close>

definition ENGINE_ALLOCATION_KEY :: string where "ENGINE_ALLOCATION_KEY = ''evt.journal''"

definition RESERVED_VIEW_PREFIXES :: "string list" where
  "RESERVED_VIEW_PREFIXES = [''journal#'', ''journal-counter#'', ''journal-compaction#'']"

record commit_stream =
  cs_entity_id :: entity_id
  cs_entity_type :: entity_type
  cs_events :: "serialized_event list"
  cs_state :: bytes

text \<open>An event without a causation is caused by its command.\<close>

definition new_commit_stream ::
  "entity_id \<Rightarrow> entity_type \<Rightarrow> serialized_event list \<Rightarrow> bytes \<Rightarrow> commit_stream" where
  "new_commit_stream entity ty events state =
    \<lparr>cs_entity_id = entity, cs_entity_type = ty,
     cs_events = map (\<lambda>e. if md_causation_id (ev_metadata e) = None
       then e\<lparr>ev_metadata := (ev_metadata e)\<lparr>md_causation_id := md_command_id (ev_metadata e)\<rparr>\<rparr>
       else e) events,
     cs_state = state\<rparr>"

record commit_view =
  cv_commit_id :: string
  cv_streams :: "commit_stream list"

definition new_commit_view :: "string \<Rightarrow> commit_stream list \<Rightarrow> commit_view" where
  "new_commit_view commit streams = \<lparr>cv_commit_id = commit, cv_streams = streams\<rparr>"

definition event_count :: "commit_view \<Rightarrow> nat" where
  "event_count v = sum_list (map (\<lambda>s. length (cs_events s)) (cv_streams v))"

definition without_allocation :: "serialized_event \<Rightarrow> serialized_event" where
  "without_allocation e =
    e\<lparr>ev_metadata := (ev_metadata e)\<lparr>md_extensions :=
        bt_remove ENGINE_ALLOCATION_KEY (md_extensions (ev_metadata e))\<rparr>\<rparr>"

definition visible_to :: "commit_view \<Rightarrow> entity_type list \<Rightarrow> bool \<Rightarrow> commit_view" where
  "visible_to v history engine =
    (let streams = (if engine then cv_streams v
                    else map (\<lambda>s. s\<lparr>cs_events := map without_allocation (cs_events s)\<rparr>) (cv_streams v))
     in if history = [] then
          \<lparr>cv_commit_id = [], cv_streams = map (\<lambda>s. s\<lparr>cs_events := []\<rparr>) streams\<rparr>
        else v\<lparr>cv_streams := map (\<lambda>s. if cs_entity_type s \<in> set history then s
                                       else s\<lparr>cs_events := [], cs_state := []\<rparr>) streams\<rparr>)"

section \<open>Running the projectors\<close>

record commit_projector =
  cp_name :: string
  cp_history :: "entity_type list"
  cp_engine :: bool
  cp_project :: "commit_view \<Rightarrow> string + view_operation list"

definition check_owner :: "projected_view \<Rightarrow> commit_view \<Rightarrow> entity_type list \<Rightarrow> error + unit" where
  "check_owner item v history =
    (case find (\<lambda>s. cs_entity_id s = vo_owner (pv_op item)) (cv_streams v) of
       None \<Rightarrow> Inl (InvalidViewOperation
         (Msg ''projector {:?} (#{}) operation {}: the owner stream {owner:?} was not written by this commit''
            [AS (pv_projector item), AI (int (pv_projector_index item)), AI (int (pv_operation item)),
             AS (vo_owner (pv_op item))]))
     | Some stream \<Rightarrow>
        ensure (history = [] \<or> cs_entity_type stream \<in> set history)
          (InvalidViewOperation
            (Msg ''projector {:?} (#{}) operation {}: the owner stream {owner:?} is of type {:?}, which the projector does not declare in its history''
              [AS (pv_projector item), AI (int (pv_projector_index item)), AI (int (pv_operation item)),
               AS (vo_owner (pv_op item)), AS (cs_entity_type stream)])))"

definition check_unreserved :: "projected_view \<Rightarrow> error + unit" where
  "check_unreserved item =
    ensure (\<not> (\<exists>p \<in> set RESERVED_VIEW_PREFIXES. prefix p (vo_pk (pv_op item))))
      (ReservedViewKey (vo_pk (pv_op item)) (pv_projector item) (pv_operation item))"

definition projected_item :: "nat \<Rightarrow> commit_projector \<Rightarrow> nat \<times> view_operation \<Rightarrow> projected_view" where
  "projected_item index p operation =
    \<lparr>pv_projector = cp_name p, pv_projector_index = index, pv_operation = fst operation,
     pv_op = snd operation\<rparr>"

text \<open>The body of the loop over the projectors, and the loop.\<close>

definition run_projector ::
  "commit_view \<Rightarrow> nat \<times> commit_projector \<Rightarrow> error + projected_view list" where
  "run_projector v indexed =
    (case indexed of (index, p) \<Rightarrow>
      (case cp_project p (visible_to v (cp_history p) (cp_engine p)) of
         Inl source \<Rightarrow> Inl (Projector (Boxed (''commit projector {:?}: '' @ source)))
       | Inr operations \<Rightarrow>
          collect (\<lambda>operation.
            (let item = projected_item index p operation
             in and_then (check_owner item v (cp_history p)) (\<lambda>_.
                and_then (if cp_engine p then Inr () else check_unreserved item) (\<lambda>_. Inr item))))
            (enumerate 0 operations)))"

definition project_with :: "(nat \<times> commit_projector) list \<Rightarrow> commit_view \<Rightarrow> error + projected_view list" where
  "project_with projectors v =
    and_then (collect (run_projector v) projectors) (\<lambda>items.
    and_then (check_views (concat items)) (\<lambda>_. Inr (concat items)))"

definition project_commit :: "commit_projector list \<Rightarrow> commit_view \<Rightarrow> error + projected_view list" where
  "project_commit projectors v =
    (if projectors = [] \<or> event_count v = 0 then Inr []
     else project_with (enumerate 0 projectors) v)"

definition project_application :: "commit_projector list \<Rightarrow> commit_view \<Rightarrow> error + projected_view list" where
  "project_application projectors v =
    (case find cp_engine projectors of
       Some p \<Rightarrow> Inl (InvalidConfig
         (Msg ''commit-wide projector {:?} reads engine metadata (the journal's); journal commits with a `JournalRepository`''
            [AS (cp_name p)]))
     | None \<Rightarrow> project_commit projectors v)"

section \<open>Readying a repository\<close>

text \<open>The entity types still to declare: of the projectors' histories, those not declared yet, each
  once and in order.\<close>

definition pending_history :: "commit_projector list \<Rightarrow> entity_type list \<Rightarrow> entity_type list" where
  "pending_history projectors done =
    fold (\<lambda>ty pending. if ty \<in> set done \<or> ty \<in> set pending then pending else pending @ [ty])
      (concat (map cp_history projectors)) []"

text \<open>\<open>ready_projectors\<close>, over a repository's answer to \<open>writes_views\<close>, its name and its
  \<open>declare_history_dependent\<close>. The ledger \<open>done\<close> is the list of the types declared so far.\<close>

definition ready_projectors ::
  "bool \<Rightarrow> string \<Rightarrow> (entity_type list \<Rightarrow> 'r \<Rightarrow> (error + unit) \<times> 'r) \<Rightarrow> commit_projector list
    \<Rightarrow> entity_type list \<Rightarrow> 'r \<Rightarrow> (error + unit) \<times> entity_type list \<times> 'r" where
  "ready_projectors writes_views name declare_history projectors done r =
    (if projectors = [] then (Inr (), done, r)
     else if \<not> writes_views then (Inl (ViewsUnsupported name), done, r)
     else let pending = pending_history projectors done
          in if pending = [] then (Inr (), done, r)
             else case declare_history pending r of
               (Inl e, r') \<Rightarrow> (Inl e, done, r')
             | (Inr _, r') \<Rightarrow> (Inr (), done @ pending, r'))"

section \<open>Replaying commits\<close>

type_synonym view_replay = "(string \<times> string, projected_view) btree"

definition replay_apply :: "view_replay \<Rightarrow> projected_view \<Rightarrow> error + view_replay" where
  "replay_apply last_ops item =
    (case bt_get last_ops (view_key item) of
       Some first \<Rightarrow>
         if vo_owner (pv_op first) \<noteq> vo_owner (pv_op item)
         then Inl (SharedViewKey (vo_pk (pv_op item)) (vo_sk (pv_op item))
                (vo_owner (pv_op first)) (vo_owner (pv_op item)))
         else Inr (bt_insert (view_key item) item last_ops)
     | None \<Rightarrow> Inr (bt_insert (view_key item) item last_ops))"

definition replay_rows :: "view_replay \<Rightarrow> view_row list" where
  "replay_rows last_ops =
    map (\<lambda>item. view_row_of (pv_op item)) (filter (\<lambda>item. vo_kind (pv_op item) = Put) (bt_values last_ops))"

definition into_last :: "view_replay \<Rightarrow> projected_view list" where
  "into_last last_ops = bt_values last_ops"

definition replay_commit ::
  "commit_projector list \<Rightarrow> view_replay \<Rightarrow> commit_view \<Rightarrow> error + view_replay" where
  "replay_commit projectors last_ops commit =
    and_then (project_commit projectors commit) (\<lambda>items. fold_result replay_apply last_ops items)"

definition replay_views :: "commit_projector list \<Rightarrow> commit_view list \<Rightarrow> error + view_row list" where
  "replay_views projectors commits =
    and_then (fold_result (replay_commit projectors) bt_empty commits) (\<lambda>last_ops. Inr (replay_rows last_ops))"

end
