(* ===== verification/Repository_Trait.thy ===== *)
theory Repository_Trait
  imports Repository
begin

text \<open>
  The repository a store runs on (the trait of \<open>repository.rs\<close>) as a record of operations on a state
  \<open>'r\<close>, and what the engine does with any of them: commits with receipts, bounded reads of an outcome
  row, and settling the result of a commit that carries an outcome (\<open>outcome.rs\<close>). The state stands
  for the world: whatever other writers do between two calls is part of what the next call does to it.
\<close>

section \<open>The trait\<close>

text \<open>\<open>rp_late d r\<close> says that a read started in \<open>r\<close> has not resolved when the deadline \<open>d\<close> fires.\<close>

record ('r, 'op) repository =
  rp_name :: string
  rp_writes_views :: bool
  rp_commit :: "'op commit \<Rightarrow> 'r \<Rightarrow> (error + unit) \<times> 'r"
  rp_commit_transaction :: "'op transaction_commit \<Rightarrow> 'r \<Rightarrow> (error + unit) \<times> 'r"
  rp_outcome :: "command_id \<Rightarrow> 'r \<Rightarrow> (error + outcome option) \<times> 'r"
  rp_events :: "entity_id \<Rightarrow> 'r \<Rightarrow> (error + serialized_event list) \<times> 'r"
  rp_events_after :: "entity_id \<Rightarrow> event_sequence \<Rightarrow> 'r \<Rightarrow> (error + serialized_event list) \<times> 'r"
  rp_snapshot :: "entity_id \<Rightarrow> 'r \<Rightarrow> (error + serialized_snapshot option) \<times> 'r"
  rp_put_snapshot :: "serialized_snapshot \<Rightarrow> 'r \<Rightarrow> (error + bool) \<times> 'r"
  rp_declare_history_dependent :: "entity_type list \<Rightarrow> 'r \<Rightarrow> (error + unit) \<times> 'r"
  rp_entity_heads :: "entity_type option \<Rightarrow> 'r \<Rightarrow> (error + (entity_id, event_sequence) btree) \<times> 'r"
  rp_backoff :: "duration \<Rightarrow> 'r \<Rightarrow> 'r"
  rp_late :: "duration \<Rightarrow> 'r \<Rightarrow> bool"

text \<open>\<open>Repository::commit_with_receipt\<close> and \<open>commit_transaction_with_receipt\<close>, the default methods.\<close>

definition commit_with_receipt ::
  "('r, 'op) repository \<Rightarrow> 'op commit \<Rightarrow> 'r \<Rightarrow> (error + serialized_event list) \<times> 'r" where
  "commit_with_receipt rp c r =
    (case rp_commit rp c r of
       (Inl e, r') \<Rightarrow> (Inl e, r')
     | (Inr _, r') \<Rightarrow> (Inr (receipt_of_commit c), r'))"

definition commit_transaction_with_receipt ::
  "('r, 'op) repository \<Rightarrow> 'op transaction_commit \<Rightarrow> 'r \<Rightarrow> (error + serialized_event list) \<times> 'r" where
  "commit_transaction_with_receipt rp t r =
    (case rp_commit_transaction rp t r of
       (Inl e, r') \<Rightarrow> (Inl e, r')
     | (Inr _, r') \<Rightarrow> (Inr (receipt_of_transaction t), r'))"

text \<open>\<open>split_receipt\<close>: the plain result, and the events of the receipt.\<close>

definition split_receipt ::
  "error + serialized_event list \<Rightarrow> (error + unit) \<times> serialized_event list" where
  "split_receipt result = (case result of Inr events \<Rightarrow> (Inr (), events) | Inl e \<Rightarrow> (Inl e, []))"

section \<open>Reading an outcome row\<close>

text \<open>Windows are taken to be short enough that adding the grace to them does not overflow a
  \<open>Duration\<close>.\<close>

definition RECOVERY_GRACE :: duration where "RECOVERY_GRACE = one_second"

definition pre_check_row ::
  "('r, 'op) repository \<Rightarrow> command_id \<Rightarrow> string \<Rightarrow> 'r \<Rightarrow> (error + outcome option) \<times> 'r" where
  "pre_check_row rp command digest r =
    (case rp_outcome rp command r of (row, r') \<Rightarrow> (pre_check row digest, r'))"

definition read_bounded ::
  "('r, 'op) repository \<Rightarrow> command_id \<Rightarrow> duration \<Rightarrow> 'r \<Rightarrow> (error + outcome option) option \<times> 'r" where
  "read_bounded rp command limit r =
    (if rp_late rp (limit + RECOVERY_GRACE) r then (None, r)
     else case rp_outcome rp command r of (row, r') \<Rightarrow> (Some row, r'))"

text \<open>The loop of \<open>poll_loop\<close> on the repository, with the delays it slept.\<close>

function poll_repository ::
  "('r, 'op) repository \<Rightarrow> command_id \<Rightarrow> nat \<Rightarrow> duration \<Rightarrow> duration \<Rightarrow> 'r \<Rightarrow> polled \<times> duration list \<times> 'r" where
  "poll_repository rp command n waited window r =
    (case rp_outcome rp command r of
       (Inr (Some o'), r') \<Rightarrow> (Found o', [], r')
     | (Inl e, r') \<Rightarrow> ((case e of InvalidRecord _ \<Rightarrow> Corrupt e | _ \<Rightarrow> Unreadable (Some e)), [], r')
     | (Inr None, r') \<Rightarrow>
         if window \<le> waited then (PollAbsent, [], r')
         else let step = min (poll_delay n) (window - waited)
              in case poll_repository rp command (n + 1) (waited + step) window (rp_backoff rp step r') of
                   (result, sleeps, r'') \<Rightarrow> (result, step # sleeps, r''))"
  by pat_completeness auto
termination poll_repository
  by (relation "measure (\<lambda>(_, _, _, waited, window, _). window - waited)") (auto simp: not_le poll_step)

declare poll_repository.simps [simp del]

definition poll_row :: "('r, 'op) repository \<Rightarrow> command_id \<Rightarrow> duration \<Rightarrow> 'r \<Rightarrow> polled \<times> 'r" where
  "poll_row rp command window r =
    (if rp_late rp (window + RECOVERY_GRACE) r then (Unreadable None, r)
     else case poll_repository rp command 0 0 window r of (result, _, r') \<Rightarrow> (result, r'))"

text \<open>\<open>settle\<close> with the reads it makes: none when the commit succeeded, a poll when its result is unknown,
  one bounded read when it may have lost a race for its command.\<close>

definition settle_commit ::
  "('r, 'op) repository \<Rightarrow> command_id \<Rightarrow> string \<Rightarrow> duration \<Rightarrow> error + unit \<Rightarrow> 'r \<Rightarrow> (error + settled) \<times> 'r" where
  "settle_commit rp command digest window result r =
    (case result of
       Inr _ \<Rightarrow> (settle None PollAbsent command digest result, r)
     | Inl e \<Rightarrow>
        (case e of
           Indeterminate _ \<Rightarrow>
             (case poll_row rp command window r of (p, r') \<Rightarrow> (settle None p command digest result, r'))
         | OutcomeConflict _ \<Rightarrow>
             (case read_bounded rp command window r of (b, r') \<Rightarrow> (settle b PollAbsent command digest result, r'))
         | _ \<Rightarrow>
             if may_have_lost_the_race e then
               (case read_bounded rp command window r of (b, r') \<Rightarrow> (settle b PollAbsent command digest result, r'))
             else (settle None PollAbsent command digest result, r)))"

section \<open>Polling\<close>

lemma poll_rounds_later:
  "(\<And>k. n \<le> k \<Longrightarrow> read k = read' k) \<Longrightarrow> poll_rounds read n waited window = poll_rounds read' n waited window"
proof (induction read n waited window rule: poll_rounds.induct)
  case (1 read n waited window)
  show ?case
  proof (cases "read n = Inr None \<and> waited < window")
    case True
    then have "poll_rounds read (n + 1) (waited + min (poll_delay n) (window - waited)) window
        = poll_rounds read' (n + 1) (waited + min (poll_delay n) (window - waited)) window"
      using 1(1) [OF _ _ _ refl] 1(2) by fastforce
    then show ?thesis
      using True 1(2) [of n] poll_rounds_again [of read n waited window] poll_rounds_again [of read' n waited window]
      by simp
  next
    case False
    then show ?thesis
      using 1(2) [of n]
      by (subst (1 2) poll_rounds.simps) (auto split: sum.splits option.splits)
  qed
qed

text \<open>Polling the repository is \<open>poll_loop\<close> over the rows it read, so it sleeps at most its window.\<close>

lemma poll_repository_rounds:
  obtains read where "poll_rounds read n waited window =
    (fst (poll_repository rp command n waited window r), fst (snd (poll_repository rp command n waited window r)))"
proof -
  have "\<exists>read. poll_rounds read n waited window =
    (fst (poll_repository rp command n waited window r), fst (snd (poll_repository rp command n waited window r)))"
  proof (induction rp command n waited window r rule: poll_repository.induct)
    case (1 rp command n waited window r)
    obtain row r' where row: "rp_outcome rp command r = (row, r')"
      by (cases "rp_outcome rp command r")
    show ?case
    proof (cases "row = Inr None \<and> waited < window")
      case True
      let ?step = "min (poll_delay n) (window - waited)"
      let ?next = "poll_repository rp command (n + 1) (waited + ?step) window (rp_backoff rp ?step r')"
      obtain read where read: "poll_rounds read (n + 1) (waited + ?step) window = (fst ?next, fst (snd ?next))"
        using 1 [OF row [symmetric]] True by auto
      have "poll_rounds (read(n := Inr None)) (n + 1) (waited + ?step) window
          = poll_rounds read (n + 1) (waited + ?step) window"
        by (rule poll_rounds_later) auto
      then have "poll_rounds (read(n := Inr None)) n waited window = (fst ?next, ?step # fst (snd ?next))"
        using True read poll_rounds_again [of "read(n := Inr None)" n waited window] by simp
      moreover have "poll_repository rp command n waited window r = (fst ?next, ?step # fst (snd ?next), snd (snd ?next))"
        using row True by (subst poll_repository.simps) (simp add: Let_def split_beta)
      ultimately show ?thesis
        by auto
    next
      case False
      have "poll_repository rp command n waited window r =
          (fst (poll_rounds (\<lambda>_. row) n waited window), snd (poll_rounds (\<lambda>_. row) n waited window), r')"
        using row False by (subst poll_repository.simps, subst (1 2) poll_rounds.simps) (auto split: sum.splits option.splits)
      then show ?thesis
        by (metis fst_conv prod.collapse snd_conv)
    qed
  qed
  then show thesis
    using that by blast
qed

end
