(* ===== verification/Retry.thy ===== *)
theory Retry
  imports Errors
begin

text \<open>
  The retry policy (\<open>retry.rs\<close>): the bounded attempts of a command, the jittered delays between them,
  and what a failed attempt means for the retry loop. Durations are nanoseconds, bounded by
  \<open>Duration::MAX\<close>; the random value and the time elapsed since the first attempt are arguments. A
  computation that panics is \<open>None\<close>.
\<close>

section \<open>Durations\<close>

definition u32_max :: nat where "u32_max = 4294967295"
definition u64_max :: nat where "u64_max = 18446744073709551615"

text \<open>\<open>Duration::MAX\<close>: \<open>u64::MAX\<close> seconds and 999999999 nanoseconds.\<close>

definition duration_max :: duration where
  "duration_max = u64_max * one_second + 999999999"

definition duration_saturating_mul :: "duration \<Rightarrow> nat \<Rightarrow> duration" where
  "duration_saturating_mul d n = min (d * n) duration_max"

definition duration_saturating_add :: "duration \<Rightarrow> duration \<Rightarrow> duration" where
  "duration_saturating_add d e = min (d + e) duration_max"

text \<open>\<open>2u32.saturating_pow(n)\<close>.\<close>

definition saturating_pow2 :: "nat \<Rightarrow> nat" where
  "saturating_pow2 n = (if n < 32 then 2 ^ n else u32_max)"

section \<open>The policy\<close>

record retry_policy =
  max_attempts :: nat
  base_delay :: duration
  max_delay :: duration
  deadline :: "duration option"

definition DEFAULT_MAX_ATTEMPTS :: nat where "DEFAULT_MAX_ATTEMPTS = 5"
definition DEFAULT_BASE_DELAY_MS :: nat where "DEFAULT_BASE_DELAY_MS = 25"
definition DEFAULT_MAX_DELAY_MS :: nat where "DEFAULT_MAX_DELAY_MS = 1000"

definition new_retry_policy :: "nat \<Rightarrow> retry_policy" where
  "new_retry_policy attempts =
    \<lparr>max_attempts = attempts, base_delay = DEFAULT_BASE_DELAY_MS * one_millisecond,
     max_delay = DEFAULT_MAX_DELAY_MS * one_millisecond, deadline = None\<rparr>"

definition default_retry_policy :: retry_policy where
  "default_retry_policy = new_retry_policy DEFAULT_MAX_ATTEMPTS"

definition immediate :: "nat \<Rightarrow> retry_policy" where
  "immediate attempts = \<lparr>max_attempts = attempts, base_delay = 0, max_delay = 0, deadline = None\<rparr>"

definition with_backoff :: "retry_policy \<Rightarrow> duration \<Rightarrow> duration \<Rightarrow> retry_policy" where
  "with_backoff p base bound = p\<lparr>base_delay := base, max_delay := bound\<rparr>"

definition with_deadline :: "retry_policy \<Rightarrow> duration \<Rightarrow> retry_policy" where
  "with_deadline p d = p\<lparr>deadline := Some d\<rparr>"

definition delay_ceiling :: "retry_policy \<Rightarrow> nat \<Rightarrow> duration" where
  "delay_ceiling p retry = min (duration_saturating_mul (base_delay p) (saturating_pow2 retry)) (max_delay p)"

text \<open>The spread is truncated to 64 bits, and adding one to the largest 64-bit value panics.\<close>

definition delay :: "retry_policy \<Rightarrow> nat \<Rightarrow> nat \<Rightarrow> duration option" where
  "delay p random retry =
    (let ceiling = delay_ceiling p retry;
         floor = ceiling div 2;
         spread = (ceiling - floor) mod (u64_max + 1)
     in if spread = 0 then Some ceiling
        else if spread = u64_max then None
        else Some (floor + random mod (spread + 1)))"

section \<open>The attempts of a command\<close>

record retry_budget =
  rb_policy :: retry_policy
  rb_attempt :: nat

definition new_budget :: "retry_policy \<Rightarrow> retry_budget" where
  "new_budget p = \<lparr>rb_policy = p, rb_attempt = 1\<rparr>"

definition attempts :: "retry_budget \<Rightarrow> nat" where
  "attempts b = rb_attempt b"

text \<open>\<open>Budget::next\<close>: the delay to wait before one more attempt, if there is one.\<close>

definition budget_next :: "duration \<Rightarrow> nat \<Rightarrow> retry_budget \<Rightarrow> (duration option \<times> retry_budget) option" where
  "budget_next elapsed random b =
    (case delay (rb_policy b) random (rb_attempt b - 1) of
       None \<Rightarrow> None
     | Some d \<Rightarrow>
        (let past_deadline = (case deadline (rb_policy b) of None \<Rightarrow> False
               | Some limit \<Rightarrow> limit \<le> duration_saturating_add elapsed d)
         in if max (max_attempts (rb_policy b)) 1 \<le> rb_attempt b \<or> past_deadline then Some (None, b)
            else Some (Some d, b\<lparr>rb_attempt := rb_attempt b + 1\<rparr>)))"

section \<open>What a failed attempt means\<close>

datatype retry = Never | RetryTransient | RetryConflict

definition retry_of :: "error \<Rightarrow> retry" where
  "retry_of e =
    (case e of
       Conflict _ _ \<Rightarrow> RetryConflict
     | SequenceGap _ _ _ \<Rightarrow> RetryConflict
     | FenceConflict _ _ provenance \<Rightarrow> (case provenance of Engine \<Rightarrow> RetryConflict | Caller \<Rightarrow> Never)
     | Transient _ \<Rightarrow> RetryTransient
     | AmbiguousWrite _ _ \<Rightarrow> RetryTransient
     | RebuildInProgress \<Rightarrow> RetryTransient
     | RebuildConflict _ \<Rightarrow> RetryTransient
     | RebuildUnavailable _ _ \<Rightarrow> RetryTransient
     | RebuildEpochChanged _ _ \<Rightarrow> RetryTransient
     | _ \<Rightarrow> Never)"

definition retry_of_decision :: "error \<Rightarrow> retry" where
  "retry_of_decision e = (case retry_of e of RetryConflict \<Rightarrow> RetryTransient | other \<Rightarrow> other)"

datatype phase = Internal | Deciding | Committing

record failed =
  fl_error :: error
  fl_phase :: phase

definition failed_internal :: "error \<Rightarrow> failed" where
  "failed_internal e = \<lparr>fl_error = e, fl_phase = Internal\<rparr>"

definition failed_deciding :: "error \<Rightarrow> failed" where
  "failed_deciding e = \<lparr>fl_error = e, fl_phase = Deciding\<rparr>"

definition failed_committing :: "error \<Rightarrow> failed" where
  "failed_committing e = \<lparr>fl_error = e, fl_phase = Committing\<rparr>"

definition failed_retry :: "failed \<Rightarrow> retry" where
  "failed_retry f =
    (case fl_phase f of Internal \<Rightarrow> Never
     | Deciding \<Rightarrow> retry_of_decision (fl_error f)
     | Committing \<Rightarrow> retry_of (fl_error f))"

section \<open>Bounds\<close>

text \<open>A delay lies in the upper half of its ceiling.\<close>

lemma delay_bounds:
  assumes "delay p random retry = Some d"
  shows "delay_ceiling p retry div 2 \<le> d" and "d \<le> delay_ceiling p retry"
proof -
  let ?c = "delay_ceiling p retry"
  let ?spread = "(?c - ?c div 2) mod (u64_max + 1)"
  have spread: "?spread \<le> ?c - ?c div 2"
    by simp
  have "random mod (?spread + 1) \<le> ?spread"
    using mod_less_divisor [of "?spread + 1" random] by linarith
  then have "?c div 2 + random mod (?spread + 1) \<le> ?c"
    using spread by linarith
  moreover have "d = ?c \<or> d = ?c div 2 + random mod (?spread + 1)"
    using assms by (auto simp: delay_def Let_def split: if_splits)
  ultimately show "?c div 2 \<le> d" and "d \<le> ?c"
    by auto
qed

text \<open>A bound on the delays below \<open>u64::MAX\<close> nanoseconds, some 584 years, excludes the panic.\<close>

lemma delay_returns:
  assumes "max_delay p < u64_max"
  shows "\<exists>d. delay p random retry = Some d"
proof -
  let ?c = "delay_ceiling p retry"
  have "?c \<le> max_delay p"
    by (simp add: delay_ceiling_def)
  then have "?c - ?c div 2 < u64_max"
    using assms by linarith
  then have "(?c - ?c div 2) mod (u64_max + 1) \<noteq> u64_max"
    by simp
  then show ?thesis
    by (simp add: delay_def Let_def)
qed

lemma budget_next_attempts:
  assumes "budget_next elapsed random b = Some (Some d, b')"
  shows "rb_attempt b' = rb_attempt b + 1" and "rb_policy b' = rb_policy b"
    and "rb_attempt b < max (max_attempts (rb_policy b)) 1"
    and "d \<le> max_delay (rb_policy b)"
    and "\<And>limit. deadline (rb_policy b) = Some limit \<Longrightarrow> duration_saturating_add elapsed d < limit"
proof -
  obtain d' where d': "delay (rb_policy b) random (rb_attempt b - 1) = Some d'"
    using assms by (auto simp: budget_next_def split: option.splits)
  note bound = delay_bounds(2) [OF d']
  show "rb_attempt b' = rb_attempt b + 1" "rb_policy b' = rb_policy b"
    "rb_attempt b < max (max_attempts (rb_policy b)) 1"
    "\<And>limit. deadline (rb_policy b) = Some limit \<Longrightarrow> duration_saturating_add elapsed d < limit"
    using assms d' by (auto simp: budget_next_def Let_def not_le split: if_splits option.splits)
  have "d = d'"
    using assms d' by (auto simp: budget_next_def Let_def split: if_splits)
  then show "d \<le> max_delay (rb_policy b)"
    using bound by (simp add: delay_ceiling_def)
qed

text \<open>An error of the decision phase never exhausts into a rejection, and drift is never retried.\<close>

lemma retry_of_decision_not_conflict: "retry_of_decision e \<noteq> RetryConflict"
  by (simp add: retry_of_decision_def split: retry.splits)

lemma retry_of_conflict: "retry_of e = RetryConflict \<longleftrightarrow> is_conflict e \<and> (\<forall>entity head. e \<noteq> FenceConflict entity head Caller)"
  by (cases e) (auto simp: retry_of_def is_conflict_def split: fence_provenance.splits)

end
