(* ===== verification/Commands.thy ===== *)
theory Commands
  imports Repository_Trait Retry
begin

text \<open>
  Commands with recorded outcomes: the identity of a command, the configuration that digests it, the
  frozen command every attempt runs with, and recording a rejection (\<open>outcome.rs\<close>, \<open>transaction.rs\<close>).
\<close>

section \<open>What the engine is given\<close>

text \<open>The JSON library, Rust's debug text of a string, the text an error displays, and, for the \<open>n\<close>-th attempt of a command, the
  commit ID that is generated, the random value of the delay and the time elapsed.\<close>

record engine =
  en_json :: json_codec
  en_debug :: "string \<Rightarrow> string"
  en_show :: "error \<Rightarrow> string"
  en_commit_id :: "nat \<Rightarrow> string"
  en_random :: "nat \<Rightarrow> nat"
  en_elapsed :: "nat \<Rightarrow> duration"

section \<open>Identities\<close>

record command_identity =
  ci_command_type :: string
  ci_targets :: "entity_id list"
  ci_payload :: bytes

definition new_identity :: "string \<Rightarrow> command_identity" where
  "new_identity ty = \<lparr>ci_command_type = ty, ci_targets = [], ci_payload = []\<rparr>"

definition with_targets :: "command_identity \<Rightarrow> entity_id list \<Rightarrow> command_identity" where
  "with_targets i targets = i\<lparr>ci_targets := targets\<rparr>"

definition with_payload_json :: "command_identity \<Rightarrow> bytes \<Rightarrow> command_identity" where
  "with_payload_json i payload = i\<lparr>ci_payload := payload\<rparr>"

text \<open>The canonical payload of a command as its digest has it.\<close>

definition command_payload :: "string + bytes option \<Rightarrow> error + bytes" where
  "command_payload payload =
    (case payload of
       Inl err \<Rightarrow> Inl (InvalidArgument (Msg ''the command payload: {err}'' [AS err]))
     | Inr p \<Rightarrow> Inr (case p of None \<Rightarrow> [] | Some bytes \<Rightarrow> bytes))"

definition for_command :: "string \<Rightarrow> string + bytes option \<Rightarrow> entity_id \<Rightarrow> error + command_identity" where
  "for_command ty payload entity =
    and_then (command_payload payload) (\<lambda>p.
    Inr (with_payload_json (with_targets (new_identity ty) [entity]) p))"

definition principal :: "metadata \<Rightarrow> string" where
  "principal m = (case md_principal_id m of None \<Rightarrow> [] | Some p \<Rightarrow> p)"

definition identity_digest_input :: "command_identity \<Rightarrow> metadata \<Rightarrow> digest_input" where
  "identity_digest_input i m =
    \<lparr>di_command_type = ci_command_type i, di_targets = ci_targets i, di_payload = ci_payload i,
     di_principal = principal m\<rparr>"

section \<open>Configuration\<close>

record outcome_config =
  cf_digester :: "digest_input \<Rightarrow> string + string"
  cf_recovery_wait :: duration
  cf_retry :: retry_policy
  cf_stale_fence_code :: string
  cf_stale_version_code :: string

text \<open>The default digester is the SHA-256 of the canonical bytes, a function of another crate.\<close>

definition new_outcome_config :: "(digest_input \<Rightarrow> string + string) \<Rightarrow> outcome_config" where
  "new_outcome_config default_digest =
    \<lparr>cf_digester = default_digest, cf_recovery_wait = 10 * one_second, cf_retry = default_retry_policy,
     cf_stale_fence_code = STALE_FENCE, cf_stale_version_code = STALE_VERSION\<rparr>"

definition with_stale_fence_code :: "outcome_config \<Rightarrow> string \<Rightarrow> outcome_config" where
  "with_stale_fence_code c code = (if code = [] then c else c\<lparr>cf_stale_fence_code := code\<rparr>)"

definition with_stale_version_code :: "outcome_config \<Rightarrow> string \<Rightarrow> outcome_config" where
  "with_stale_version_code c code = (if code = [] then c else c\<lparr>cf_stale_version_code := code\<rparr>)"

definition with_retry :: "outcome_config \<Rightarrow> retry_policy \<Rightarrow> outcome_config" where
  "with_retry c retry = c\<lparr>cf_retry := retry\<rparr>"

definition with_recovery_wait :: "outcome_config \<Rightarrow> duration \<Rightarrow> outcome_config" where
  "with_recovery_wait c wait = c\<lparr>cf_recovery_wait := wait\<rparr>"

definition with_digester :: "outcome_config \<Rightarrow> (digest_input \<Rightarrow> string + string) \<Rightarrow> outcome_config" where
  "with_digester c digester = c\<lparr>cf_digester := digester\<rparr>"

definition config_stale_fence :: "outcome_config \<Rightarrow> rejection \<Rightarrow> rejection" where
  "config_stale_fence c r = with_code r (cf_stale_fence_code c)"

definition config_stale_version :: "outcome_config \<Rightarrow> stale_version list \<Rightarrow> rejection" where
  "config_stale_version c stale = with_code (stale_version_rejection stale) (cf_stale_version_code c)"

definition need_outcomes :: "outcome_config option \<Rightarrow> error + outcome_config" where
  "need_outcomes outcomes =
    ok_or (InvalidConfig (Msg ''command outcomes are not enabled; call with_outcomes'' [])) outcomes"

section \<open>Frozen commands\<close>

record pending_command =
  pc_command_id :: command_id
  pc_digest :: string
  pc_identity :: recorded_identity
  pc_metadata :: metadata

definition new_pending ::
  "outcome_config \<Rightarrow> command_id \<Rightarrow> digest_input \<Rightarrow> metadata \<Rightarrow> error + pending_command" where
  "new_pending c command input m =
    and_then (config_digest (cf_digester c) input) (\<lambda>digest.
    Inr \<lparr>pc_command_id = command, pc_digest = digest, pc_identity = identity_of input, pc_metadata = m\<rparr>)"

definition pending_accepted :: "pending_command \<Rightarrow> outcome" where
  "pending_accepted p = with_identity (accepted_outcome (pc_command_id p) (pc_digest p)) (pc_identity p)"

definition pending_rejected :: "pending_command \<Rightarrow> rejection \<Rightarrow> outcome" where
  "pending_rejected p r = with_identity (rejected_outcome (pc_command_id p) (pc_digest p) r) (pc_identity p)"

definition freeze_command ::
  "outcome_config \<Rightarrow> command_identity \<Rightarrow> metadata \<Rightarrow> error + pending_command" where
  "freeze_command c identity m =
    and_then (check_targets (ci_targets identity)) (\<lambda>_.
    and_then (require_command_id m) (\<lambda>command.
    new_pending c command (identity_digest_input identity m) m))"

section \<open>What a command returns\<close>

record 'e command_outcome =
  co_outcome :: outcome
  co_events :: "serialized_event list"
  co_typed_events :: "'e list"
  co_replayed :: bool

definition fresh_outcome :: "outcome \<Rightarrow> serialized_event list \<Rightarrow> 'e list \<Rightarrow> 'e command_outcome" where
  "fresh_outcome o' events typed =
    \<lparr>co_outcome = o', co_events = events, co_typed_events = typed, co_replayed = False\<rparr>"

definition replay_outcome :: "outcome \<Rightarrow> 'e command_outcome" where
  "replay_outcome o' = \<lparr>co_outcome = o', co_events = [], co_typed_events = [], co_replayed = True\<rparr>"

text \<open>The end of every commit that carries an outcome: its row is what \<open>stored\<close> says, or the row that was
  there.\<close>

definition settled_outcome ::
  "outcome \<Rightarrow> serialized_event list \<Rightarrow> 'e list \<Rightarrow> error + settled \<Rightarrow> error + 'e command_outcome" where
  "settled_outcome stored events typed result =
    and_then result (\<lambda>s. Inr (case s of
        Committed \<Rightarrow> fresh_outcome stored events typed
      | Replayed o' \<Rightarrow> replay_outcome o'))"

section \<open>Recording a rejection\<close>

text \<open>A rejected outcome in a transaction of its own, with no fences, events or projector operations.\<close>

definition persist_rejection ::
  "json_codec \<Rightarrow> ('r, 'op) repository \<Rightarrow> pending_command \<Rightarrow> duration \<Rightarrow> rejection \<Rightarrow> 'r
    \<Rightarrow> (error + 'e command_outcome) \<times> 'r" where
  "persist_rejection j rp p wait rejection r =
    (case canonical_rejection j rejection of
       Inl e \<Rightarrow> (Inl e, r)
     | Inr canonical \<Rightarrow>
        (let outcome = pending_rejected p canonical;
             commit = transaction_with_outcome (new_transaction []) outcome;
             stored = stored_outcome_of outcome (transaction_event_ids commit)
         in case rp_commit_transaction rp commit r of
              (result, r1) \<Rightarrow>
                (case settle_commit rp (pc_command_id p) (pc_digest p) wait result r1 of
                   (s, r2) \<Rightarrow> (settled_outcome stored [] [] s, r2))))"

text \<open>A journal row over its cap, as the command's rejection. \<open>debug\<close> is Rust's debug text.\<close>

definition show_row_too_large :: "(string \<Rightarrow> string) \<Rightarrow> row_too_large \<Rightarrow> string" where
  "show_row_too_large debug row =
    ''the journal row for event '' @ rt_event_id row @ '' in scope '' @ debug (rt_scope row) @ '' is ''
      @ show_nat (rt_size row) @ '' bytes, over the '' @ show_nat (rt_limit row) @ '' byte cap''"

definition row_rejection :: "(string \<Rightarrow> string) \<Rightarrow> row_too_large \<Rightarrow> rejection" where
  "row_rejection debug row =
    with_details (new_rejection ''journal-row-too-large'' (show_row_too_large debug row))
      (JObject [(''eventId'', JString (rt_event_id row)), (''limit'', JNumber (show_nat (rt_limit row))),
        (''scope'', JString (rt_scope row)), (''size'', JNumber (show_nat (rt_size row)))])"

section \<open>Retrying a command\<close>

definition journal_row :: "error \<Rightarrow> row_too_large option" where
  "journal_row e = (case e of JournalRowTooLarge row \<Rightarrow> Some row | _ \<Rightarrow> None)"

lemma budget_next_measure:
  assumes "budget_next elapsed random b = Some (Some d, b')"
  shows "max (max_attempts (rb_policy b')) 1 - rb_attempt b' < max (max_attempts (rb_policy b)) 1 - rb_attempt b"
  using budget_next_attempts(1-3) [OF assms] by simp

text \<open>The loop of \<open>execute_with_response\<close> and \<open>execute_transaction\<close>: \<open>attempt n\<close> is the \<open>n\<close>-th attempt.
  It returns the result with the delays it slept, or \<open>None\<close> when computing a delay panics.\<close>

function command_loop ::
  "engine \<Rightarrow> outcome_config \<Rightarrow> (rejection \<Rightarrow> 's \<Rightarrow> (error + 'b) \<times> 's) \<Rightarrow> (duration \<Rightarrow> 's \<Rightarrow> 's)
    \<Rightarrow> (nat \<Rightarrow> 's \<Rightarrow> (failed + 'b) \<times> 's) \<Rightarrow> nat \<Rightarrow> retry_budget \<Rightarrow> 's
    \<Rightarrow> ((error + 'b) \<times> duration list \<times> 's) option" where
  "command_loop en c persist backoff attempt n b s =
    (case attempt n s of
       (Inr x, s') \<Rightarrow> Some (Inr x, [], s')
     | (Inl f, s') \<Rightarrow>
        (case journal_row (fl_error f) of
           Some row \<Rightarrow>
             (case persist (row_rejection (en_debug en) row) s' of (result, s'') \<Rightarrow> Some (result, [], s''))
         | None \<Rightarrow>
            if failed_retry f = Never then Some (Inl (fl_error f), [], s')
            else case budget_next (en_elapsed en n) (en_random en n) b of
              None \<Rightarrow> None
            | Some (None, b') \<Rightarrow>
                if failed_retry f = RetryTransient then Some (Inl (fl_error f), [], s')
                else (case persist (config_stale_fence c (retries_exhausted (attempts b'))) s' of
                        (result, s'') \<Rightarrow> Some (result, [], s''))
            | Some (Some d, b') \<Rightarrow>
                (case command_loop en c persist backoff attempt (n + 1) b' (backoff d s') of
                   None \<Rightarrow> None
                 | Some (result, delays, s'') \<Rightarrow> Some (result, d # delays, s''))))"
  by pat_completeness auto
termination command_loop
  by (relation "measure (\<lambda>(_, _, _, _, _, _, b, _). max (max_attempts (rb_policy b)) 1 - rb_attempt b)")
    (auto intro: budget_next_measure [simplified])

declare command_loop.simps [simp del]

end
