(* ===== verification/Store.thy ===== *)
theory Store
  imports Projection Commands
begin

text \<open>
  The store (\<open>store.rs\<close>): loading an aggregate from its snapshot and log, staging and committing the
  events a command decides, and running a command with retries. The aggregate and its events are
  application code: their methods are the fields of a record, with the services a handler is given
  already applied.
\<close>

section \<open>Aggregates\<close>

record ('a, 'c, 'e, 'x) aggregate =
  ag_type :: entity_type
  ag_snapshot_interval :: "nat option"
  ag_default :: 'a
  ag_handle :: "'a \<Rightarrow> 'c \<Rightarrow> 'x + 'e list"
  ag_apply :: "'e \<Rightarrow> 'a \<Rightarrow> 'a"
  ag_upcasters :: "box_error upcaster list"
  ag_encode :: "'a \<Rightarrow> string + bytes"
  ag_decode :: "bytes \<Rightarrow> string + 'a"
  de_event_type :: "'e \<Rightarrow> event_type"
  de_event_version :: "'e \<Rightarrow> event_version"
  de_to_payload :: "'e \<Rightarrow> string + bytes"
  de_from_payload :: "event_type \<Rightarrow> event_version \<Rightarrow> bytes \<Rightarrow> string + 'e"
  ag_rejection_events :: "'a \<Rightarrow> 'x \<Rightarrow> 'e list"
  ag_to_rejection :: "'x \<Rightarrow> rejection option"
  ag_error_text :: "'x \<Rightarrow> string"
  cd_command_type :: "'c \<Rightarrow> string"
  cd_canonical_payload :: "'c \<Rightarrow> string + bytes option"

section \<open>Loading\<close>

definition LOAD_ATTEMPTS :: nat where "LOAD_ATTEMPTS = 3"
definition DEFAULT_SNAPSHOT_INTERVAL :: nat where "DEFAULT_SNAPSHOT_INTERVAL = 5"

record 'a loaded =
  ld_entity_id :: entity_id
  ld_aggregate :: 'a
  ld_sequence :: event_sequence
  ld_snapshot_sequence :: event_sequence
  ld_seen_command_ids :: "command_id set"

definition new_loaded :: "('a, 'c, 'e, 'x) aggregate \<Rightarrow> entity_id \<Rightarrow> 'a loaded" where
  "new_loaded ag entity =
    \<lparr>ld_entity_id = entity, ld_aggregate = ag_default ag, ld_sequence = 0, ld_snapshot_sequence = 0,
     ld_seen_command_ids = {}\<rparr>"

definition has_seen :: "'a loaded \<Rightarrow> command_id \<Rightarrow> bool" where
  "has_seen l command \<longleftrightarrow> command \<noteq> [] \<and> command \<in> ld_seen_command_ids l"

text \<open>The command ID of metadata, when it has one that is not empty.\<close>

definition present_command :: "metadata \<Rightarrow> command_id option" where
  "present_command m = (case md_command_id m of Some c \<Rightarrow> non_empty c | None \<Rightarrow> None)"

definition decode_event :: "('a, 'c, 'e, 'x) aggregate \<Rightarrow> serialized_event \<Rightarrow> error + serialized_event \<times> 'e" where
  "decode_event ag stored =
    and_then (map_err (\<lambda>f. Replay (uf_event_type f) (uf_version f) Upcast (uf_source f))
      (upcast_event (ag_upcasters ag) stored)) (\<lambda>stored'.
    and_then (map_err (\<lambda>source. Replay (ev_type stored') (ev_version stored') Deserialize (Boxed source))
      (de_from_payload ag (ev_type stored') (ev_version stored') (ev_payload stored'))) (\<lambda>event.
    Inr (stored', event)))"

definition replay :: "('a, 'c, 'e, 'x) aggregate \<Rightarrow> 'a loaded \<Rightarrow> serialized_event \<Rightarrow> error + 'a loaded" where
  "replay ag l stored =
    (if ev_sequence stored \<noteq> next_sequence (ld_sequence l)
     then Inl (SequenceGap (ld_entity_id l) (ld_sequence l) (ev_sequence stored))
     else and_then (decode_event ag stored) (\<lambda>(stored', event).
       Inr (l\<lparr>ld_sequence := ev_sequence stored',
              ld_seen_command_ids :=
                (case present_command (ev_metadata stored') of Some c \<Rightarrow> insert c (ld_seen_command_ids l)
                 | None \<Rightarrow> ld_seen_command_ids l),
              ld_aggregate := ag_apply ag event (ld_aggregate l)\<rparr>)))"

definition loaded_snapshot ::
  "('a, 'c, 'e, 'x) aggregate \<Rightarrow> entity_id \<Rightarrow> serialized_snapshot option \<Rightarrow> error + 'a loaded" where
  "loaded_snapshot ag entity snapshot =
    (case snapshot of
       None \<Rightarrow> Inr (new_loaded ag entity)
     | Some sn \<Rightarrow>
        and_then (map_err (Snapshot entity) (ag_decode ag (sn_payload sn))) (\<lambda>a.
        Inr \<lparr>ld_entity_id = entity, ld_aggregate = a, ld_sequence = sn_event_sequence sn,
             ld_snapshot_sequence = sn_sequence sn, ld_seen_command_ids = {}\<rparr>))"

definition load_once ::
  "('a, 'c, 'e, 'x) aggregate \<Rightarrow> ('r, 'op) repository \<Rightarrow> entity_id \<Rightarrow> 'r
    \<Rightarrow> (error + 'a loaded \<times> nat) \<times> 'r" where
  "load_once ag rp entity r =
    (case rp_snapshot rp entity r of
       (Inl e, r1) \<Rightarrow> (Inl e, r1)
     | (Inr snapshot, r1) \<Rightarrow>
        (case loaded_snapshot ag entity snapshot of
           Inl e \<Rightarrow> (Inl e, r1)
         | Inr l \<Rightarrow>
            (case (if snapshot \<noteq> None then rp_events_after rp entity (ld_sequence l) r1
                   else rp_events rp entity r1) of
               (Inl e, r2) \<Rightarrow> (Inl e, r2)
             | (Inr events, r2) \<Rightarrow>
                 (and_then (fold_result (replay ag) l events) (\<lambda>l'. Inr (l', length events)), r2))))"

text \<open>The loop of \<open>load_with_catch_up\<close>, with the attempts left after this one.\<close>

fun load_attempts ::
  "('a, 'c, 'e, 'x) aggregate \<Rightarrow> ('r, 'op) repository \<Rightarrow> entity_id \<Rightarrow> nat \<Rightarrow> 'r
    \<Rightarrow> (error + 'a loaded \<times> nat) \<times> 'r" where
  "load_attempts ag rp entity 0 r = load_once ag rp entity r"
| "load_attempts ag rp entity (Suc left) r =
    (case load_once ag rp entity r of
       (Inl e, r') \<Rightarrow> if is_conflict e then load_attempts ag rp entity left r' else (Inl e, r')
     | result \<Rightarrow> result)"

definition catch_up_snapshot ::
  "('a, 'c, 'e, 'x) aggregate \<Rightarrow> ('r, 'op) repository \<Rightarrow> 'a loaded \<Rightarrow> 'r \<Rightarrow> 'a loaded \<times> 'r" where
  "catch_up_snapshot ag rp l r =
    (case ag_encode ag (ld_aggregate l) of
       Inl _ \<Rightarrow> (l, r)
     | Inr payload \<Rightarrow>
        (let sn = \<lparr>sn_entity_type = ag_type ag, sn_entity_id = ld_entity_id l,
                   sn_sequence = next_sequence (ld_snapshot_sequence l),
                   sn_event_sequence = ld_sequence l, sn_payload = payload\<rparr>
         in case snapshot_fits sn of
              Inr True \<Rightarrow>
                (case rp_put_snapshot rp sn r of
                   (Inr True, r') \<Rightarrow> (l\<lparr>ld_snapshot_sequence := sn_sequence sn\<rparr>, r')
                 | (_, r') \<Rightarrow> (l, r'))
            | _ \<Rightarrow> (l, r)))"

definition load_with_catch_up ::
  "('a, 'c, 'e, 'x) aggregate \<Rightarrow> ('r, 'op) repository \<Rightarrow> entity_id \<Rightarrow> nat \<Rightarrow> 'r
    \<Rightarrow> (error + 'a loaded) \<times> 'r" where
  "load_with_catch_up ag rp entity threshold r =
    (case load_attempts ag rp entity (LOAD_ATTEMPTS - 1) r of
       (Inl e, r') \<Rightarrow> (Inl e, r')
     | (Inr (l, replayed), r') \<Rightarrow>
        if 0 < threshold \<and> threshold \<le> replayed
        then (case catch_up_snapshot ag rp l r' of (l', r'') \<Rightarrow> (Inr l', r''))
        else (Inr l, r'))"

section \<open>The store\<close>

text \<open>A projector of the aggregate is shared by pointer: its address tells it from others. The types
  declared so far to the feature marker are part of the store's state.\<close>

record ('a, 'e, 'op) projector =
  pj_address :: nat
  pj_project :: "entity_id \<Rightarrow> 'a \<Rightarrow> 'e list \<Rightarrow> box_error + 'op list"

record ('a, 'e, 'op) store =
  st_snapshot_interval :: nat
  st_catch_up_threshold :: nat
  st_projectors :: "('a, 'e, 'op) projector list"
  st_commit_projectors :: "commit_projector list"
  st_history_declared :: "entity_type list"
  st_outcomes :: "outcome_config option"

definition new_store_config :: "('a, 'e, 'op) store" where
  "new_store_config =
    \<lparr>st_snapshot_interval = DEFAULT_SNAPSHOT_INTERVAL, st_catch_up_threshold = 0, st_projectors = [],
     st_commit_projectors = [], st_history_declared = [], st_outcomes = None\<rparr>"

definition with_outcomes :: "('a, 'e, 'op) store \<Rightarrow> outcome_config \<Rightarrow> ('a, 'e, 'op) store" where
  "with_outcomes st c = st\<lparr>st_outcomes := Some c\<rparr>"

definition with_snapshot_interval :: "('a, 'e, 'op) store \<Rightarrow> nat \<Rightarrow> ('a, 'e, 'op) store" where
  "with_snapshot_interval st interval = st\<lparr>st_snapshot_interval := interval\<rparr>"

definition with_catch_up_snapshot_threshold :: "('a, 'e, 'op) store \<Rightarrow> nat \<Rightarrow> ('a, 'e, 'op) store" where
  "with_catch_up_snapshot_threshold st threshold = st\<lparr>st_catch_up_threshold := threshold\<rparr>"

definition with_projector :: "('a, 'e, 'op) store \<Rightarrow> ('a, 'e, 'op) projector \<Rightarrow> ('a, 'e, 'op) store" where
  "with_projector st p = st\<lparr>st_projectors := st_projectors st @ [p]\<rparr>"

definition with_commit_projector :: "('a, 'e, 'op) store \<Rightarrow> commit_projector \<Rightarrow> ('a, 'e, 'op) store" where
  "with_commit_projector st p = st\<lparr>st_commit_projectors := st_commit_projectors st @ [p]\<rparr>"

definition snapshot_interval :: "('a, 'c, 'e, 'x) aggregate \<Rightarrow> ('a, 'e, 'op) store \<Rightarrow> nat" where
  "snapshot_interval ag st =
    (case ag_snapshot_interval ag of Some n \<Rightarrow> n | None \<Rightarrow> st_snapshot_interval st)"

definition load ::
  "('a, 'c, 'e, 'x) aggregate \<Rightarrow> ('r, 'op) repository \<Rightarrow> ('a, 'e, 'op) store \<Rightarrow> entity_id \<Rightarrow> 'r
    \<Rightarrow> (error + 'a loaded) \<times> 'r" where
  "load ag rp st entity = load_with_catch_up ag rp entity (st_catch_up_threshold st)"

definition refuse_outcomes :: "('a, 'e, 'op) store \<Rightarrow> string \<Rightarrow> error + unit" where
  "refuse_outcomes st method =
    ensure (st_outcomes st = None)
      (InvalidConfig (Msg ''this store records command outcomes: {method} would skip the outcome row; use execute_with_outcome (or a Transaction with begin_command)''
         [AS method]))"

definition stamp_commit_id :: "metadata \<Rightarrow> string \<Rightarrow> metadata" where
  "stamp_commit_id m generated =
    (case present_command m of
       Some c \<Rightarrow> m\<lparr>md_commit_id := c\<rparr>
     | None \<Rightarrow> if md_commit_id m = [] then m\<lparr>md_commit_id := generated\<rparr> else m)"

fun serialize_events ::
  "('a, 'c, 'e, 'x) aggregate \<Rightarrow> entity_id \<Rightarrow> event_sequence \<Rightarrow> 'e list \<Rightarrow> metadata
    \<Rightarrow> error + serialized_event list" where
  "serialize_events ag entity sequence [] m = Inr []"
| "serialize_events ag entity sequence (event # events) m =
    and_then (ok_or (InvalidCommit (Msg ''entity {entity_id} is at the maximum event sequence'' [AS entity]))
      (checked_next sequence)) (\<lambda>sequence'.
    and_then (map_err Json (de_to_payload ag event)) (\<lambda>payload.
    and_then (serialize_events ag entity sequence' events m) (\<lambda>rest.
    Inr (\<lparr>ev_id = for_event entity sequence', ev_sequence = sequence', ev_type = de_event_type ag event,
          ev_version = de_event_version ag event, ev_entity_id = entity, ev_entity_type = ag_type ag,
          ev_payload = payload, ev_metadata = m\<rparr> # rest))))"

text \<open>The projectors of the aggregate, one after the other.\<close>

definition run_projectors ::
  "('a, 'e, 'op) projector list \<Rightarrow> entity_id \<Rightarrow> 'a \<Rightarrow> 'e list \<Rightarrow> error + 'op list" where
  "run_projectors projectors entity a events =
    and_then (collect (\<lambda>p. map_err Projector (pj_project p entity a events)) projectors) (\<lambda>ops.
    Inr (concat ops))"

definition stage ::
  "('a, 'c, 'e, 'x) aggregate \<Rightarrow> ('a, 'e, 'op) store \<Rightarrow> string \<Rightarrow> 'a loaded \<Rightarrow> 'e list \<Rightarrow> metadata
    \<Rightarrow> error + 'a loaded \<times> 'op commit" where
  "stage ag st generated l events m =
    (let stamped = stamp_commit_id m generated;
         entity = ld_entity_id l;
         a = fold (ag_apply ag) events (ld_aggregate l);
         snapshot_due = 0 < snapshot_events_due (ld_sequence l) (length events) (snapshot_interval ag st)
     in and_then (serialize_events ag entity (ld_sequence l) events stamped) (\<lambda>serialized.
        and_then (run_projectors (st_projectors st) entity a events) (\<lambda>operations.
        and_then (if snapshot_due \<or> st_commit_projectors st \<noteq> [] then map_err Json (ag_encode ag a)
                  else Inr []) (\<lambda>state.
        and_then (if st_commit_projectors st = [] then Inr []
                  else project_application (st_commit_projectors st)
                    (new_commit_view (md_commit_id stamped)
                      [new_commit_stream entity (ag_type ag) serialized state])) (\<lambda>views.
        and_then (if snapshot_due \<and> serialized \<noteq> []
                  then within_budget \<lparr>ns_entity_type = ag_type ag,
                         ns_sequence = next_sequence (ld_snapshot_sequence l), ns_payload = state\<rparr>
                         entity (ev_sequence (last serialized))
                  else Inr None) (\<lambda>snapshot.
        Inr (l\<lparr>ld_aggregate := a,
               ld_sequence := (if serialized = [] then ld_sequence l else ev_sequence (last serialized)),
               ld_snapshot_sequence := (case snapshot of Some s \<Rightarrow> ns_sequence s
                 | None \<Rightarrow> ld_snapshot_sequence l),
               ld_seen_command_ids := (case present_command m of Some c \<Rightarrow> insert c (ld_seen_command_ids l)
                 | None \<Rightarrow> ld_seen_command_ids l)\<rparr>,
             \<lparr>cm_entity_id = entity, cm_events = serialized, cm_snapshot = snapshot,
              cm_operations = operations, cm_views = views, cm_outcome = None\<rparr>)))))))"

section \<open>Committing and executing\<close>

definition duplicate :: "'a loaded \<Rightarrow> metadata \<Rightarrow> error + unit" where
  "duplicate l m =
    (case md_command_id m of
       Some c \<Rightarrow> ensure (\<not> has_seen l c) (DuplicateCommand c)
     | None \<Rightarrow> Inr ())"

definition store_ready ::
  "('r, 'op) repository \<Rightarrow> ('a, 'e, 'op) store \<Rightarrow> 'r \<Rightarrow> (error + unit) \<times> ('a, 'e, 'op) store \<times> 'r" where
  "store_ready rp st r =
    (case ready_projectors (rp_writes_views rp) (rp_name rp) (rp_declare_history_dependent rp)
            (st_commit_projectors st) (st_history_declared st) r of
       (result, declared, r') \<Rightarrow> (result, st\<lparr>st_history_declared := declared\<rparr>, r'))"

definition store_commit ::
  "('a, 'c, 'e, 'x) aggregate \<Rightarrow> ('r, 'op) repository \<Rightarrow> string \<Rightarrow> 'a loaded \<Rightarrow> 'e list \<Rightarrow> metadata
    \<Rightarrow> ('a, 'e, 'op) store \<Rightarrow> 'r
    \<Rightarrow> (error + 'a loaded \<times> serialized_event list) \<times> ('a, 'e, 'op) store \<times> 'r" where
  "store_commit ag rp generated l events m st r =
    (case and_then (refuse_outcomes st ''commit'') (\<lambda>_. duplicate l m) of
       Inl e \<Rightarrow> (Inl e, st, r)
     | Inr _ \<Rightarrow>
        if events = [] then (Inr (l, []), st, r)
        else case store_ready rp st r of
          (Inl e, st', r') \<Rightarrow> (Inl e, st', r')
        | (Inr _, st', r') \<Rightarrow>
           (case stage ag st' generated l events m of
              Inl e \<Rightarrow> (Inl e, st', r')
            | Inr (l', c) \<Rightarrow>
               (case commit_with_receipt rp c r' of
                  (Inl e, r'') \<Rightarrow> (Inl e, st', r'')
                | (Inr receipt, r'') \<Rightarrow> (Inr (l', receipt), st', r''))))"

definition execute ::
  "('a, 'c, 'e, 'x) aggregate \<Rightarrow> ('r, 'op) repository \<Rightarrow> string \<Rightarrow> entity_id \<Rightarrow> 'c \<Rightarrow> metadata
    \<Rightarrow> ('a, 'e, 'op) store \<Rightarrow> 'r
    \<Rightarrow> ('x execute_error + 'a loaded \<times> serialized_event list) \<times> ('a, 'e, 'op) store \<times> 'r" where
  "execute ag rp generated entity command m st r =
    (case refuse_outcomes st ''execute'' of
       Inl e \<Rightarrow> (Inl (ExecuteStore e), st, r)
     | Inr _ \<Rightarrow>
        (case load ag rp st entity r of
           (Inl e, r1) \<Rightarrow> (Inl (ExecuteStore e), st, r1)
         | (Inr l, r1) \<Rightarrow>
            (case duplicate l m of
               Inl e \<Rightarrow> (Inl (ExecuteStore e), st, r1)
             | Inr _ \<Rightarrow>
                (case ag_handle ag (ld_aggregate l) command of
                   Inl rejected \<Rightarrow> (Inl (ExecuteRejected rejected), st, r1)
                 | Inr events \<Rightarrow>
                    (case store_commit ag rp generated l events m st r1 of
                       (Inl e, st', r2) \<Rightarrow> (Inl (ExecuteStore e), st', r2)
                     | (Inr done, st', r2) \<Rightarrow> (Inr done, st', r2))))))"

text \<open>The loop of \<open>execute_with_retry\<close>: the \<open>n\<close>-th attempt runs with the \<open>n\<close>-th generated commit ID,
  and the \<open>n\<close>-th delay with the \<open>n\<close>-th random value. \<open>sleep\<close> is what the world does meanwhile. It returns
  the result with the delays it slept, or \<open>None\<close> when computing a delay panics.\<close>

function retry_loop ::
  "(nat \<Rightarrow> 's \<Rightarrow> ('x execute_error + 'b) \<times> 's) \<Rightarrow> retry_policy \<Rightarrow> (nat \<Rightarrow> nat) \<Rightarrow> (duration \<Rightarrow> 's \<Rightarrow> 's) \<Rightarrow> nat \<Rightarrow> 's
    \<Rightarrow> (('x execute_error + 'b) \<times> duration list \<times> 's) option" where
  "retry_loop run policy random sleep retry s =
    (case run retry s of
       (Inl e, s') \<Rightarrow>
         if execute_is_retryable e \<and> retry + 1 < max (max_attempts policy) 1 then
           (case delay policy (random retry) retry of
              None \<Rightarrow> None
            | Some d \<Rightarrow>
               (case retry_loop run policy random sleep (retry + 1) (sleep d s') of
                  None \<Rightarrow> None
                | Some (result, delays, s'') \<Rightarrow> Some (result, d # delays, s'')))
         else Some (Inl e, [], s')
     | (Inr x, s') \<Rightarrow> Some (Inr x, [], s'))"
  by pat_completeness auto
termination retry_loop
  by (relation "measure (\<lambda>(_, policy, _, _, retry, _). max (max_attempts policy) 1 - retry)") auto

declare retry_loop.simps [simp del]

definition execute_with_retry ::
  "('a, 'c, 'e, 'x) aggregate \<Rightarrow> ('r, 'op) repository \<Rightarrow> (nat \<Rightarrow> string) \<Rightarrow> entity_id \<Rightarrow> 'c \<Rightarrow> metadata
    \<Rightarrow> retry_policy \<Rightarrow> (nat \<Rightarrow> nat) \<Rightarrow> (duration \<Rightarrow> 'r \<Rightarrow> 'r) \<Rightarrow> ('a, 'e, 'op) store \<Rightarrow> 'r
    \<Rightarrow> (('x execute_error + 'a loaded \<times> serialized_event list) \<times> duration list \<times> ('a, 'e, 'op) store \<times> 'r) option" where
  "execute_with_retry ag rp generated entity command m policy random sleep st r =
    retry_loop (\<lambda>n (st, r). execute ag rp (generated n) entity command m st r) policy random
      (\<lambda>d (st, r). (st, sleep d r)) 0 (st, r)"

section \<open>Commands with outcomes\<close>

definition response_error :: "string \<Rightarrow> error" where
  "response_error err = InvalidArgument (Msg ''the response callback failed: {err}'' [AS err])"

definition outcome_with_response :: "outcome \<Rightarrow> bytes option \<Rightarrow> outcome" where
  "outcome_with_response o' response = (case response of Some b \<Rightarrow> with_response o' b | None \<Rightarrow> o')"

definition recovery_wait :: "('a, 'e, 'op) store \<Rightarrow> duration" where
  "recovery_wait st = (case st_outcomes st of None \<Rightarrow> 0 | Some c \<Rightarrow> cf_recovery_wait c)"

text \<open>\<open>Store::record\<close>, of a commit with the outcome \<open>outcome\<close>.\<close>

definition record_commit ::
  "('r, 'op) repository \<Rightarrow> ('a, 'e, 'op) store \<Rightarrow> 'op commit \<Rightarrow> outcome \<Rightarrow> 'e list \<Rightarrow> 'r
    \<Rightarrow> (error + 'e command_outcome) \<times> 'r" where
  "record_commit rp st c outcome typed r =
    (let commit = commit_with_outcome c outcome;
         stored = stored_outcome_of outcome (map ev_id (cm_events commit))
     in case commit_with_receipt rp commit r of
          (received, r1) \<Rightarrow>
            (case split_receipt received of (result, committed) \<Rightarrow>
              (case settle_commit rp (oc_command_id stored) (oc_digest stored) (recovery_wait st) result r1 of
                 (s, r2) \<Rightarrow> (settled_outcome stored committed typed s, r2))))"

text \<open>Readying, staging and recording the events of an attempt. \<open>outcome\<close> is computed from the state after
  them.\<close>

definition record_staged ::
  "('a, 'c, 'e, 'x) aggregate \<Rightarrow> ('r, 'op) repository \<Rightarrow> string \<Rightarrow> 'a loaded \<Rightarrow> 'e list \<Rightarrow> metadata
    \<Rightarrow> ('a \<Rightarrow> error + outcome) \<Rightarrow> ('a, 'e, 'op) store \<Rightarrow> 'r
    \<Rightarrow> (failed + 'e command_outcome) \<times> ('a, 'e, 'op) store \<times> 'r" where
  "record_staged ag rp generated l events m outcome st r =
    (case store_ready rp st r of
       (Inl e, st', r1) \<Rightarrow> (Inl (failed_internal e), st', r1)
     | (Inr _, st', r1) \<Rightarrow>
        (case stage ag st' generated l events m of
           Inl e \<Rightarrow> (Inl (failed_internal e), st', r1)
         | Inr (l', c) \<Rightarrow>
            (case outcome (ld_aggregate l') of
               Inl e \<Rightarrow> (Inl (failed_internal e), st', r1)
             | Inr o' \<Rightarrow>
                (case record_commit rp st' c o' events r1 of
                   (result, r2) \<Rightarrow> (map_err failed_committing result, st', r2)))))"

text \<open>A rejection, with the events the aggregate gives it, if any.\<close>

definition attempt_rejected ::
  "json_codec \<Rightarrow> ('a, 'c, 'e, 'x) aggregate \<Rightarrow> ('r, 'op) repository \<Rightarrow> string \<Rightarrow> 'a loaded \<Rightarrow> 'x \<Rightarrow> metadata
    \<Rightarrow> pending_command \<Rightarrow> ('a, 'e, 'op) store \<Rightarrow> 'r
    \<Rightarrow> (failed + 'e command_outcome) \<times> ('a, 'e, 'op) store \<times> 'r" where
  "attempt_rejected j ag rp generated l error m p st r =
    (case ag_to_rejection ag error of
       None \<Rightarrow> (Inl (failed_internal (Handler (Boxed (ag_error_text ag error)))), st, r)
     | Some rejection \<Rightarrow>
        (case canonical_rejection j rejection of
           Inl e \<Rightarrow> (Inl (failed_internal e), st, r)
         | Inr canonical \<Rightarrow>
            (let outcome = pending_rejected p canonical;
                 events = ag_rejection_events ag (ld_aggregate l) error
             in if events = [] then
                  (case record_commit rp st (new_commit (ld_entity_id l) []) outcome [] r of
                     (result, r') \<Rightarrow> (map_err failed_committing result, st, r'))
                else record_staged ag rp generated l events m (\<lambda>_. Inr outcome) st r)))"

definition attempt_accepted ::
  "('a, 'c, 'e, 'x) aggregate \<Rightarrow> ('r, 'op) repository \<Rightarrow> string \<Rightarrow> 'a loaded \<Rightarrow> 'e list \<Rightarrow> metadata
    \<Rightarrow> pending_command \<Rightarrow> ('a \<Rightarrow> 'e list \<Rightarrow> string + bytes option) \<Rightarrow> ('a, 'e, 'op) store \<Rightarrow> 'r
    \<Rightarrow> (failed + 'e command_outcome) \<times> ('a, 'e, 'op) store \<times> 'r" where
  "attempt_accepted ag rp generated l events m p respond st r =
    (let outcome = (\<lambda>a. and_then (map_err response_error (respond a events)) (\<lambda>response.
           Inr (outcome_with_response (pending_accepted p) response)))
     in if events = [] then
          (case outcome (ld_aggregate l) of
             Inl e \<Rightarrow> (Inl (failed_internal e), st, r)
           | Inr o' \<Rightarrow>
              (case record_commit rp st (new_commit (ld_entity_id l) []) o' [] r of
                 (result, r') \<Rightarrow> (map_err failed_committing result, st, r')))
        else record_staged ag rp generated l events m outcome st r)"

definition attempt_with_response ::
  "json_codec \<Rightarrow> ('a, 'c, 'e, 'x) aggregate \<Rightarrow> ('r, 'op) repository \<Rightarrow> string \<Rightarrow> entity_id \<Rightarrow> 'c \<Rightarrow> metadata
    \<Rightarrow> pending_command \<Rightarrow> ('a \<Rightarrow> 'e list \<Rightarrow> string + bytes option) \<Rightarrow> ('a, 'e, 'op) store \<times> 'r
    \<Rightarrow> (failed + 'e command_outcome) \<times> ('a, 'e, 'op) store \<times> 'r" where
  "attempt_with_response j ag rp generated entity command m p respond w =
    (case w of (st, r) \<Rightarrow>
      (case pre_check_row rp (pc_command_id p) (pc_digest p) r of
         (Inl e, r1) \<Rightarrow> (Inl (failed_deciding e), st, r1)
       | (Inr (Some stored), r1) \<Rightarrow> (Inr (replay_outcome stored), st, r1)
       | (Inr None, r1) \<Rightarrow>
          (case load ag rp st entity r1 of
             (Inl e, r2) \<Rightarrow> (Inl (failed_deciding e), st, r2)
           | (Inr l, r2) \<Rightarrow>
              if has_seen l (pc_command_id p)
              then (Inl (failed_internal (DuplicateCommand (pc_command_id p))), st, r2)
              else (case ag_handle ag (ld_aggregate l) command of
                  Inl error \<Rightarrow> attempt_rejected j ag rp generated l error m p st r2
                | Inr events \<Rightarrow> attempt_accepted ag rp generated l events m p respond st r2))))"

definition freeze_for_response ::
  "('a, 'c, 'e, 'x) aggregate \<Rightarrow> outcome_config \<Rightarrow> entity_id \<Rightarrow> 'c \<Rightarrow> metadata \<Rightarrow> error + pending_command" where
  "freeze_for_response ag c entity command m =
    and_then (check_targets [entity]) (\<lambda>_.
    and_then (require_command_id m) (\<lambda>command_id.
    and_then (command_payload (cd_canonical_payload ag command)) (\<lambda>payload.
    new_pending c command_id
      \<lparr>di_command_type = cd_command_type ag command, di_targets = [entity], di_payload = payload,
       di_principal = principal m\<rparr> m)))"

definition execute_with_response ::
  "engine \<Rightarrow> ('a, 'c, 'e, 'x) aggregate \<Rightarrow> ('r, 'op) repository \<Rightarrow> entity_id \<Rightarrow> 'c \<Rightarrow> metadata
    \<Rightarrow> ('a \<Rightarrow> 'e list \<Rightarrow> string + bytes option) \<Rightarrow> ('a, 'e, 'op) store \<Rightarrow> 'r
    \<Rightarrow> ((error + 'e command_outcome) \<times> duration list \<times> ('a, 'e, 'op) store \<times> 'r) option" where
  "execute_with_response en ag rp entity command m respond st r =
    (case and_then (need_outcomes (st_outcomes st)) (\<lambda>c.
            and_then (freeze_for_response ag c entity command m) (\<lambda>p. Inr (c, p))) of
       Inl e \<Rightarrow> Some (Inl e, [], st, r)
     | Inr (c, p) \<Rightarrow>
        command_loop en c
          (\<lambda>rejection (st, r). case persist_rejection (en_json en) rp p (cf_recovery_wait c) rejection r of
             (result, r') \<Rightarrow> (result, st, r'))
          (\<lambda>d (st, r). (st, rp_backoff rp d r))
          (\<lambda>n. attempt_with_response (en_json en) ag rp (en_commit_id en n) entity command m p respond)
          0 (new_budget (cf_retry c)) (st, r))"

definition execute_with_outcome ::
  "engine \<Rightarrow> ('a, 'c, 'e, 'x) aggregate \<Rightarrow> ('r, 'op) repository \<Rightarrow> entity_id \<Rightarrow> 'c \<Rightarrow> metadata
    \<Rightarrow> ('a, 'e, 'op) store \<Rightarrow> 'r
    \<Rightarrow> ((error + 'e command_outcome) \<times> duration list \<times> ('a, 'e, 'op) store \<times> 'r) option" where
  "execute_with_outcome en ag rp entity command m st r =
    execute_with_response en ag rp entity command m (\<lambda>_ _. Inr None) st r"

section \<open>Looking an outcome up\<close>

definition resolve ::
  "('r, 'op) repository \<Rightarrow> ('a, 'e, 'op) store \<Rightarrow> command_identity \<Rightarrow> metadata \<Rightarrow> 'r
    \<Rightarrow> (error + outcome option) \<times> 'r" where
  "resolve rp st identity m r =
    (case and_then (need_outcomes (st_outcomes st)) (\<lambda>c. freeze_command c identity m) of
       Inl e \<Rightarrow> (Inl e, r)
     | Inr p \<Rightarrow> pre_check_row rp (pc_command_id p) (pc_digest p) r)"

definition resolve_command ::
  "('r, 'op) repository \<Rightarrow> ('a, 'e, 'op) store \<Rightarrow> command_identity \<Rightarrow> metadata \<Rightarrow> 'r
    \<Rightarrow> (error + 'b command_outcome option) \<times> 'r" where
  "resolve_command rp st identity m r =
    (case resolve rp st identity m r of
       (result, r') \<Rightarrow> (map_sum id (map_option replay_outcome) result, r'))"

definition resolve_outcome ::
  "('a, 'c, 'e, 'x) aggregate \<Rightarrow> ('r, 'op) repository \<Rightarrow> ('a, 'e, 'op) store \<Rightarrow> entity_id \<Rightarrow> 'c \<Rightarrow> metadata \<Rightarrow> 'r
    \<Rightarrow> (error + 'e command_outcome option) \<times> 'r" where
  "resolve_outcome ag rp st entity command m r =
    (case and_then (need_outcomes (st_outcomes st)) (\<lambda>_.
          and_then (check_targets [entity]) (\<lambda>_.
          and_then (require_command_id m) (\<lambda>_.
          for_command (cd_command_type ag command) (cd_canonical_payload ag command) entity))) of
       Inl e \<Rightarrow> (Inl e, r)
     | Inr identity \<Rightarrow> resolve_command rp st identity m r)"

definition resolve_command_for_principal ::
  "('r, 'op) repository \<Rightarrow> ('a, 'e, 'op) store \<Rightarrow> command_id \<Rightarrow> principal_id option \<Rightarrow> 'r
    \<Rightarrow> (error + 'b command_outcome option) \<times> 'r" where
  "resolve_command_for_principal rp st command asking r =
    (let asked = (case asking of None \<Rightarrow> None | Some a \<Rightarrow> non_empty a)
     in case and_then (need_outcomes (st_outcomes st)) (\<lambda>_.
             and_then (check_command_id command) (\<lambda>_.
             (case asked of None \<Rightarrow> Inr ()
              | Some a \<Rightarrow> check_metadata (default_metadata\<lparr>md_principal_id := Some a\<rparr>)))) of
          Inl e \<Rightarrow> (Inl e, r)
        | Inr _ \<Rightarrow>
           (case rp_outcome rp command r of
              (Inl e, r') \<Rightarrow> (Inl e, r')
            | (Inr None, r') \<Rightarrow> (Inr None, r')
            | (Inr (Some stored), r') \<Rightarrow>
               (case oc_identity stored of
                  None \<Rightarrow> (Inl (OutcomePrincipalMismatch command False), r')
                | Some identity \<Rightarrow>
                   if ri_principal identity \<noteq> asked then (Inl (OutcomePrincipalMismatch command True), r')
                   else (Inr (Some (replay_outcome stored)), r'))))"

section \<open>Enumerating\<close>

definition entity_ids ::
  "('a, 'c, 'e, 'x) aggregate \<Rightarrow> ('r, 'op) repository \<Rightarrow> 'r \<Rightarrow> (error + entity_id list) \<times> 'r" where
  "entity_ids ag rp r =
    (case rp_entity_heads rp (Some (ag_type ag)) r of
       (Inl e, r') \<Rightarrow> (Inl e, r')
     | (Inr heads, r') \<Rightarrow> (Inr (bt_keys heads), r'))"

end
