(* ===== verification/Transaction.thy ===== *)
theory Transaction
  imports Store
begin

text \<open>
  The transaction engine (\<open>transaction.rs\<close>): reading several streams, staging events on them, fencing the
  streams that were only read, and committing all of it at once, with or without the outcome of a
  command. A transaction holds streams of any aggregate types; the handle of a read carries its own.
\<close>

section \<open>Data\<close>

text \<open>The variant of an error, as \<open>std::mem::discriminant\<close> tells it.\<close>

definition variant :: "error \<Rightarrow> nat" where
  "variant e =
    (case e of
      Conflict _ _ \<Rightarrow> 0 | SequenceGap _ _ _ \<Rightarrow> 1
      | DuplicateCommand _ \<Rightarrow> 2 | StreamHeadDrift _ _ _ \<Rightarrow> 3
      | StreamHeadsNotMigrated \<Rightarrow> 4 | StoreNotInitialized \<Rightarrow> 5
      | CompactionUncovered _ _ _ \<Rightarrow> 6 | Replay _ _ _ _ \<Rightarrow> 7
      | Snapshot _ _ \<Rightarrow> 8 | InvalidRecord _ \<Rightarrow> 9
      | CommitTooLarge _ _ _ \<Rightarrow> 10 | FenceConflict _ _ _ \<Rightarrow> 11
      | CommandOrder _ \<Rightarrow> 12 | ProjectorWithoutEvents _ \<Rightarrow> 13
      | ProjectorSetConflict _ \<Rightarrow> 14 | TransactionPoisoned \<Rightarrow> 15
      | RetentionConflict _ \<Rightarrow> 16 | RebuildInProgress \<Rightarrow> 17
      | RebuildLockHeld _ _ \<Rightarrow> 18 | RebuildLeaseLost _ \<Rightarrow> 19
      | RebuildConflict _ \<Rightarrow> 20 | RebuildBeginIndeterminate _ _ _ \<Rightarrow> 21
      | RebuildStateInvalid _ \<Rightarrow> 22 | RebuildUnavailable _ _ \<Rightarrow> 23
      | RebuildEpochChanged _ _ \<Rightarrow> 24 | Json _ \<Rightarrow> 25 | Handler _ \<Rightarrow> 26
      | Projector _ \<Rightarrow> 27 | ProjectorOperation _ \<Rightarrow> 28
      | InvalidViewOperation _ \<Rightarrow> 29 | ViewKeyTooLong _ _ _ _ _ \<Rightarrow> 30
      | DuplicateViewKey _ _ _ _ \<Rightarrow> 31 | ReservedViewKey _ _ _ \<Rightarrow> 32
      | CommitOrder _ \<Rightarrow> 33 | SharedViewKey _ _ _ _ \<Rightarrow> 34
      | ViewsUnsupported _ \<Rightarrow> 35 | ExpectedPayloadUnsupported _ \<Rightarrow> 36
      | HistoryDeclarationUnsupported _ \<Rightarrow> 37 | ViewsNotConfigured _ \<Rightarrow> 38
      | JournalRowTooLarge _ \<Rightarrow> 39 | InvalidJournal _ \<Rightarrow> 40
      | JournalGone _ \<Rightarrow> 41 | JournalSnapshotMoved _ _ \<Rightarrow> 42
      | ForeignJournalRow _ _ _ _ \<Rightarrow> 43 | CompactionLeaseHeld _ _ _ \<Rightarrow> 44
      | CompactionLeaseLost _ _ \<Rightarrow> 45 | Transient _ \<Rightarrow> 46
      | InvalidCommit _ \<Rightarrow> 47 | InvalidConfig _ \<Rightarrow> 48
      | InvalidArgument _ \<Rightarrow> 49 | ReservedEntityId _ \<Rightarrow> 50
      | UnsupportedFeature _ _ \<Rightarrow> 51 | HistoryDependentProjection _ _ \<Rightarrow> 52
      | CommandIdTooLong _ \<Rightarrow> 53 | OutcomeTooLarge _ _ \<Rightarrow> 54
      | IdempotencyKeyReuse _ _ \<Rightarrow> 55 | OutcomePrincipalMismatch _ _ \<Rightarrow> 56
      | OutcomeConflict _ \<Rightarrow> 57 | AmbiguousWrite _ _ \<Rightarrow> 58
      | Indeterminate _ \<Rightarrow> 59 | Backend _ \<Rightarrow> 60)"

record read_failure =
  fa_entity_id :: entity_id
  fa_variant :: nat
  fa_message :: string

datatype begun = BeginProceed | BeginReplayed "unit command_outcome"

record 'op stream_state =
  ss_entity_id :: entity_id
  ss_entity_type :: entity_type
  ss_head :: event_sequence
  ss_seen_command_ids :: "command_id set"
  ss_events :: "serialized_event list"
  ss_snapshot :: "new_snapshot option"
  ss_operations :: "'op list"
  ss_state :: bytes

record ('a, 'e, 'op) read_handle =
  rd_transaction :: nat
  rd_index :: nat
  rd_loaded :: "'a loaded"
  rd_base_sequence :: event_sequence
  rd_appended :: "'e list"
  rd_projectors :: "('a, 'e, 'op) projector list option"

text \<open>The generator of commit IDs is an argument of the operations that call it.\<close>

record 'op transaction =
  tx_id :: nat
  tx_snapshot_interval :: nat
  tx_catch_up_threshold :: nat
  tx_streams :: "'op stream_state list"
  tx_fences :: "read_fence list"
  tx_commit_projectors :: "commit_projector list"
  tx_history_declared :: "entity_type list"
  tx_late_commit_projector :: bool
  tx_poisoned :: bool
  tx_finished :: bool
  tx_outcomes :: "outcome_config option"
  tx_command :: "pending_command option"
  tx_read_failure :: "read_failure option"
  tx_expected :: "(entity_id, event_sequence) btree"

definition with_settings :: "nat \<Rightarrow> nat \<Rightarrow> 'op transaction" where
  "with_settings ident interval =
    \<lparr>tx_id = ident, tx_snapshot_interval = interval, tx_catch_up_threshold = 0, tx_streams = [], tx_fences = [],
     tx_commit_projectors = [], tx_history_declared = [], tx_late_commit_projector = False, tx_poisoned = False,
     tx_finished = False, tx_outcomes = None, tx_command = None, tx_read_failure = None, tx_expected = bt_empty\<rparr>"

text \<open>\<open>Transaction::new\<close> and \<open>Store::transaction\<close>. The ledger of declared types is shared with the store.\<close>

definition new_engine_transaction :: "nat \<Rightarrow> 'op transaction" where
  "new_engine_transaction ident = with_settings ident DEFAULT_SNAPSHOT_INTERVAL"

definition store_transaction :: "nat \<Rightarrow> ('a, 'e, 'op) store \<Rightarrow> 'op transaction" where
  "store_transaction ident st =
    (with_settings ident (st_snapshot_interval st))
      \<lparr>tx_outcomes := st_outcomes st, tx_catch_up_threshold := st_catch_up_threshold st,
       tx_commit_projectors := st_commit_projectors st, tx_history_declared := st_history_declared st\<rparr>"

definition tx_with_outcomes :: "'op transaction \<Rightarrow> outcome_config \<Rightarrow> 'op transaction" where
  "tx_with_outcomes tx c = tx\<lparr>tx_outcomes := Some c\<rparr>"

definition any_events :: "'op transaction \<Rightarrow> bool" where
  "any_events tx \<longleftrightarrow> (\<exists>ss \<in> set (tx_streams tx). ss_events ss \<noteq> [])"

definition tx_with_commit_projector :: "'op transaction \<Rightarrow> commit_projector \<Rightarrow> 'op transaction" where
  "tx_with_commit_projector tx p =
    tx\<lparr>tx_late_commit_projector := tx_late_commit_projector tx \<or> any_events tx,
       tx_commit_projectors := tx_commit_projectors tx @ [p]\<rparr>"

definition tx_with_snapshot_interval :: "'op transaction \<Rightarrow> nat \<Rightarrow> 'op transaction" where
  "tx_with_snapshot_interval tx interval = tx\<lparr>tx_snapshot_interval := interval\<rparr>"

section \<open>Beginning a command\<close>

definition check_open :: "'op transaction \<Rightarrow> error + unit" where
  "check_open tx =
    ensure (\<not> tx_finished tx)
      (CommandOrder ''the command replayed a stored outcome, so this transaction is finished'')"

definition check_can_begin :: "'op transaction \<Rightarrow> error + unit" where
  "check_can_begin tx =
    and_then (check_open tx) (\<lambda>_.
    and_then (ensure (tx_command tx = None)
      (InvalidCommit (Msg ''begin_command was already called on this transaction'' []))) (\<lambda>_.
    ensure (tx_streams tx = [] \<and> tx_fences tx = [])
      (CommandOrder ''begin_command must be the first operation on a transaction, before any read, append, or fence'')))"

definition begin_pending ::
  "('r, 'op) repository \<Rightarrow> pending_command \<Rightarrow> 'op transaction \<Rightarrow> 'r \<Rightarrow> (error + begun) \<times> 'op transaction \<times> 'r" where
  "begin_pending rp p tx r =
    (case pre_check_row rp (pc_command_id p) (pc_digest p) r of
       (Inl e, r') \<Rightarrow> (Inl e, tx, r')
     | (Inr (Some stored), r') \<Rightarrow> (Inr (BeginReplayed (replay_outcome stored)), tx\<lparr>tx_finished := True\<rparr>, r')
     | (Inr None, r') \<Rightarrow> (Inr BeginProceed, tx\<lparr>tx_command := Some p\<rparr>, r'))"

definition begin_command ::
  "('r, 'op) repository \<Rightarrow> command_identity \<Rightarrow> metadata \<Rightarrow> 'op transaction \<Rightarrow> 'r
    \<Rightarrow> (error + begun) \<times> 'op transaction \<times> 'r" where
  "begin_command rp identity m tx r =
    (case and_then (need_outcomes (tx_outcomes tx)) (\<lambda>c.
          and_then (check_can_begin tx) (\<lambda>_. freeze_command c identity m)) of
       Inl e \<Rightarrow> (Inl e, tx, r)
     | Inr p \<Rightarrow> begin_pending rp p tx r)"

definition begin_frozen ::
  "('r, 'op) repository \<Rightarrow> pending_command \<Rightarrow> 'op transaction \<Rightarrow> 'r \<Rightarrow> (error + begun) \<times> 'op transaction \<times> 'r" where
  "begin_frozen rp p tx r =
    (case and_then (need_outcomes (tx_outcomes tx)) (\<lambda>_. check_can_begin tx) of
       Inl e \<Rightarrow> (Inl e, tx, r)
     | Inr _ \<Rightarrow> begin_pending rp p tx r)"

section \<open>Reading\<close>

definition check_unread :: "'op transaction \<Rightarrow> entity_id \<Rightarrow> error + unit" where
  "check_unread tx entity =
    ensure (\<forall>ss \<in> set (tx_streams tx). ss_entity_id ss \<noteq> entity)
      (InvalidCommit (Msg ''duplicate read of {entity_id}'' [AS entity]))"

definition read_loaded ::
  "('a, 'c, 'e, 'x) aggregate \<Rightarrow> 'a loaded \<Rightarrow> 'op transaction
    \<Rightarrow> (error + ('a, 'e, 'op) read_handle) \<times> 'op transaction" where
  "read_loaded ag l tx =
    (case and_then (check_open tx) (\<lambda>_. check_unread tx (ld_entity_id l)) of
       Inl e \<Rightarrow> (Inl e, tx)
     | Inr _ \<Rightarrow>
        (Inr \<lparr>rd_transaction = tx_id tx, rd_index = length (tx_streams tx), rd_loaded = l,
              rd_base_sequence = ld_sequence l, rd_appended = [], rd_projectors = None\<rparr>,
         tx\<lparr>tx_read_failure :=
              (case tx_read_failure tx of
                 None \<Rightarrow> None
               | Some f \<Rightarrow> if fa_entity_id f = ld_entity_id l then None else Some f),
            tx_streams := tx_streams tx @
              [\<lparr>ss_entity_id = ld_entity_id l, ss_entity_type = ag_type ag, ss_head = ld_sequence l,
                ss_seen_command_ids = ld_seen_command_ids l, ss_events = [], ss_snapshot = None,
                ss_operations = [], ss_state = []\<rparr>]\<rparr>))"

definition read_stream ::
  "(error \<Rightarrow> string) \<Rightarrow> ('a, 'c, 'e, 'x) aggregate \<Rightarrow> ('r, 'op) repository \<Rightarrow> entity_id \<Rightarrow> 'op transaction \<Rightarrow> 'r
    \<Rightarrow> (error + ('a, 'e, 'op) read_handle) \<times> 'op transaction \<times> 'r" where
  "read_stream display ag rp entity tx r =
    (case and_then (check_open tx) (\<lambda>_. check_unread tx entity) of
       Inl e \<Rightarrow> (Inl e, tx, r)
     | Inr _ \<Rightarrow>
        (case load_with_catch_up ag rp entity (tx_catch_up_threshold tx) r of
           (Inl e, r') \<Rightarrow>
             (Inl e, tx\<lparr>tx_read_failure :=
                Some \<lparr>fa_entity_id = entity, fa_variant = variant e, fa_message = display e\<rparr>\<rparr>, r')
         | (Inr l, r') \<Rightarrow> (case read_loaded ag l tx of (h, tx') \<Rightarrow> (h, tx', r'))))"

definition is_read_failure :: "(error \<Rightarrow> string) \<Rightarrow> error \<Rightarrow> 'op transaction \<Rightarrow> bool" where
  "is_read_failure display e tx =
    (case tx_read_failure tx of
       None \<Rightarrow> False
     | Some f \<Rightarrow> fa_variant f = variant e \<and> fa_message f = display e)"

section \<open>Staging\<close>

text \<open>What staging derives from the state after the events: the operations of the stream's projectors, its
  snapshot when one is due and its state for the commit projectors. The inner \<open>None\<close> is the panic of an
  index that is not one of the transaction's streams.\<close>

definition stage_derived ::
  "('a, 'c, 'e, 'x) aggregate \<Rightarrow> ('a, 'e, 'op) read_handle \<Rightarrow> serialized_event list \<Rightarrow> 'e list
    \<Rightarrow> ('a, 'e, 'op) projector list \<Rightarrow> nat \<Rightarrow> 'op transaction
    \<Rightarrow> (error + 'op list \<times> new_snapshot option \<times> bytes) option" where
  "stage_derived ag h serialized events projectors interval tx =
    (let l = rd_loaded h;
         entity = ld_entity_id l;
         a = ld_aggregate l
     in case (if projectors = [] then Inr [] else run_projectors projectors entity a (rd_appended h @ events)) of
          Inl e \<Rightarrow> Some (Inl e)
        | Inr operations \<Rightarrow>
           if length (tx_streams tx) \<le> rd_index h then None
           else
             let appended = length (ss_events (tx_streams tx ! rd_index h)) + length serialized;
                 snapshot_due = 0 < snapshot_events_due (rd_base_sequence h) appended interval
             in Some (
                and_then (if snapshot_due \<or> tx_commit_projectors tx \<noteq> [] then map_err Json (ag_encode ag a)
                          else Inr []) (\<lambda>state.
                and_then (if snapshot_due \<and> serialized \<noteq> []
                          then within_budget \<lparr>ns_entity_type = ag_type ag,
                                 ns_sequence = next_sequence (ld_snapshot_sequence l), ns_payload = state\<rparr>
                                 entity (ev_sequence (last serialized))
                          else Inr None) (\<lambda>snapshot.
                Inr (operations, snapshot, if tx_commit_projectors tx = [] then [] else state)))))"

definition stage_stream ::
  "('a, 'c, 'e, 'x) aggregate \<Rightarrow> ('a, 'e, 'op) read_handle \<Rightarrow> 'e list \<Rightarrow> ('a, 'e, 'op) projector list \<Rightarrow> nat
    \<Rightarrow> 'op transaction \<Rightarrow> ((error + unit) \<times> ('a, 'e, 'op) read_handle \<times> 'op transaction) option" where
  "stage_stream ag h events named interval tx =
    (let l = rd_loaded h;
         entity = ld_entity_id l;
         projectors = (if named = [] then (case rd_projectors h of None \<Rightarrow> [] | Some ps \<Rightarrow> ps) else named)
     in if rd_transaction h \<noteq> tx_id tx then
          Some (Inl (InvalidCommit (Msg ''stream {} was not read by this transaction'' [AS entity])), h, tx)
        else case check_open tx of
          Inl e \<Rightarrow> Some (Inl e, h, tx)
        | Inr _ \<Rightarrow>
           if tx_poisoned tx then Some (Inl TransactionPoisoned, h, tx)
           else if (case rd_projectors h of None \<Rightarrow> False
                    | Some existing \<Rightarrow> named \<noteq> [] \<and> map pj_address existing \<noteq> map pj_address projectors)
           then Some (Inl (ProjectorSetConflict entity), h, tx)
           else if events = [] then Some (Inr (), h, tx)
           else case serialize_events ag entity (ld_sequence l) events default_metadata of
             Inl e \<Rightarrow> Some (Inl e, h, tx)
           | Inr serialized \<Rightarrow>
              (let h1 = h\<lparr>rd_loaded := l\<lparr>ld_aggregate := fold (ag_apply ag) events (ld_aggregate l)\<rparr>\<rparr>
               in case stage_derived ag h1 serialized events projectors interval tx of
                    None \<Rightarrow> None
                  | Some (Inl e) \<Rightarrow> Some (Inl e, h1, tx\<lparr>tx_poisoned := True\<rparr>)
                  | Some (Inr (operations, snapshot, state)) \<Rightarrow>
                      Some (Inr (),
                        h1\<lparr>rd_projectors := (if rd_projectors h = None \<and> named \<noteq> [] then Some projectors
                                               else rd_projectors h),
                           rd_appended := rd_appended h @ events,
                           rd_loaded := (rd_loaded h1)
                             \<lparr>ld_sequence := (if serialized = [] then ld_sequence l else ev_sequence (last serialized))\<rparr>\<rparr>,
                        tx\<lparr>tx_streams := (tx_streams tx)[rd_index h :=
                              (tx_streams tx ! rd_index h)
                                \<lparr>ss_events := ss_events (tx_streams tx ! rd_index h) @ serialized,
                                 ss_snapshot := snapshot, ss_operations := operations, ss_state := state\<rparr>]\<rparr>)))"

definition append_with ::
  "('a, 'c, 'e, 'x) aggregate \<Rightarrow> ('a, 'e, 'op) read_handle \<Rightarrow> 'e list \<Rightarrow> ('a, 'e, 'op) projector list
    \<Rightarrow> 'op transaction \<Rightarrow> ((error + unit) \<times> ('a, 'e, 'op) read_handle \<times> 'op transaction) option" where
  "append_with ag h events projectors tx =
    stage_stream ag h events projectors
      (case ag_snapshot_interval ag of Some n \<Rightarrow> n | None \<Rightarrow> tx_snapshot_interval tx) tx"

definition append_events_to ::
  "('a, 'c, 'e, 'x) aggregate \<Rightarrow> ('a, 'e, 'op) read_handle \<Rightarrow> 'e list
    \<Rightarrow> 'op transaction \<Rightarrow> ((error + unit) \<times> ('a, 'e, 'op) read_handle \<times> 'op transaction) option" where
  "append_events_to ag h events tx = append_with ag h events [] tx"

definition append_to ::
  "('a, 'c, 'e, 'x) aggregate \<Rightarrow> ('a, 'e, 'op) store \<Rightarrow> ('a, 'e, 'op) read_handle \<Rightarrow> 'e list
    \<Rightarrow> 'op transaction \<Rightarrow> ((error + unit) \<times> ('a, 'e, 'op) read_handle \<times> 'op transaction) option" where
  "append_to ag st h events tx = stage_stream ag h events (st_projectors st) (snapshot_interval ag st) tx"

section \<open>Fences and expected versions\<close>

definition add_fence :: "read_fence \<Rightarrow> 'op transaction \<Rightarrow> error + 'op transaction" where
  "add_fence fence tx =
    and_then (check_open tx) (\<lambda>_.
    Inr (if \<exists>ss \<in> set (tx_streams tx). ss_entity_id ss = rf_entity_id fence then tx
         else tx\<lparr>tx_fences := tx_fences tx @ [fence\<lparr>rf_provenance := Caller\<rparr>]\<rparr>))"

definition expect_version :: "entity_id \<Rightarrow> event_sequence \<Rightarrow> 'op transaction \<Rightarrow> error + 'op transaction" where
  "expect_version entity head tx =
    and_then (check_open tx) (\<lambda>_.
    and_then (ensure (tx_outcomes tx \<noteq> None)
      (InvalidArgument (Msg ''client-expected versions are recorded as command outcomes; enable with_outcomes and begin the command with begin_command'' []))) (\<lambda>_.
    and_then (ensure (0 \<le> head)
      (InvalidArgument (Msg ''expected head {} of {entity_id} is negative'' [AI head, AS entity]))) (\<lambda>_.
    and_then (case bt_get (tx_expected tx) entity of
        None \<Rightarrow> Inr ()
      | Some earlier \<Rightarrow> ensure (earlier = head)
          (InvalidArgument (Msg ''{entity_id} is expected at head {} and {}'' [AS entity, AI earlier, AI head]))) (\<lambda>_.
    Inr (tx\<lparr>tx_expected := bt_insert entity head (tx_expected tx)\<rparr>)))))"

text \<open>The loop over the expected versions, in the order of their keys.\<close>

fun stale_from ::
  "'op stream_state list \<Rightarrow> (entity_id \<times> event_sequence) list \<Rightarrow> error + stale_version list" where
  "stale_from streams [] = Inr []"
| "stale_from streams ((entity, expected) # rest) =
    (case find (\<lambda>ss. ss_entity_id ss = entity) streams of
       None \<Rightarrow> Inl (InvalidArgument
         (Msg ''{entity_id} has an expected head but the transaction never read it'' [AS entity]))
     | Some ss \<Rightarrow>
        and_then (stale_from streams rest) (\<lambda>stale.
        Inr (if ss_head ss = expected then stale
             else \<lparr>sv_entity_id = entity, sv_expected = expected, sv_actual = ss_head ss\<rparr> # stale)))"

definition stale_versions :: "'op transaction \<Rightarrow> error + stale_version list" where
  "stale_versions tx = stale_from (tx_streams tx) (tx_expected tx)"

section \<open>Preparing the commit\<close>

definition seen_by_streams :: "'op transaction \<Rightarrow> command_id \<Rightarrow> bool" where
  "seen_by_streams tx command \<longleftrightarrow> (\<exists>ss \<in> set (tx_streams tx). command \<in> ss_seen_command_ids ss)"

definition engine_fence :: "'op stream_state \<Rightarrow> read_fence" where
  "engine_fence ss =
    \<lparr>rf_entity_id = ss_entity_id ss, rf_entity_type = ss_entity_type ss, rf_head = ss_head ss,
     rf_provenance = Engine\<rparr>"

definition unread_fences :: "'op transaction \<Rightarrow> read_fence list" where
  "unread_fences tx =
    filter (\<lambda>f. \<not> (\<exists>ss \<in> set (tx_streams tx). ss_entity_id ss = rf_entity_id f)) (tx_fences tx)"

definition stamped_events :: "metadata \<Rightarrow> 'op stream_state \<Rightarrow> serialized_event list" where
  "stamped_events m ss = map (\<lambda>e. e\<lparr>ev_metadata := m\<rparr>) (ss_events ss)"

definition stream_commit :: "metadata \<Rightarrow> 'op stream_state \<Rightarrow> 'op commit" where
  "stream_commit m ss =
    \<lparr>cm_entity_id = ss_entity_id ss, cm_events = stamped_events m ss, cm_snapshot = ss_snapshot ss,
     cm_operations = [], cm_views = [], cm_outcome = None\<rparr>"

definition prepare :: "string \<Rightarrow> metadata \<Rightarrow> 'op transaction \<Rightarrow> error + 'op transaction_commit" where
  "prepare generated m tx =
    and_then (ensure (\<not> tx_poisoned tx) TransactionPoisoned) (\<lambda>_.
    and_then (ensure (\<not> tx_late_commit_projector tx)
      (InvalidCommit (Msg ''a commit projector was added after events were appended; add projectors first'' []))) (\<lambda>_.
    let stamped = stamp_commit_id m generated
    in and_then (case present_command stamped of
           None \<Rightarrow> Inr ()
         | Some c \<Rightarrow> ensure (\<not> seen_by_streams tx c) (DuplicateCommand c)) (\<lambda>_.
       let held = filter (\<lambda>ss. ss_events ss = []) (tx_streams tx);
           staged = filter (\<lambda>ss. ss_events ss \<noteq> []) (tx_streams tx);
           written = sort_key ss_entity_id staged;
           view_streams = (if tx_commit_projectors tx = [] then []
             else map (\<lambda>ss. new_commit_stream (ss_entity_id ss) (ss_entity_type ss) (stamped_events stamped ss)
                         (ss_state ss)) written)
       in and_then (project_application (tx_commit_projectors tx)
            (new_commit_view (md_commit_id stamped) view_streams)) (\<lambda>views.
          Inr ((new_transaction (map (stream_commit stamped) written))
            \<lparr>tc_fences := unread_fences tx @ map engine_fence held,
             tc_operations := concat (map ss_operations staged), tc_views := views\<rparr>)))))"

section \<open>Committing\<close>

definition tx_ready ::
  "('r, 'op) repository \<Rightarrow> 'op transaction \<Rightarrow> 'r \<Rightarrow> (error + unit) \<times> 'op transaction \<times> 'r" where
  "tx_ready rp tx r =
    (if \<not> any_events tx then (Inr (), tx, r)
     else case ready_projectors (rp_writes_views rp) (rp_name rp) (rp_declare_history_dependent rp)
            (tx_commit_projectors tx) (tx_history_declared tx) r of
       (result, declared, r') \<Rightarrow> (result, tx\<lparr>tx_history_declared := declared\<rparr>, r'))"

text \<open>\<open>Transaction::commit\<close>. What is left of the transaction is returned for the ledger it shares.\<close>

definition tx_commit ::
  "('r, 'op) repository \<Rightarrow> string \<Rightarrow> metadata \<Rightarrow> 'op transaction \<Rightarrow> 'r
    \<Rightarrow> (error + serialized_event list) \<times> 'op transaction \<times> 'r" where
  "tx_commit rp generated m tx r =
    (if tx_outcomes tx \<noteq> None then
       (Inl (InvalidConfig (Msg ''this transaction records command outcomes: commit would skip the outcome row; call begin_command, then commit_with_outcome or reject'' [])), tx, r)
     else case tx_ready rp tx r of
       (Inl e, tx', r') \<Rightarrow> (Inl e, tx', r')
     | (Inr _, tx', r') \<Rightarrow>
        (case prepare generated m tx' of
           Inl e \<Rightarrow> (Inl e, tx', r')
         | Inr t \<Rightarrow> (case commit_transaction_with_receipt rp t r' of (result, r'') \<Rightarrow> (result, tx', r''))))"

definition tx_recovery_wait :: "'op transaction \<Rightarrow> duration" where
  "tx_recovery_wait tx = (case tx_outcomes tx of None \<Rightarrow> 0 | Some c \<Rightarrow> cf_recovery_wait c)"

definition check_recordable :: "'op transaction \<Rightarrow> error + unit" where
  "check_recordable tx =
    and_then (check_open tx) (\<lambda>_.
    and_then (need_outcomes (tx_outcomes tx)) (\<lambda>_.
    and_then (ok_or (InvalidArgument (Msg ''begin_command must be called before the transaction records an outcome'' []))
      (tx_command tx)) (\<lambda>p.
    and_then (ensure (\<not> tx_poisoned tx) TransactionPoisoned) (\<lambda>_.
    ensure (\<not> seen_by_streams tx (pc_command_id p)) (DuplicateCommand (pc_command_id p))))))"

definition take_command :: "'op transaction \<Rightarrow> error + pending_command" where
  "take_command tx =
    and_then (check_open tx) (\<lambda>_.
    and_then (need_outcomes (tx_outcomes tx)) (\<lambda>_.
    ok_or (InvalidArgument (Msg ''begin_command must be called before the transaction records an outcome'' []))
      (tx_command tx)))"

definition persist_stale_fence ::
  "json_codec \<Rightarrow> ('r, 'op) repository \<Rightarrow> pending_command \<Rightarrow> 'op transaction \<Rightarrow> 'r
    \<Rightarrow> (error + unit command_outcome) \<times> 'r" where
  "persist_stale_fence j rp p tx r =
    persist_rejection j rp p (tx_recovery_wait tx)
      (case tx_outcomes tx of
         None \<Rightarrow> stale_fence_rejection
       | Some c \<Rightarrow> config_stale_fence c stale_fence_rejection) r"

definition caller_fence_conflict :: "error + unit \<Rightarrow> bool" where
  "caller_fence_conflict result =
    (case result of
       Inr _ \<Rightarrow> False
     | Inl e \<Rightarrow> (case e of FenceConflict _ _ provenance \<Rightarrow> provenance = Caller | _ \<Rightarrow> False))"

text \<open>Committing \<open>t\<close> with \<open>outcome\<close>: the end of \<open>commit_with_outcome\<close> and of \<open>commit_rejection\<close>.\<close>

definition record_transaction ::
  "json_codec \<Rightarrow> ('r, 'op) repository \<Rightarrow> pending_command \<Rightarrow> outcome \<Rightarrow> 'op transaction_commit \<Rightarrow> 'op transaction \<Rightarrow> 'r
    \<Rightarrow> (error + unit command_outcome) \<times> 'r" where
  "record_transaction j rp p outcome t tx r =
    (let commit = transaction_with_outcome t outcome;
         stored = stored_outcome_of outcome (transaction_event_ids commit)
     in case commit_transaction_with_receipt rp commit r of
          (received, r1) \<Rightarrow>
            (case split_receipt received of (result, committed) \<Rightarrow>
              if caller_fence_conflict result then persist_stale_fence j rp p tx r1
              else (case settle_commit rp (pc_command_id p) (pc_digest p) (tx_recovery_wait tx) result r1 of
                      (s, r2) \<Rightarrow> (settled_outcome stored committed [] s, r2))))"

definition commit_rejection ::
  "json_codec \<Rightarrow> ('r, 'op) repository \<Rightarrow> pending_command \<Rightarrow> rejection \<Rightarrow> 'op transaction_commit \<Rightarrow> 'op transaction \<Rightarrow> 'r
    \<Rightarrow> (error + unit command_outcome) \<times> 'r" where
  "commit_rejection j rp p rejection t tx r =
    (case canonical_rejection j rejection of
       Inl e \<Rightarrow> (Inl e, r)
     | Inr canonical \<Rightarrow> record_transaction j rp p (pending_rejected p canonical) t tx r)"

definition tx_reject ::
  "json_codec \<Rightarrow> ('r, 'op) repository \<Rightarrow> rejection \<Rightarrow> 'op transaction \<Rightarrow> 'r
    \<Rightarrow> (error + unit command_outcome) \<times> 'op transaction \<times> 'r" where
  "tx_reject j rp rejection tx r =
    (case and_then (take_command tx) (\<lambda>p.
          and_then (ensure (\<not> tx_poisoned tx) TransactionPoisoned) (\<lambda>_.
          and_then (ensure (\<not> seen_by_streams tx (pc_command_id p)) (DuplicateCommand (pc_command_id p))) (\<lambda>_.
          Inr p))) of
       Inl e \<Rightarrow> (Inl e, tx, r)
     | Inr p \<Rightarrow>
        (case commit_rejection j rp p rejection
                (with_fences (new_transaction []) (map engine_fence (tx_streams tx) @ unread_fences tx)) tx r of
           (result, r') \<Rightarrow> (result, tx, r')))"

definition reject_with_events ::
  "json_codec \<Rightarrow> ('r, 'op) repository \<Rightarrow> string \<Rightarrow> rejection \<Rightarrow> 'op transaction \<Rightarrow> 'r
    \<Rightarrow> (error + unit command_outcome) \<times> 'op transaction \<times> 'r" where
  "reject_with_events j rp generated rejection tx r =
    (case take_command tx of
       Inl e \<Rightarrow> (Inl e, tx, r)
     | Inr p \<Rightarrow>
        (case tx_ready rp tx r of
           (Inl e, tx', r') \<Rightarrow> (Inl e, tx', r')
         | (Inr _, tx', r') \<Rightarrow>
            (case prepare generated (pc_metadata p) tx' of
               Inl e \<Rightarrow> (Inl e, tx', r')
             | Inr t \<Rightarrow> (case commit_rejection j rp p rejection t tx' r' of (result, r'') \<Rightarrow> (result, tx', r'')))))"

definition tx_commit_with_outcome ::
  "json_codec \<Rightarrow> ('r, 'op) repository \<Rightarrow> string \<Rightarrow> bytes option \<Rightarrow> 'op transaction \<Rightarrow> 'r
    \<Rightarrow> (error + unit command_outcome) \<times> 'op transaction \<times> 'r" where
  "tx_commit_with_outcome j rp generated response tx r =
    (case (if tx_expected tx = bt_empty then Inr []
           else and_then (check_recordable tx) (\<lambda>_. stale_versions tx)) of
       Inl e \<Rightarrow> (Inl e, tx, r)
     | Inr stale \<Rightarrow>
        if stale \<noteq> [] then
          tx_reject j rp (case tx_outcomes tx of None \<Rightarrow> stale_version_rejection stale
                          | Some c \<Rightarrow> config_stale_version c stale) tx r
        else case take_command tx of
          Inl e \<Rightarrow> (Inl e, tx, r)
        | Inr p \<Rightarrow>
           (case tx_ready rp tx r of
              (Inl e, tx', r') \<Rightarrow> (Inl e, tx', r')
            | (Inr _, tx', r') \<Rightarrow>
               (case prepare generated (pc_metadata p) tx' of
                  Inl e \<Rightarrow> (Inl e, tx', r')
                | Inr t \<Rightarrow>
                   (case record_transaction j rp p (outcome_with_response (pending_accepted p) response) t tx' r' of
                      (result, r'') \<Rightarrow> (result, tx', r'')))))"

section \<open>Commands over several streams\<close>

datatype decision = Accept "bytes option" | Reject rejection | RejectWithEvents rejection

definition conclude ::
  "json_codec \<Rightarrow> ('r, 'op) repository \<Rightarrow> string \<Rightarrow> decision \<Rightarrow> 'op transaction \<Rightarrow> 'r
    \<Rightarrow> (error + unit command_outcome) \<times> 'op transaction \<times> 'r" where
  "conclude j rp generated d tx r =
    (case d of
       Accept response \<Rightarrow> tx_commit_with_outcome j rp generated response tx r
     | Reject rejection \<Rightarrow> tx_reject j rp rejection tx r
     | RejectWithEvents rejection \<Rightarrow> reject_with_events j rp generated rejection tx r)"

text \<open>One attempt. \<open>step\<close> is the application's: it reads and stages on the transaction and decides.\<close>

definition attempt_transaction ::
  "engine \<Rightarrow> ('r, 'op) repository \<Rightarrow> string \<Rightarrow> nat \<Rightarrow> pending_command
    \<Rightarrow> ('op transaction \<Rightarrow> 'r \<Rightarrow> (error + decision) \<times> 'op transaction \<times> 'r) \<Rightarrow> ('a, 'e, 'op) store \<times> 'r
    \<Rightarrow> (failed + unit command_outcome) \<times> ('a, 'e, 'op) store \<times> 'r" where
  "attempt_transaction en rp generated ident p step w =
    (case w of (st, r) \<Rightarrow>
      (case begin_frozen rp p (store_transaction ident st) r of
         (Inl e, _, r1) \<Rightarrow> (Inl (failed_deciding e), st, r1)
       | (Inr (BeginReplayed co), _, r1) \<Rightarrow> (Inr co, st, r1)
       | (Inr BeginProceed, tx, r1) \<Rightarrow>
          (case step tx r1 of
             (Inl e, tx', r2) \<Rightarrow>
               (Inl (if is_read_failure (en_show en) e tx' then failed_deciding e else failed_internal e),
                st\<lparr>st_history_declared := tx_history_declared tx'\<rparr>, r2)
           | (Inr d, tx', r2) \<Rightarrow>
               (case conclude (en_json en) rp generated d tx' r2 of
                  (result, tx'', r3) \<Rightarrow>
                    (map_err failed_committing result, st\<lparr>st_history_declared := tx_history_declared tx''\<rparr>, r3)))))"

text \<open>The \<open>n\<close>-th attempt runs on the transaction with the number \<open>first + n\<close>.\<close>

definition execute_transaction ::
  "engine \<Rightarrow> ('r, 'op) repository \<Rightarrow> nat \<Rightarrow> command_identity \<Rightarrow> metadata
    \<Rightarrow> (nat \<Rightarrow> 'op transaction \<Rightarrow> 'r \<Rightarrow> (error + decision) \<times> 'op transaction \<times> 'r) \<Rightarrow> ('a, 'e, 'op) store \<Rightarrow> 'r
    \<Rightarrow> ((error + unit command_outcome) \<times> duration list \<times> ('a, 'e, 'op) store \<times> 'r) option" where
  "execute_transaction en rp first identity m step st r =
    (case and_then (need_outcomes (st_outcomes st)) (\<lambda>c.
            and_then (freeze_command c identity m) (\<lambda>p. Inr (c, p))) of
       Inl e \<Rightarrow> Some (Inl e, [], st, r)
     | Inr (c, p) \<Rightarrow>
        command_loop en c
          (\<lambda>rejection (st, r). case persist_rejection (en_json en) rp p (cf_recovery_wait c) rejection r of
             (result, r') \<Rightarrow> (result, st, r'))
          (\<lambda>d (st, r). (st, rp_backoff rp d r))
          (\<lambda>n. attempt_transaction en rp (en_commit_id en n) (first + n) p (step n))
          0 (new_budget (cf_retry c)) (st, r))"

end
