(* ===== verification/Transaction_Sessions.thy ===== *)
theory Transaction_Sessions
  imports Transaction
begin

text \<open>
  Transactions as the application builds them: any sequence of reads, appends, fences and expectations
  on a store's transaction, over any repository, and what holds of all of them.
\<close>

section \<open>Well-formed transactions\<close>

text \<open>The staged events of a stream follow the head it was read at and belong to it.\<close>

definition staged_ok :: "'op stream_state \<Rightarrow> bool" where
  "staged_ok ss \<longleftrightarrow>
    (\<forall>i < length (ss_events ss). case ss_events ss ! i of e \<Rightarrow>
      ev_sequence e = ss_head ss + int i + 1 \<and> ev_entity_id e = ss_entity_id ss
      \<and> ev_id e = for_event (ss_entity_id ss) (ev_sequence e) \<and> ev_entity_type e = ss_entity_type ss)"

definition tx_ok :: "'op transaction \<Rightarrow> bool" where
  "tx_ok tx \<longleftrightarrow> distinct (map ss_entity_id (tx_streams tx)) \<and> (\<forall>ss \<in> set (tx_streams tx). staged_ok ss)"

text \<open>A handle stands for a stream of the transaction and is where the stream's staged events end.\<close>

definition read_ok ::
  "'op transaction \<Rightarrow> ('a, 'c, 'e, 'x) aggregate \<Rightarrow> ('a, 'e, 'op) read_handle \<Rightarrow> bool" where
  "read_ok tx ag h \<longleftrightarrow>
    rd_transaction h = tx_id tx \<and> rd_index h < length (tx_streams tx)
    \<and> (case tx_streams tx ! rd_index h of ss \<Rightarrow>
        ss_entity_id ss = ld_entity_id (rd_loaded h) \<and> ss_entity_type ss = ag_type ag
        \<and> ss_head ss = rd_base_sequence h
        \<and> ld_sequence (rd_loaded h) = ss_head ss + int (length (ss_events ss)))"

lemma serialized_events:
  assumes "serialize_events ag entity n events m = Inr serialized"
  shows "length serialized = length events"
    and "\<And>i. i < length serialized \<Longrightarrow> case serialized ! i of e \<Rightarrow>
      ev_sequence e = n + int i + 1 \<and> ev_entity_id e = entity \<and> ev_id e = for_event entity (ev_sequence e)
      \<and> ev_entity_type e = ag_type ag"
proof -
  have "length serialized = length events \<and> (\<forall>i < length serialized. case serialized ! i of e \<Rightarrow>
      ev_sequence e = n + int i + 1 \<and> ev_entity_id e = entity \<and> ev_id e = for_event entity (ev_sequence e)
      \<and> ev_entity_type e = ag_type ag)"
    using assms
  proof (induction events arbitrary: n serialized)
    case (Cons event events)
    obtain n' rest e where n': "checked_next n = Some n'" and rest: "serialize_events ag entity n' events m = Inr rest"
      and e: "ev_sequence e = n'" "ev_entity_id e = entity" "ev_id e = for_event entity n'" "ev_entity_type e = ag_type ag"
      and ser: "serialized = e # rest"
      using Cons.prems by (auto simp: result_simps ok_or_def map_err_def split: option.splits sum.splits)
    have "n' = n + 1"
      using n' by (simp add: checked_next_Some)
    then show ?case
      using Cons.IH [OF rest] e by (auto simp: ser nth_Cons split: nat.splits)
  qed simp
  then show "length serialized = length events"
    and "\<And>i. i < length serialized \<Longrightarrow> case serialized ! i of e \<Rightarrow>
      ev_sequence e = n + int i + 1 \<and> ev_entity_id e = entity \<and> ev_id e = for_event entity (ev_sequence e)
      \<and> ev_entity_type e = ag_type ag"
    by simp_all
qed

section \<open>Staging\<close>

lemma stage_derived_returns:
  assumes "rd_index h < length (tx_streams tx)"
  shows "\<exists>d. stage_derived ag h serialized events projectors interval tx = Some d"
  using assms
  by (cases "if projectors = [] then Inr [] else run_projectors projectors (ld_entity_id (rd_loaded h))
      (ld_aggregate (rd_loaded h)) (rd_appended h @ events)") (simp_all add: stage_derived_def Let_def)

text \<open>What staging can do: nothing, poison the transaction, or add its events to the handle's stream.\<close>

lemma stage_stream_cases:
  assumes ok: "read_ok tx ag h"
  obtains (refused) e where "stage_stream ag h events named interval tx = Some (Inl e, h, tx)"
  | (unchanged) "events = []" "stage_stream ag h events named interval tx = Some (Inr (), h, tx)"
  | (poisoned) e a where "stage_stream ag h events named interval tx =
      Some (Inl e, h\<lparr>rd_loaded := (rd_loaded h)\<lparr>ld_aggregate := a\<rparr>\<rparr>, tx\<lparr>tx_poisoned := True\<rparr>)"
  | (staged) serialized h' ss where "events \<noteq> []" "\<not> tx_poisoned tx" "\<not> tx_finished tx"
      "stage_stream ag h events named interval tx =
        Some (Inr (), h', tx\<lparr>tx_streams := (tx_streams tx)[rd_index h := ss]\<rparr>)"
      "serialize_events ag (ld_entity_id (rd_loaded h)) (ld_sequence (rd_loaded h)) events default_metadata = Inr serialized"
      "ss_events ss = ss_events (tx_streams tx ! rd_index h) @ serialized"
      "ss_entity_id ss = ss_entity_id (tx_streams tx ! rd_index h)"
      "ss_entity_type ss = ss_entity_type (tx_streams tx ! rd_index h)" "ss_head ss = ss_head (tx_streams tx ! rd_index h)"
      "rd_transaction h' = rd_transaction h" "rd_index h' = rd_index h" "rd_base_sequence h' = rd_base_sequence h"
      "ld_entity_id (rd_loaded h') = ld_entity_id (rd_loaded h)"
      "ld_aggregate (rd_loaded h') = fold (ag_apply ag) events (ld_aggregate (rd_loaded h))"
      "ld_sequence (rd_loaded h') = ld_sequence (rd_loaded h) + int (length events)"
proof -
  have index: "rd_index h < length (tx_streams tx)" and owner: "rd_transaction h = tx_id tx"
    using ok by (simp_all add: read_ok_def)
  let ?l = "rd_loaded h" and ?run = "stage_stream ag h events named interval tx"
  define projectors where "projectors = (if named = [] then (case rd_projectors h of None \<Rightarrow> [] | Some ps \<Rightarrow> ps) else named)"
  define clash where "clash \<longleftrightarrow> (case rd_projectors h of None \<Rightarrow> False
    | Some existing \<Rightarrow> named \<noteq> [] \<and> map pj_address existing \<noteq> map pj_address projectors)"
  let ?serialized = "serialize_events ag (ld_entity_id ?l) (ld_sequence ?l) events default_metadata"
  note unfolded = stage_stream_def [of ag h events named interval tx, unfolded Let_def check_open_def ensure_def,
    folded projectors_def, folded clash_def]
  show thesis
  proof (cases "tx_finished tx \<or> tx_poisoned tx \<or> clash \<or> events = [] \<or> (\<exists>e. ?serialized = Inl e)")
    case True
    then have "(\<exists>e. ?run = Some (Inl e, h, tx)) \<or> (events = [] \<and> ?run = Some (Inr (), h, tx))"
      using owner by (auto simp: unfolded)
    then show thesis
      using refused unchanged by blast
  next
    case False
    then obtain serialized where ser: "?serialized = Inr serialized" and ne: "events \<noteq> []"
      by (cases ?serialized) auto
    define h1 where "h1 = h\<lparr>rd_loaded := ?l\<lparr>ld_aggregate := fold (ag_apply ag) events (ld_aggregate ?l)\<rparr>\<rparr>"
    obtain d where d: "stage_derived ag h1 serialized events projectors interval tx = Some d"
      using stage_derived_returns [of h1 tx ag serialized events projectors interval] index by (auto simp: h1_def)
    have run: "?run = (case d of Inl e \<Rightarrow> Some (Inl e, h1, tx\<lparr>tx_poisoned := True\<rparr>)
        | Inr (operations, snapshot, state) \<Rightarrow> Some (Inr (),
            h1\<lparr>rd_projectors := (if rd_projectors h = None \<and> named \<noteq> [] then Some projectors else rd_projectors h),
               rd_appended := rd_appended h @ events,
               rd_loaded := (rd_loaded h1)
                 \<lparr>ld_sequence := (if serialized = [] then ld_sequence ?l else ev_sequence (last serialized))\<rparr>\<rparr>,
            tx\<lparr>tx_streams := (tx_streams tx)[rd_index h := (tx_streams tx ! rd_index h)
                \<lparr>ss_events := ss_events (tx_streams tx ! rd_index h) @ serialized,
                 ss_snapshot := snapshot, ss_operations := operations, ss_state := state\<rparr>]\<rparr>))"
      using False owner ser d by (simp add: unfolded h1_def split: sum.splits)
    show thesis
    proof (cases d)
      case (Inl e)
      then show thesis
        using run poisoned [of e] by (simp add: h1_def)
    next
      case (Inr derived)
      obtain operations snapshot state where derived: "derived = (operations, snapshot, state)"
        by (rule prod_cases3)
      have len: "length serialized = length events"
        by (rule serialized_events(1) [OF ser])
      then have "serialized \<noteq> []" "length serialized - 1 < length serialized"
        using ne by auto
      then have end_of: "ev_sequence (last serialized) = ld_sequence ?l + int (length events)"
        using serialized_events(2) [OF ser, of "length serialized - 1"] len by (simp add: last_conv_nth of_nat_diff Suc_leI)
      show thesis
      proof (rule staged [OF ne _ _ _ ser])
        show "?run = Some (Inr (),
            h1\<lparr>rd_projectors := (if rd_projectors h = None \<and> named \<noteq> [] then Some projectors else rd_projectors h),
               rd_appended := rd_appended h @ events,
               rd_loaded := (rd_loaded h1)\<lparr>ld_sequence := ld_sequence ?l + int (length events)\<rparr>\<rparr>,
            tx\<lparr>tx_streams := (tx_streams tx)[rd_index h := (tx_streams tx ! rd_index h)
                \<lparr>ss_events := ss_events (tx_streams tx ! rd_index h) @ serialized,
                 ss_snapshot := snapshot, ss_operations := operations, ss_state := state\<rparr>]\<rparr>)"
          using run Inr derived end_of \<open>serialized \<noteq> []\<close> by simp
      qed (use False in \<open>simp_all add: h1_def\<close>)
    qed
  qed
qed

lemma stage_stream_ok:
  assumes tx: "tx_ok tx" and ok: "read_ok tx ag h"
  obtains result h' tx' where "stage_stream ag h events named interval tx = Some (result, h', tx')"
    "tx_ok tx'" "read_ok tx' ag h'" "rd_index h' = rd_index h"
    "tx_id tx' = tx_id tx" "length (tx_streams tx') = length (tx_streams tx)"
    "\<forall>i. i \<noteq> rd_index h \<longrightarrow> tx_streams tx' ! i = tx_streams tx ! i"
    "(\<forall>u. result \<noteq> Inr u) \<longrightarrow> tx_streams tx' = tx_streams tx"
  using ok
proof (cases rule: stage_stream_cases [where events = events and named = named and interval = interval])
  case (refused e)
  then show thesis
    using that [OF refused tx ok] by simp
next
  case unchanged
  then show thesis
    using that [OF unchanged(2) tx ok] by simp
next
  case (poisoned e a)
  then show thesis
    using tx ok by (intro that [OF poisoned]) (simp_all add: tx_ok_def read_ok_def)
next
  case (staged serialized h' ss)
  let ?old = "tx_streams tx ! rd_index h"
  have index: "rd_index h < length (tx_streams tx)"
    using ok by (simp add: read_ok_def)
  have old: "staged_ok ?old" "ss_entity_id ?old = ld_entity_id (rd_loaded h)" "ss_entity_type ?old = ag_type ag"
    "ld_sequence (rd_loaded h) = ss_head ?old + int (length (ss_events ?old))"
    using tx ok index by (simp_all add: tx_ok_def read_ok_def)
  have "staged_ok ss"
    unfolding staged_ok_def
  proof (intro allI impI)
    fix i
    assume i: "i < length (ss_events ss)"
    show "case ss_events ss ! i of e \<Rightarrow> ev_sequence e = ss_head ss + int i + 1 \<and> ev_entity_id e = ss_entity_id ss
      \<and> ev_id e = for_event (ss_entity_id ss) (ev_sequence e) \<and> ev_entity_type e = ss_entity_type ss"
    proof (cases "i < length (ss_events ?old)")
      case True
      then show ?thesis
        using old(1) by (simp add: staged_ok_def staged nth_append)
    next
      case False
      then show ?thesis
        using serialized_events(2) [OF staged(5), of "i - length (ss_events ?old)"] i old(2-4)
        by (simp add: staged nth_append)
    qed
  qed
  moreover have "map ss_entity_id ((tx_streams tx)[rd_index h := ss]) = map ss_entity_id (tx_streams tx)"
    using staged(7) by (simp add: map_update index list_update_same_conv)
  ultimately have "tx_ok (tx\<lparr>tx_streams := (tx_streams tx)[rd_index h := ss]\<rparr>)"
    using tx set_update_subset_insert [of "tx_streams tx" "rd_index h" ss] by (auto simp: tx_ok_def)
  moreover have "length serialized = length events"
    by (rule serialized_events(1) [OF staged(5)])
  then have "read_ok (tx\<lparr>tx_streams := (tx_streams tx)[rd_index h := ss]\<rparr>) ag h'"
    using ok index by (simp add: read_ok_def staged)
  ultimately show thesis
    using index by (intro that [OF staged(4)]) (simp_all add: staged)
qed

section \<open>Sessions\<close>

text \<open>What an application may do with a transaction: take one from a store or from the repository alone, begin
  a command, read streams or hand in what it has loaded, stage events on a handle it holds, fence, expect
  versions and configure. The world changes in between as it likes. The handles of one session have one
  type, so their aggregates share a type of states and of events; the engine lets each have its own.\<close>

inductive tx_session ::
  "(error \<Rightarrow> string) \<Rightarrow> ('r, 'op) repository
    \<Rightarrow> 'op transaction \<Rightarrow> (('a, 'c, 'e, 'x) aggregate \<times> ('a, 'e, 'op) read_handle) list \<Rightarrow> 'r \<Rightarrow> bool"
  for display rp where
  session_new: "tx_session display rp (store_transaction ident (st :: ('a, 'e, 'op) store)) [] r"
| session_engine: "tx_session display rp (new_engine_transaction ident) [] r"
| session_world: "tx_session display rp tx hs r \<Longrightarrow> tx_session display rp tx hs r'"
| session_begin: "tx_session display rp tx hs r \<Longrightarrow> begin_frozen rp p tx r = (b, tx', r') \<Longrightarrow>
    tx_session display rp tx' hs r'"
| session_begin_command: "tx_session display rp tx hs r \<Longrightarrow> begin_command rp identity m tx r = (b, tx', r') \<Longrightarrow>
    tx_session display rp tx' hs r'"
| session_read: "tx_session display rp tx hs r \<Longrightarrow> read_stream display ag rp entity tx r = (Inr h, tx', r') \<Longrightarrow>
    tx_session display rp tx' (hs @ [(ag, h)]) r'"
| session_read_failed: "tx_session display rp tx hs r \<Longrightarrow> read_stream display (ag :: ('a, 'c, 'e, 'x) aggregate) rp entity tx r = (Inl e, tx', r') \<Longrightarrow>
    tx_session display rp tx' hs r'"
| session_read_loaded: "tx_session display rp tx hs r \<Longrightarrow> read_loaded ag l tx = (Inr h, tx') \<Longrightarrow>
    tx_session display rp tx' (hs @ [(ag, h)]) r"
| session_stage: "tx_session display rp tx hs r \<Longrightarrow> i < length hs \<Longrightarrow> hs ! i = (ag, h) \<Longrightarrow>
    stage_stream ag h events named interval tx = Some (result, h', tx') \<Longrightarrow>
    tx_session display rp tx' (hs[i := (ag, h')]) r"
| session_fence: "tx_session display rp tx hs r \<Longrightarrow> add_fence f tx = Inr tx' \<Longrightarrow> tx_session display rp tx' hs r"
| session_expect: "tx_session display rp tx hs r \<Longrightarrow> expect_version entity head tx = Inr tx' \<Longrightarrow>
    tx_session display rp tx' hs r"
| session_outcomes: "tx_session display rp tx hs r \<Longrightarrow> tx_session display rp (tx_with_outcomes tx c) hs r"
| session_projector: "tx_session display rp tx hs r \<Longrightarrow> tx_session display rp (tx_with_commit_projector tx p) hs r"
| session_interval: "tx_session display rp tx hs r \<Longrightarrow> tx_session display rp (tx_with_snapshot_interval tx n) hs r"

definition session_ok ::
  "'op transaction \<Rightarrow> (('a, 'c, 'e, 'x) aggregate \<times> ('a, 'e, 'op) read_handle) list \<Rightarrow> bool" where
  "session_ok tx hs \<longleftrightarrow>
    tx_ok tx \<and> (\<forall>(ag, h) \<in> set hs. read_ok tx ag h) \<and> distinct (map (\<lambda>(_, h). rd_index h) hs)"

lemma session_ok_same:
  assumes "session_ok tx hs" and "tx_id tx' = tx_id tx" and "tx_streams tx' = tx_streams tx"
  shows "session_ok tx' hs"
  using assms by (simp add: session_ok_def tx_ok_def read_ok_def)

lemma begin_frozen_same:
  "begin_frozen rp p tx r = (b, tx', r') \<Longrightarrow> tx_id tx' = tx_id tx \<and> tx_streams tx' = tx_streams tx"
  by (auto simp: begin_frozen_def begin_pending_def split: sum.splits prod.splits option.splits)

lemma begin_command_same:
  "begin_command rp identity m tx r = (b, tx', r') \<Longrightarrow> tx_id tx' = tx_id tx \<and> tx_streams tx' = tx_streams tx"
  by (auto simp: begin_command_def begin_pending_def split: sum.splits prod.splits option.splits)

lemma read_loaded_Inr:
  assumes "read_loaded ag l tx = (Inr h, tx')"
  shows "tx_id tx' = tx_id tx" "rd_transaction h = tx_id tx" "rd_index h = length (tx_streams tx)" "rd_loaded h = l"
    "rd_base_sequence h = ld_sequence l" "\<forall>ss \<in> set (tx_streams tx). ss_entity_id ss \<noteq> ld_entity_id l"
    "\<exists>ss. tx_streams tx' = tx_streams tx @ [ss] \<and> ss_entity_id ss = ld_entity_id l \<and> ss_entity_type ss = ag_type ag
      \<and> ss_head ss = ld_sequence l \<and> ss_events ss = []"
  using assms by (auto simp: read_loaded_def check_unread_def check_open_def result_simps split: sum.splits)

lemma read_loaded_Inl: "read_loaded ag l tx = (Inl e, tx') \<Longrightarrow> tx' = tx"
  by (auto simp: read_loaded_def split: sum.splits)

lemma read_stream_Inr:
  assumes "read_stream display ag rp entity tx r = (Inr h, tx', r')"
  obtains l where "load_with_catch_up ag rp entity (tx_catch_up_threshold tx) r = (Inr l, r')" "read_loaded ag l tx = (Inr h, tx')"
  using assms by (auto simp: read_stream_def split: sum.splits prod.splits)

lemma read_stream_Inl:
  assumes "read_stream display ag rp entity tx r = (Inl e, tx', r')"
  shows "tx_id tx' = tx_id tx" "tx_streams tx' = tx_streams tx"
  using assms by (auto simp: read_stream_def split: sum.splits prod.splits dest: read_loaded_Inl)

lemma session_ok_read:
  assumes ok: "session_ok tx hs" and read: "read_loaded ag l tx = (Inr h, tx')"
  shows "session_ok tx' (hs @ [(ag, h)])"
proof -
  note new = read_loaded_Inr [OF read]
  obtain ss where ss: "tx_streams tx' = tx_streams tx @ [ss]" "ss_entity_id ss = ld_entity_id l" "ss_entity_type ss = ag_type ag"
    "ss_head ss = ld_sequence l" "ss_events ss = []"
    using new(7) by blast
  have "tx_ok tx'"
    using ok new(6) ss by (auto simp: session_ok_def tx_ok_def staged_ok_def)
  moreover have "read_ok tx' ag h"
    using new(1-5) ss by (simp add: read_ok_def)
  moreover have "read_ok tx' ag2 h2 \<and> rd_index h2 \<noteq> rd_index h" if "(ag2, h2) \<in> set hs" for ag2 h2
    using that ok new(1,3) ss(1) by (fastforce simp: session_ok_def read_ok_def nth_append)
  ultimately show ?thesis
    using ok by (fastforce simp: session_ok_def)
qed

lemma session_ok_stage:
  assumes ok: "session_ok tx hs" and i: "i < length hs" "hs ! i = (ag, h)"
    and stage: "stage_stream ag h events named interval tx = Some (result, h', tx')"
  shows "session_ok tx' (hs[i := (ag, h')])"
proof -
  have tx: "tx_ok tx" and h: "read_ok tx ag h"
    using ok i nth_mem [OF i(1)] by (auto simp: session_ok_def)
  have step: "tx_ok tx'" "read_ok tx' ag h'" "rd_index h' = rd_index h" "tx_id tx' = tx_id tx"
    "length (tx_streams tx') = length (tx_streams tx)" "\<forall>i. i \<noteq> rd_index h \<longrightarrow> tx_streams tx' ! i = tx_streams tx ! i"
    by (rule stage_stream_ok [OF tx h, of events named interval], use stage in simp)+
  have same: "map (\<lambda>(_, h). rd_index h) (hs[i := (ag, h')]) = map (\<lambda>(_, h). rd_index h) hs"
    using i step(3) by (simp add: map_update list_update_same_conv)
  have "read_ok tx' ag2 h2" if held: "(ag2, h2) \<in> set (hs[i := (ag, h')])" for ag2 h2
  proof -
    obtain k where k: "k < length hs" "hs[i := (ag, h')] ! k = (ag2, h2)"
      using held by (auto simp: in_set_conv_nth)
    show ?thesis
    proof (cases "k = i")
      case True
      then show ?thesis
        using k step(2) i by simp
    next
      case False
      then have k2: "hs ! k = (ag2, h2)"
        using k by simp
      then have "read_ok tx ag2 h2"
        using ok nth_mem [OF k(1)] by (auto simp: session_ok_def)
      moreover have "rd_index h2 \<noteq> rd_index h"
        using ok False k(1) i k2 nth_eq_iff_index_eq [of "map (\<lambda>(_, h). rd_index h) hs" k i] by (simp add: session_ok_def)
      ultimately show ?thesis
        using step(4-6) by (simp add: read_ok_def)
    qed
  qed
  then show ?thesis
    using ok same step(1) by (auto simp: session_ok_def)
qed

theorem session_invariant: "tx_session display rp tx hs r \<Longrightarrow> session_ok tx hs"
proof (induction rule: tx_session.induct)
  case (session_new ident st r)
  then show ?case
    by (simp add: session_ok_def tx_ok_def store_transaction_def with_settings_def)
next
  case (session_engine ident r)
  then show ?case
    by (simp add: session_ok_def tx_ok_def new_engine_transaction_def with_settings_def)
next
  case (session_begin_command tx hs r identity m b tx' r')
  then show ?case
    using begin_command_same session_ok_same by metis
next
  case (session_read_loaded tx hs r ag l h tx')
  show ?case
    by (rule session_ok_read [OF session_read_loaded(3,2)])
next
  case (session_outcomes tx hs r c)
  show ?case
    by (rule session_ok_same [OF session_outcomes(2)]) (simp_all add: tx_with_outcomes_def)
next
  case (session_begin tx hs r p b tx' r')
  then show ?case
    using begin_frozen_same session_ok_same by metis
next
  case (session_read tx hs r ag entity h tx' r')
  show ?case
    by (rule read_stream_Inr [OF session_read(2)]) (rule session_ok_read [OF session_read(3)])
next
  case (session_read_failed tx hs r ag entity e tx' r')
  then show ?case
    using read_stream_Inl session_ok_same by metis
next
  case (session_stage tx hs r i ag h events named interval result h' tx')
  show ?case
    by (rule session_ok_stage [OF session_stage(5,2,3,4)])
next
  case (session_fence tx hs r f tx')
  have "tx_id tx' = tx_id tx" "tx_streams tx' = tx_streams tx"
    using session_fence(2) by (auto simp: add_fence_def result_simps split: if_splits)
  then show ?case
    using session_ok_same [OF session_fence(3)] by blast
next
  case (session_expect tx hs r entity head tx')
  have "tx_id tx' = tx_id tx" "tx_streams tx' = tx_streams tx"
    using session_expect(2) by (auto simp: expect_version_def result_simps)
  then show ?case
    using session_ok_same [OF session_expect(3)] by blast
next
  case (session_projector tx hs r p)
  show ?case
    by (rule session_ok_same [OF session_projector(2)]) (simp_all add: tx_with_commit_projector_def)
next
  case (session_interval tx hs r n)
  show ?case
    by (rule session_ok_same [OF session_interval(2)]) (simp_all add: tx_with_snapshot_interval_def)
qed

end
