(* ===== verification/Store_Mem.thy ===== *)
theory Store_Mem
  imports Store Mem_System
begin

text \<open>
  The store over the in-memory repository, and what it refines: a stream is its whole history, the
  list of every event ever committed to it, and an aggregate is the replay of that history from the
  beginning. Snapshots, compaction and catch-up snapshots never show.
\<close>

section \<open>The in-memory repository as a repository\<close>

text \<open>\<open>env\<close> is what other writers do to the store before each call. A commit carries no backend
  operations here.\<close>

type_synonym mem_world = "mem_handle \<times> mem_store"

definition mem_repository :: "json_codec \<Rightarrow> (mem_store \<Rightarrow> mem_store) \<Rightarrow> (mem_world, unit) repository" where
  "mem_repository j env =
    \<lparr>rp_name = ''MemRepository'', rp_writes_views = True,
     rp_commit = (\<lambda>c (h, s). (case mem_commit j c h (env s) of (r, h', s') \<Rightarrow> (r, h', s'))),
     rp_commit_transaction = (\<lambda>t (h, s). mem_commit_transaction j t h (env s)),
     rp_outcome = (\<lambda>command (h, s). (mem_outcome (env s) command, h, env s)),
     rp_events = (\<lambda>entity (h, s). (Inr (mem_events (env s) entity), h, env s)),
     rp_events_after = (\<lambda>entity after (h, s). (Inr (mem_events_after (env s) entity after), h, env s)),
     rp_snapshot = (\<lambda>entity (h, s). (Inr (mem_snapshot (env s) entity), h, env s)),
     rp_put_snapshot = (\<lambda>sn (h, s). mem_put_snapshot sn h (env s)),
     rp_declare_history_dependent = (\<lambda>types (h, s). mem_declare_history_dependent types h (env s)),
     rp_entity_heads = (\<lambda>ty (h, s). (Inr (mem_entity_heads (env s) ty), h, env s)),
     rp_backoff = (\<lambda>_ w. w), rp_late = (\<lambda>_ _. False)\<rparr>"

section \<open>Histories\<close>

text \<open>What the author of an aggregate promises: its JSON and its payloads decode to what was encoded,
  no upcaster touches an event of the current version, and upcasters keep the sequence.\<close>

definition aggregate_laws :: "('a, 'c, 'e, 'x) aggregate \<Rightarrow> bool" where
  "aggregate_laws ag \<longleftrightarrow>
    (\<forall>a b. ag_encode ag a = Inr b \<longrightarrow> ag_decode ag b = Inr a)
    \<and> (\<forall>e p. de_to_payload ag e = Inr p \<longrightarrow> de_from_payload ag (de_event_type ag e) (de_event_version ag e) p = Inr e)
    \<and> (\<forall>u \<in> set (ag_upcasters ag). \<forall>e. \<not> can_upcast u (de_event_type ag e) (de_event_version ag e))
    \<and> (\<forall>u \<in> set (ag_upcasters ag). \<forall>e e'. upcast u e = Inr e' \<longrightarrow> ev_sequence e' = ev_sequence e)"

definition full_replay ::
  "('a, 'c, 'e, 'x) aggregate \<Rightarrow> entity_id \<Rightarrow> serialized_event list \<Rightarrow> error + 'a loaded" where
  "full_replay ag entity history = fold_result (replay ag) (new_loaded ag entity) history"

text \<open>A stored stream tells a history: its head is the history's length, its log holds events of the
  history at their places, and its snapshot is the replay of a part from the beginning.\<close>

definition snapshot_tells ::
  "('a, 'c, 'e, 'x) aggregate \<Rightarrow> entity_id \<Rightarrow> serialized_event list \<Rightarrow> serialized_snapshot \<Rightarrow> bool" where
  "snapshot_tells ag entity history sn \<longleftrightarrow>
    0 \<le> sn_event_sequence sn \<and> sn_event_sequence sn \<le> int (length history)
    \<and> (\<exists>l. full_replay ag entity (take (nat (sn_event_sequence sn)) history) = Inr l
          \<and> ag_decode ag (sn_payload sn) = Inr (ld_aggregate l))"

definition numbered :: "serialized_event list \<Rightarrow> bool" where
  "numbered history \<longleftrightarrow> (\<forall>i < length history. ev_sequence (history ! i) = int i + 1)"

definition tells ::
  "('a, 'c, 'e, 'x) aggregate \<Rightarrow> entity_id \<Rightarrow> serialized_event list \<Rightarrow> mem_stream \<Rightarrow> bool" where
  "tells ag entity history st \<longleftrightarrow>
    ms_head st = int (length history) \<and> numbered history \<and> is_ok (full_replay ag entity history)
    \<and> (\<forall>k e. bt_get (ms_events st) k = Some e \<longrightarrow> 0 < k \<and> e = history ! nat (k - 1))
    \<and> (\<forall>sn. ms_snapshot st = Some sn \<longrightarrow> snapshot_tells ag entity history sn)"

section \<open>Replay\<close>

text \<open>What a load shows of a state: everything but the command window and the snapshot's number.\<close>

definition same_state :: "'a loaded \<Rightarrow> 'a loaded \<Rightarrow> bool" where
  "same_state l l' \<longleftrightarrow>
    ld_entity_id l = ld_entity_id l' \<and> ld_aggregate l = ld_aggregate l' \<and> ld_sequence l = ld_sequence l'"

lemma same_state_refl [simp]: "same_state l l"
  by (simp add: same_state_def)

lemma replay_same_state:
  assumes "same_state l l'" and "replay ag l e = Inr l1"
  shows "\<exists>l1'. replay ag l' e = Inr l1' \<and> same_state l1 l1'"
  using assms by (auto simp: replay_def same_state_def result_simps split: if_splits prod.splits)

lemma fold_replay_same_state:
  assumes "same_state l l'" and "fold_result (replay ag) l es = Inr l1"
  shows "\<exists>l1'. fold_result (replay ag) l' es = Inr l1' \<and> same_state l1 l1'"
  using assms
proof (induction es arbitrary: l l')
  case (Cons e es)
  obtain m where m: "replay ag l e = Inr m" "fold_result (replay ag) m es = Inr l1"
    using Cons.prems(2) by (auto split: sum.splits)
  obtain m' where "replay ag l' e = Inr m'" "same_state m m'"
    using replay_same_state [OF Cons.prems(1) m(1)] by blast
  then show ?case
    using Cons.IH [OF _ m(2)] by simp
qed simp

lemma upcast_keeps_sequence:
  assumes "aggregate_laws ag" and "upcast_event (ag_upcasters ag) e = Inr e'"
  shows "ev_sequence e' = ev_sequence e"
proof -
  have "ev_sequence e' = ev_sequence e"
    if "fold_result (\<lambda>e u. upcast_one u e) e us = Inr e'" "set us \<subseteq> set (ag_upcasters ag)" for us e e'
    using that
  proof (induction us arbitrary: e)
    case (Cons u us)
    obtain m where m: "upcast_one u e = Inr m" "fold_result (\<lambda>e u. upcast_one u e) m us = Inr e'"
      using Cons.prems(1) by (auto split: sum.splits)
    have "ev_sequence m = ev_sequence e"
      using m(1) Cons.prems(2) assms(1)
      by (auto simp: upcast_one_def aggregate_laws_def map_err_def split: if_splits sum.splits)
    then show ?case
      using Cons.IH [OF m(2)] Cons.prems(2) by simp
  qed simp
  then show ?thesis
    using assms(2) by (simp add: upcast_event_def)
qed

lemma replay_sequence:
  assumes "aggregate_laws ag" and "replay ag l e = Inr l'"
  shows "ld_sequence l' = ev_sequence e" and "ld_entity_id l' = ld_entity_id l"
    and "ev_sequence e = next_sequence (ld_sequence l)"
proof -
  show "ld_sequence l' = ev_sequence e"
    using assms(2) upcast_keeps_sequence [OF assms(1)]
    by (auto simp: replay_def decode_event_def result_simps map_err_def split: if_splits sum.splits)
  show "ld_entity_id l' = ld_entity_id l" "ev_sequence e = next_sequence (ld_sequence l)"
    using assms(2) by (auto simp: replay_def result_simps split: if_splits prod.splits)
qed

lemma full_replay_sequence:
  assumes "aggregate_laws ag" and "numbered history" and "full_replay ag entity history = Inr l"
  shows "ld_sequence l = int (length history)" and "ld_entity_id l = entity"
proof -
  have "ld_sequence l = int (length history) \<and> ld_entity_id l = entity"
    using assms(2,3)
  proof (induction history arbitrary: l rule: rev_induct)
    case Nil
    then show ?case
      by (auto simp: full_replay_def new_loaded_def)
  next
    case (snoc e es)
    obtain m where m: "full_replay ag entity es = Inr m" "replay ag m e = Inr l"
      using snoc.prems(2) by (auto simp: full_replay_def fold_result_append result_simps and_then_def split: sum.splits)
    have "numbered es"
      unfolding numbered_def
    proof (intro allI impI)
      fix i
      assume "i < length es"
      then show "ev_sequence (es ! i) = int i + 1"
        using snoc.prems(1) by (auto simp: numbered_def nth_append dest: spec [of _ i])
    qed
    moreover have "ev_sequence e = int (length es) + 1"
      using snoc.prems(1) by (auto simp: numbered_def dest: spec [of _ "length es"])
    ultimately show ?case
      using snoc.IH m replay_sequence [OF assms(1) m(2)] by simp
  qed
  then show "ld_sequence l = int (length history)" and "ld_entity_id l = entity"
    by simp_all
qed

lemma full_replay_take:
  assumes "is_ok (full_replay ag entity history)"
  shows "\<exists>l. full_replay ag entity (take n history) = Inr l
    \<and> fold_result (replay ag) l (drop n history) = full_replay ag entity history"
proof -
  have "full_replay ag entity history =
      and_then (full_replay ag entity (take n history)) (\<lambda>l. fold_result (replay ag) l (drop n history))"
    using fold_result_append [of "replay ag" "new_loaded ag entity" "take n history" "drop n history"]
    by (simp add: full_replay_def and_then_def)
  then show ?thesis
    using assms by (cases "full_replay ag entity (take n history)") auto
qed

section \<open>Loading\<close>

lemma mem_events_after_tells:
  assumes ok: "stream_ok entity (stream_of s entity)" and tells: "tells ag entity history (stream_of s entity)"
    and "0 \<le> n" and log: "log_from lo (stream_of s entity)"
  shows "mem_events_after s entity n = drop (nat (max lo n)) history"
proof -
  let ?st = "stream_of s entity"
  have lo: "0 \<le> lo" "\<And>k. bt_contains (ms_events ?st) k \<longleftrightarrow> lo < k \<and> k \<le> ms_head ?st"
    using log by (simp_all add: log_from_def)
  have wf: "bt_wf (ms_events ?st)" and head: "ms_head ?st = int (length history)"
    using ok tells by (simp_all add: stream_ok_def tells_def)
  let ?m = "nat (max lo n)"
  let ?list = "map (\<lambda>i. (int i + 1, history ! i)) [?m..<length history]"
  have list_wf: "bt_wf ?list"
    by (simp add: bt_wf_def comp_def sorted_wrt_iff_nth_less)
  have "bt_get (filter (\<lambda>(k, _). n < k) (ms_events ?st)) k = bt_get ?list k" for k
  proof -
    have "bt_get (filter (\<lambda>(k, _). n < k) (ms_events ?st)) k = (if n < k then bt_get (ms_events ?st) k else None)"
      using bt_get_retain [OF wf, of "\<lambda>k _. n < k" k]
      by (simp add: bt_retain_def case_prod_unfold split: option.splits)
    also have "\<dots> = (if max lo n < k \<and> k \<le> int (length history) then Some (history ! nat (k - 1)) else None)"
    proof (cases "bt_get (ms_events ?st) k")
      case None
      then have "\<not> (lo < k \<and> k \<le> int (length history))"
        using lo(2) [of k] head by (simp add: bt_contains_def)
      then show ?thesis
        using None by auto
    next
      case (Some e)
      then have "lo < k \<and> k \<le> int (length history)"
        using lo(2) [of k] head by (simp add: bt_contains_def)
      moreover have "e = history ! nat (k - 1)"
        using tells Some by (simp add: tells_def)
      ultimately show ?thesis
        using Some by simp
    qed
    also have "\<dots> = bt_get ?list k"
    proof (cases "max lo n < k \<and> k \<le> int (length history)")
      case True
      then have "(k, history ! nat (k - 1)) \<in> set ?list"
        using lo(1) \<open>0 \<le> n\<close> by (auto intro!: image_eqI [of _ _ "nat (k - 1)"])
      then have "bt_get ?list k = Some (history ! nat (k - 1))"
        using bt_get_iff [OF list_wf] by blast
      then show ?thesis
        using True by simp
    next
      case False
      have "k \<notin> fst ` set ?list"
        using False lo(1) \<open>0 \<le> n\<close> by (auto simp: nat_le_iff)
      then have "bt_get ?list k = None"
        by (simp add: bt_get_def map_of_eq_None_iff)
      then show ?thesis
        using False by simp
    qed
    finally show ?thesis .
  qed
  then have "filter (\<lambda>(k, _). n < k) (ms_events ?st) = ?list"
    by (intro bt_ext wf_intros wf list_wf)
  then have "mem_events_after s entity n = map (\<lambda>i. history ! i) [?m..<length history]"
    by (simp add: mem_events_after_stream comp_def)
  also have "\<dots> = drop ?m history"
    by (rule nth_equalityI) auto
  finally show ?thesis .
qed

lemma numbered_take: "numbered history \<Longrightarrow> numbered (take n history)"
  by (simp add: numbered_def)

text \<open>What others may add to a history: events of which \<open>P\<close> holds.\<close>

definition grows :: "(serialized_event \<Rightarrow> bool) \<Rightarrow> serialized_event list \<Rightarrow> serialized_event list \<Rightarrow> bool" where
  "grows P h h' \<longleftrightarrow> (\<exists>more. h' = h @ more \<and> list_all P more)"

lemma grows_refl [simp, intro]: "grows P h h"
  by (simp add: grows_def)

lemma grows_trans: "grows P h1 h2 \<Longrightarrow> grows P h2 h3 \<Longrightarrow> grows P h1 h3"
  by (auto simp: grows_def)

lemma grows_length: "grows P h1 h2 \<Longrightarrow> length h1 \<le> length h2"
  by (auto simp: grows_def)

lemma grows_take: "grows P h1 h2 \<Longrightarrow> n \<le> length h1 \<Longrightarrow> take n h1 = take n h2"
  by (auto simp: grows_def)

lemma loaded_snapshot_tells:
  assumes laws: "aggregate_laws ag" and tells: "tells ag entity history st"
  obtains l0 l n where "loaded_snapshot ag entity (ms_snapshot st) = Inr l0" "n \<le> length history"
    "ld_sequence l0 = int n" "full_replay ag entity (take n history) = Inr l" "same_state l0 l"
    "n = (case ms_snapshot st of None \<Rightarrow> 0 | Some sn \<Rightarrow> nat (sn_event_sequence sn))"
proof (cases "ms_snapshot st")
  case None
  then show thesis
    using that [of "new_loaded ag entity" 0 "new_loaded ag entity"]
    by (simp add: loaded_snapshot_def full_replay_def) (simp add: new_loaded_def)
next
  case (Some sn)
  then have "snapshot_tells ag entity history sn" and num: "numbered history"
    using tells by (simp_all add: tells_def)
  then obtain l where bounds: "0 \<le> sn_event_sequence sn" "sn_event_sequence sn \<le> int (length history)"
    and l: "full_replay ag entity (take (nat (sn_event_sequence sn)) history) = Inr l"
    and dec: "ag_decode ag (sn_payload sn) = Inr (ld_aggregate l)"
    by (auto simp: snapshot_tells_def)
  have pos: "ld_sequence l = sn_event_sequence sn" "ld_entity_id l = entity"
    using full_replay_sequence [OF laws numbered_take [OF num] l] bounds by simp_all
  let ?l0 = "\<lparr>ld_entity_id = entity, ld_aggregate = ld_aggregate l, ld_sequence = sn_event_sequence sn,
    ld_snapshot_sequence = sn_sequence sn, ld_seen_command_ids = {}\<rparr>"
  show thesis
  proof (rule that [of ?l0 "nat (sn_event_sequence sn)" l])
    show "loaded_snapshot ag entity (ms_snapshot st) = Inr ?l0"
      using Some dec by (simp add: loaded_snapshot_def)
    show "same_state ?l0 l"
      using pos by (simp add: same_state_def)
  qed (use Some bounds l in simp_all)
qed

text \<open>Replaying events of the history from a state in its middle: when they are the next ones the result
  is the replay of the whole; when some are missing it is a sequence gap.\<close>

lemma replay_tail:
  assumes laws: "aggregate_laws ag" and num: "numbered history" and ok: "is_ok (full_replay ag entity history)"
    and l: "full_replay ag entity (take n history) = Inr l" and same: "same_state l0 l"
    and n: "n \<le> length history" "n \<le> m"
  shows "m = n \<Longrightarrow> \<exists>l1 l2. fold_result (replay ag) l0 (drop m history) = Inr l1
      \<and> full_replay ag entity history = Inr l2 \<and> same_state l1 l2"
    and "n < m \<Longrightarrow> m < length history \<Longrightarrow>
      fold_result (replay ag) l0 (drop m history) = Inl (SequenceGap entity (int n) (int m + 1))"
proof -
  have l0: "ld_sequence l0 = int n" "ld_entity_id l0 = entity"
    using full_replay_sequence [OF laws numbered_take [OF num] l] same n(1) by (simp_all add: same_state_def)
  show "\<exists>l1 l2. fold_result (replay ag) l0 (drop m history) = Inr l1
      \<and> full_replay ag entity history = Inr l2 \<and> same_state l1 l2" if "m = n"
  proof -
    obtain l2 where l2: "full_replay ag entity history = Inr l2"
      using ok by (auto simp: is_ok_iff)
    then have "fold_result (replay ag) l (drop n history) = Inr l2"
      using full_replay_take [OF ok, of n] l by auto
    moreover have "same_state l l0"
      using same by (simp add: same_state_def)
    ultimately obtain l1 where "fold_result (replay ag) l0 (drop n history) = Inr l1" "same_state l2 l1"
      using fold_replay_same_state by blast
    then show ?thesis
      using l2 \<open>m = n\<close> by (auto simp: same_state_def)
  qed
  show "fold_result (replay ag) l0 (drop m history) = Inl (SequenceGap entity (int n) (int m + 1))"
    if "n < m" "m < length history"
  proof -
    have "drop m history = history ! m # drop (Suc m) history"
      using that(2) by (simp add: Cons_nth_drop_Suc)
    moreover have "ev_sequence (history ! m) = int m + 1"
      using num that(2) by (simp add: numbered_def)
    moreover have "next_sequence (int n) \<noteq> int m + 1"
      using that(1) by (simp add: next_sequence_def saturating_add_def i64_min_def max_def min_def)
    ultimately show ?thesis
      using l0 by (simp add: replay_def)
  qed
qed

section \<open>Worlds\<close>

text \<open>The log holds every event the snapshot does not cover.\<close>

definition snapshot_position :: "mem_stream \<Rightarrow> event_sequence" where
  "snapshot_position st = (case ms_snapshot st of None \<Rightarrow> 0 | Some sn \<Rightarrow> sn_event_sequence sn)"

definition covered :: "mem_stream \<Rightarrow> bool" where
  "covered st \<longleftrightarrow> (\<forall>k. snapshot_position st < k \<and> k \<le> ms_head st \<longrightarrow> bt_contains (ms_events st) k)"

definition good :: "('a, 'c, 'e, 'x) aggregate \<Rightarrow> entity_id \<Rightarrow> serialized_event list \<Rightarrow> mem_store \<Rightarrow> bool" where
  "good ag entity history s \<longleftrightarrow> mem_inv s \<and> tells ag entity history (stream_of s entity) \<and> covered (stream_of s entity)"

text \<open>Other writers only add events of which \<open>P\<close> holds to the history.\<close>

definition env_ok ::
  "('a, 'c, 'e, 'x) aggregate \<Rightarrow> entity_id \<Rightarrow> (serialized_event \<Rightarrow> bool) \<Rightarrow> (mem_store \<Rightarrow> mem_store) \<Rightarrow> bool" where
  "env_ok ag entity P env \<longleftrightarrow>
    (\<forall>history s. good ag entity history s \<longrightarrow> (\<exists>history'. grows P history history' \<and> good ag entity history' (env s)))"

text \<open>A loaded state is the replay of the history as it was at some point.\<close>

definition past_state :: "('a, 'c, 'e, 'x) aggregate \<Rightarrow> entity_id \<Rightarrow> serialized_event list \<Rightarrow> 'a loaded \<Rightarrow> bool" where
  "past_state ag entity history l \<longleftrightarrow>
    (\<exists>k \<le> length history. \<exists>l2. full_replay ag entity (take k history) = Inr l2 \<and> same_state l l2)"

lemma past_state_mono: "past_state ag entity h l \<Longrightarrow> grows P h h' \<Longrightarrow> past_state ag entity h' l"
  unfolding past_state_def using grows_take by (metis grows_length order_trans)

lemma good_stream_ok: "good ag entity history s \<Longrightarrow> stream_ok e (stream_of s e)"
  by (simp add: good_def mem_inv_def stream_of_ok)

lemma good_manifest [simp]: "good ag entity history (s\<lparr>mr_manifest := m\<rparr>) \<longleftrightarrow> good ag entity history s"
  by (simp add: good_def stream_of_def)

lemma env_okE:
  assumes "env_ok ag entity P env" and "good ag entity history s"
  obtains history' where "grows P history history'" "good ag entity history' (env s)"
  using assms by (auto simp: env_ok_def)

lemma mem_snapshot_stream: "mem_snapshot s entity = ms_snapshot (stream_of s entity)"
  by (simp add: mem_snapshot_def stream_of_def absent_stream_def split: option.splits)

text \<open>A snapshot read from one store and the events after it from a later one.\<close>

lemma load_reads:
  assumes laws: "aggregate_laws ag" and g1: "good ag entity h1 s1" and g2: "good ag entity h2 s2"
    and pre: "grows P h1 h2" and l0: "loaded_snapshot ag entity (mem_snapshot s1 entity) = Inr l0"
  shows "(\<exists>after found. fold_result (replay ag) l0 (mem_events_after s2 entity (ld_sequence l0)) = Inl (SequenceGap entity after found))
    \<or> (\<exists>l. fold_result (replay ag) l0 (mem_events_after s2 entity (ld_sequence l0)) = Inr l \<and> past_state ag entity h2 l)"
proof -
  have t1: "tells ag entity h1 (stream_of s1 entity)" and t2: "tells ag entity h2 (stream_of s2 entity)"
    using g1 g2 by (simp_all add: good_def)
  obtain l0' l n where l0': "loaded_snapshot ag entity (ms_snapshot (stream_of s1 entity)) = Inr l0'"
    and n: "n \<le> length h1" "ld_sequence l0' = int n" and l: "full_replay ag entity (take n h1) = Inr l"
    and same: "same_state l0' l"
    by (rule loaded_snapshot_tells [OF laws t1])
  have eq: "l0' = l0"
    using l0 l0' by (simp add: mem_snapshot_stream)
  obtain lo where lo: "log_from lo (stream_of s2 entity)"
    using good_stream_ok [OF g2, of entity] by (auto simp: stream_ok_def)
  let ?m = "nat (max lo (int n))"
  have events: "mem_events_after s2 entity (int n) = drop ?m h2"
    by (rule mem_events_after_tells [OF good_stream_ok [OF g2] t2 _ lo]) simp
  have n2: "n \<le> length h2" "n \<le> ?m" and take2: "take n h1 = take n h2"
    using n(1) grows_length [OF pre] grows_take [OF pre] by auto
  have num: "numbered h2" and ok: "is_ok (full_replay ag entity h2)"
    using t2 by (simp_all add: tells_def)
  note tail = replay_tail [OF laws num ok l [unfolded take2] same n2]
  consider "?m = n" | "n < ?m" "?m < length h2" | "length h2 \<le> ?m"
    using n2 by linarith
  then show ?thesis
  proof cases
    case 1
    then show ?thesis
      using tail(1) events n(2) eq by (fastforce simp: past_state_def)
  next
    case 2
    then show ?thesis
      using tail(2) events n(2) eq by simp
  next
    case 3
    then show ?thesis
      using events n2(1) n(2) eq l take2 same by (auto simp: past_state_def)
  qed
qed

text \<open>Read from one store, they give the whole history.\<close>

lemma load_reads_all:
  assumes laws: "aggregate_laws ag" and g: "good ag entity h s"
  obtains l0 l l2 where "loaded_snapshot ag entity (mem_snapshot s entity) = Inr l0"
    "mem_snapshot s entity = None \<longrightarrow> ld_sequence l0 = 0"
    "fold_result (replay ag) l0 (mem_events_after s entity (ld_sequence l0)) = Inr l"
    "full_replay ag entity h = Inr l2" "same_state l l2"
proof -
  let ?st = "stream_of s entity"
  have t: "tells ag entity h ?st" and cov: "covered ?st"
    using g by (simp_all add: good_def)
  obtain l0 l n where l0: "loaded_snapshot ag entity (ms_snapshot ?st) = Inr l0"
    and n: "n \<le> length h" "ld_sequence l0 = int n" and l: "full_replay ag entity (take n h) = Inr l"
    and same: "same_state l0 l" and pos: "n = (case ms_snapshot ?st of None \<Rightarrow> 0 | Some sn \<Rightarrow> nat (sn_event_sequence sn))"
    by (rule loaded_snapshot_tells [OF laws t])
  have "snapshot_position ?st = int n"
    using pos t by (auto simp: snapshot_position_def tells_def snapshot_tells_def split: option.splits)
  moreover obtain lo where lo: "log_from lo ?st"
    using good_stream_ok [OF g, of entity] by (auto simp: stream_ok_def)
  moreover have head: "ms_head ?st = int (length h)" and num: "numbered h" and ok: "is_ok (full_replay ag entity h)"
    using t by (simp_all add: tells_def)
  ultimately have "int n = int (length h) \<or> lo \<le> int n"
    using cov n(1) by (auto simp: covered_def log_from_def dest!: spec [of _ "int n + 1"])
  then have "drop (nat (max lo (int n))) h = drop n h"
    by (auto simp: max_def)
  then have "mem_events_after s entity (ld_sequence l0) = drop n h"
    using mem_events_after_tells [OF good_stream_ok [OF g] t _ lo, of "int n"] n(2) by simp
  then show thesis
    using that [of l0] replay_tail(1) [OF laws num ok l same n(1) order_refl refl] l0 n(2) pos
    by (auto simp: mem_snapshot_stream)
qed

lemma mem_events_zero: "mem_events s entity = mem_events_after s entity 0"
  by (simp add: mem_events_def)

lemma load_once_past:
  assumes laws: "aggregate_laws ag" and env: "env_ok ag entity P env" and g: "good ag entity h s"
    and run: "load_once ag (mem_repository j env) entity (hnd, s) = (result, hnd', s')"
  shows "\<exists>h'. grows P h h' \<and> good ag entity h' s' \<and> hnd' = hnd \<and>
    (\<forall>e. result = Inl e \<longrightarrow> (\<exists>after found. e = SequenceGap entity after found))
    \<and> (\<forall>l n. result = Inr (l, n) \<longrightarrow> past_state ag entity h' l)"
proof -
  obtain h1 where h1: "grows P h h1" "good ag entity h1 (env s)"
    by (rule env_okE [OF env g])
  obtain h2 where h2: "grows P h1 h2" "good ag entity h2 (env (env s))"
    by (rule env_okE [OF env h1(2)])
  have t1: "tells ag entity h1 (stream_of (env s) entity)"
    using h1(2) by (simp add: good_def)
  obtain l0 where l0: "loaded_snapshot ag entity (mem_snapshot (env s) entity) = Inr l0"
    and zero: "mem_snapshot (env s) entity = None \<Longrightarrow> ld_sequence l0 = 0"
    by (rule loaded_snapshot_tells [OF laws t1]) (simp add: mem_snapshot_stream)
  let ?replayed = "fold_result (replay ag) l0 (mem_events_after (env (env s)) entity (ld_sequence l0))"
  have "hnd' = hnd \<and> s' = env (env s) \<and>
      result = and_then ?replayed (\<lambda>l'. Inr (l', length (mem_events_after (env (env s)) entity (ld_sequence l0))))"
    using run l0 zero
    by (cases "mem_snapshot (env s) entity") (auto simp: load_once_def mem_repository_def mem_events_zero)
  then show ?thesis
    using load_reads [OF laws h1(2) h2(2,1) l0] h2 grows_trans [OF h1(1) h2(1)] by auto
qed

lemma load_attempts_past:
  assumes laws: "aggregate_laws ag" and env: "env_ok ag entity P env" and g: "good ag entity h s"
    and run: "load_attempts ag (mem_repository j env) entity left (hnd, s) = (result, hnd', s')"
  shows "\<exists>h'. grows P h h' \<and> good ag entity h' s' \<and>
    (\<forall>l n. result = Inr (l, n) \<longrightarrow> past_state ag entity h' l)"
  using g run
proof (induction left arbitrary: h hnd s)
  case 0
  have "load_once ag (mem_repository j env) entity (hnd, s) = (result, hnd', s')"
    using 0(2) by simp
  from load_once_past [OF laws env 0(1) this] show ?case
    by blast
next
  case (Suc left)
  obtain r1 hnd1 s1 where once: "load_once ag (mem_repository j env) entity (hnd, s) = (r1, hnd1, s1)"
    by (metis prod.collapse)
  obtain h1 where h1: "grows P h h1" "good ag entity h1 s1"
    and past: "\<And>l n. r1 = Inr (l, n) \<Longrightarrow> past_state ag entity h1 l"
    using load_once_past [OF laws env Suc.prems(1) once] by blast
  show ?case
  proof (cases "\<exists>e. r1 = Inl e \<and> is_conflict e")
    case True
    then have "load_attempts ag (mem_repository j env) entity left (hnd1, s1) = (result, hnd', s')"
      using Suc.prems(2) once by auto
    then obtain h2 where "grows P h1 h2" "good ag entity h2 s'"
      "\<forall>l n. result = Inr (l, n) \<longrightarrow> past_state ag entity h2 l"
      using Suc.IH [OF h1(2)] by blast
    then show ?thesis
      using h1(1) grows_trans by blast
  next
    case False
    then have "result = r1 \<and> s' = s1"
      using Suc.prems(2) once by (auto split: sum.splits if_splits)
    then show ?thesis
      using h1 past by blast
  qed
qed

text \<open>Storing the state as a snapshot keeps the history.\<close>

lemma put_snapshot_good:
  assumes laws: "aggregate_laws ag" and g: "good ag entity h s" and past: "past_state ag entity h l"
    and entity: "ld_entity_id l = entity" and enc: "ag_encode ag (ld_aggregate l) = Inr payload"
    and sn: "sn_entity_id sn = entity" "sn_event_sequence sn = ld_sequence l" "sn_payload sn = payload"
    and run: "mem_put_snapshot sn hnd s = (r, hnd', s')"
  shows "good ag entity h s'"
proof -
  obtain k l2 where k: "k \<le> length h" "full_replay ag entity (take k h) = Inr l2" "same_state l l2"
    using past by (auto simp: past_state_def)
  have t: "tells ag entity h (stream_of s entity)"
    using g by (simp add: good_def)
  have pos: "sn_event_sequence sn = int k"
    using full_replay_sequence [OF laws numbered_take k(2)] k t sn(2) by (simp add: tells_def same_state_def)
  have "ag_decode ag (sn_payload sn) = Inr (ld_aggregate l2)"
    using laws enc sn(3) k(3) unfolding aggregate_laws_def same_state_def by metis
  then have told: "snapshot_tells ag entity h sn"
    using k(1,2) by (simp add: snapshot_tells_def pos)
  have inv: "mem_inv s'"
    using mem_put_snapshot_ok [OF run] g by (simp add: good_def)
  obtain r1 hnd1 s1 where cm: "check_manifest hnd s = (r1, hnd1, s1)"
    by (cases "check_manifest hnd s") auto
  have s1: "stream_of s1 entity = stream_of s entity"
    by (subst check_manifest_frame [OF cm]) (simp add: stream_of_def)
  have "stream_of s' entity = stream_of s entity \<or>
      stream_of s' entity = (stream_of s entity)\<lparr>ms_snapshot := Some sn\<rparr>
      \<and> (\<forall>old. ms_snapshot (stream_of s entity) = Some old \<longrightarrow> sn_event_sequence old \<le> sn_event_sequence sn)"
    using run cm s1 sn(1)
    by (auto simp: mem_put_snapshot_def Let_def stream_of_update split: sum.splits if_splits option.splits)
  then show ?thesis
    using g inv t told pos
    by (auto simp: good_def tells_def covered_def snapshot_position_def split: option.splits)
qed

lemma catch_up_past:
  assumes laws: "aggregate_laws ag" and env: "env_ok ag entity P env" and g: "good ag entity h s"
    and past: "past_state ag entity h l"
    and run: "catch_up_snapshot ag (mem_repository j env) l (hnd, s) = (l', hnd', s')"
  shows "\<exists>h'. grows P h h' \<and> good ag entity h' s' \<and> past_state ag entity h' l'"
proof (cases "s' = s")
  case True
  have "same_state l' l"
    using run by (auto simp: catch_up_snapshot_def Let_def same_state_def split: sum.splits bool.splits prod.splits)
  then have "past_state ag entity h l'"
    using past by (auto simp: past_state_def same_state_def)
  then show ?thesis
    using True g by blast
next
  case False
  have same: "same_state l' l"
    using run by (auto simp: catch_up_snapshot_def Let_def same_state_def split: sum.splits bool.splits prod.splits)
  obtain payload where enc: "ag_encode ag (ld_aggregate l) = Inr payload"
    using run False by (auto simp: catch_up_snapshot_def split: sum.splits)
  let ?sn = "\<lparr>sn_entity_type = ag_type ag, sn_entity_id = ld_entity_id l,
    sn_sequence = next_sequence (ld_snapshot_sequence l), sn_event_sequence = ld_sequence l, sn_payload = payload\<rparr>"
  obtain r where put: "mem_put_snapshot ?sn hnd (env s) = (r, hnd', s')"
    using run False enc
    by (auto simp: catch_up_snapshot_def Let_def mem_repository_def split: sum.splits bool.splits prod.splits)
  obtain h' where h': "grows P h h'" "good ag entity h' (env s)"
    by (rule env_okE [OF env g])
  have past': "past_state ag entity h' l"
    by (rule past_state_mono [OF past h'(1)])
  have "ld_entity_id l = entity"
    using past full_replay_sequence(2) [OF laws numbered_take] g
    by (fastforce simp: past_state_def same_state_def good_def tells_def)
  then have "good ag entity h' s'"
    using put_snapshot_good [OF laws h'(2) past' _ enc _ _ _ put] by simp
  moreover have "past_state ag entity h' l'"
    using past' same by (auto simp: past_state_def same_state_def)
  ultimately show ?thesis
    using h'(1) by blast
qed

text \<open>Whatever other writers do meanwhile, a load returns the replay of the history as it was at some
  point.\<close>

lemma load_past:
  assumes laws: "aggregate_laws ag" and env: "env_ok ag entity P env" and g: "good ag entity h s"
    and run: "load_with_catch_up ag (mem_repository j env) entity threshold (hnd, s) = (result, hnd', s')"
  shows "\<exists>h'. grows P h h' \<and> good ag entity h' s' \<and> (\<forall>l. result = Inr l \<longrightarrow> past_state ag entity h' l)"
proof -
  obtain r1 hnd1 s1 where att: "load_attempts ag (mem_repository j env) entity (LOAD_ATTEMPTS - 1) (hnd, s) = (r1, hnd1, s1)"
    by (metis prod.collapse)
  obtain h1 where h1: "grows P h h1" "good ag entity h1 s1"
    and past: "\<And>l n. r1 = Inr (l, n) \<Longrightarrow> past_state ag entity h1 l"
    using load_attempts_past [OF laws env g att] by blast
  show ?thesis
  proof (cases r1)
    case (Inl e)
    then show ?thesis
      using run att h1 by (auto simp: load_with_catch_up_def)
  next
    case (Inr x)
    obtain l n where x: "x = (l, n)"
      by (cases x)
    show ?thesis
    proof (cases "0 < threshold \<and> threshold \<le> n")
      case True
      obtain l' w where cu: "catch_up_snapshot ag (mem_repository j env) l (hnd1, s1) = (l', w)"
        by (metis prod.collapse)
      then have "result = Inr l'" "w = (hnd', s')"
        using run att Inr x True by (auto simp: load_with_catch_up_def)
      then show ?thesis
        using catch_up_past [OF laws env h1(2) past] Inr x cu h1(1) grows_trans by blast
    next
      case False
      then have "result = Inr l" "s' = s1"
        using run att Inr x by (auto simp: load_with_catch_up_def)
      then show ?thesis
        using h1 past Inr x by blast
    qed
  qed
qed

section \<open>Committing\<close>

lemma decode_current:
  assumes "aggregate_laws ag" and "de_to_payload ag e = Inr payload"
    and "ev_type stored = de_event_type ag e" "ev_version stored = de_event_version ag e" "ev_payload stored = payload"
  shows "decode_event ag stored = Inr (stored, e)"
proof -
  have "upcast_event (ag_upcasters ag) stored = Inr stored"
    using assms by (intro upcast_event_none) (simp add: aggregate_laws_def)
  then show ?thesis
    using assms by (simp add: decode_event_def aggregate_laws_def)
qed

text \<open>The events a command decides are numbered on from the state, and replay to what the aggregate
  made of them.\<close>

lemma serialize_events_replay:
  assumes laws: "aggregate_laws ag"
    and "serialize_events ag entity n events m = Inr serialized" and "ld_sequence l = n"
  shows "length serialized = length events
    \<and> (\<forall>i < length serialized. ev_sequence (serialized ! i) = n + int i + 1)
    \<and> (\<exists>l'. fold_result (replay ag) l serialized = Inr l'
        \<and> ld_aggregate l' = fold (ag_apply ag) events (ld_aggregate l))"
  using assms(2,3)
proof (induction events arbitrary: n l serialized)
  case Nil
  then show ?case
    by simp
next
  case (Cons e events)
  obtain payload rest where step: "checked_next n = Some (n + 1)" and payload: "de_to_payload ag e = Inr payload"
    and rest: "serialize_events ag entity (n + 1) events m = Inr rest"
    and eq: "serialized = \<lparr>ev_id = for_event entity (n + 1), ev_sequence = n + 1, ev_type = de_event_type ag e,
      ev_version = de_event_version ag e, ev_entity_id = entity, ev_entity_type = ag_type ag,
      ev_payload = payload, ev_metadata = m\<rparr> # rest" (is "_ = ?e # rest")
    using Cons.prems(1) by (auto simp: result_simps map_err_def checked_next_Some split: sum.splits)
  have "next_sequence n = n + 1"
    using step by (simp add: checked_next_Some next_sequence_def saturating_add_def in_i64_def)
  then obtain l1 where l1: "replay ag l ?e = Inr l1" "ld_sequence l1 = n + 1"
    "ld_aggregate l1 = ag_apply ag e (ld_aggregate l)"
    using Cons.prems(2) decode_current [OF laws payload, of ?e] by (simp add: replay_def)
  note ih = Cons.IH [OF rest l1(2)]
  have "ev_sequence (serialized ! i) = n + int i + 1" if "i < length serialized" for i
    using that ih eq by (cases i) auto
  then show ?case
    using ih l1 eq by auto
qed

lemma stage_Inr:
  assumes "stage ag st generated l events m = Inr (l', c)"
  shows "cm_entity_id c = ld_entity_id l"
    and "serialize_events ag (ld_entity_id l) (ld_sequence l) events (stamp_commit_id m generated) = Inr (cm_events c)"
    and "ld_aggregate l' = fold (ag_apply ag) events (ld_aggregate l)"
    and "\<And>sn. cm_snapshot c = Some sn \<Longrightarrow>
      ag_encode ag (fold (ag_apply ag) events (ld_aggregate l)) = Inr (ns_payload sn)"
    and "c\<lparr>cm_outcome := None\<rparr> = c"
proof -
  let ?a = "fold (ag_apply ag) events (ld_aggregate l)"
    and ?due = "0 < snapshot_events_due (ld_sequence l) (length events) (snapshot_interval ag st)"
  obtain serialized operations state views snapshot where
    ser: "serialize_events ag (ld_entity_id l) (ld_sequence l) events (stamp_commit_id m generated) = Inr serialized"
    and enc: "(if ?due \<or> st_commit_projectors st \<noteq> [] then map_err Json (ag_encode ag ?a) else Inr []) = Inr state"
    and snap: "(if ?due \<and> serialized \<noteq> []
      then within_budget \<lparr>ns_entity_type = ag_type ag,
             ns_sequence = next_sequence (ld_snapshot_sequence l), ns_payload = state\<rparr>
             (ld_entity_id l) (ev_sequence (last serialized))
      else Inr None) = Inr snapshot"
    and l': "ld_aggregate l' = ?a"
    and c: "c = \<lparr>cm_entity_id = ld_entity_id l, cm_events = serialized, cm_snapshot = snapshot,
      cm_operations = operations, cm_views = views, cm_outcome = None\<rparr>"
    using assms unfolding stage_def Let_def and_then_Inr sum.inject prod.inject by (elim exE conjE) force
  show "cm_entity_id c = ld_entity_id l" "ld_aggregate l' = ?a"
    "serialize_events ag (ld_entity_id l) (ld_sequence l) events (stamp_commit_id m generated) = Inr (cm_events c)"
    "c\<lparr>cm_outcome := None\<rparr> = c"
    using ser l' by (simp_all add: c)
  show "ag_encode ag ?a = Inr (ns_payload sn)" if "cm_snapshot c = Some sn" for sn
  proof -
    have "?due" "sn = \<lparr>ns_entity_type = ag_type ag, ns_sequence = next_sequence (ld_snapshot_sequence l), ns_payload = state\<rparr>"
      using that snap by (auto simp: c within_budget_def and_then_Inr split: if_splits)
    then show ?thesis
      using enc by (simp add: map_err_def split: sum.splits)
  qed
qed

lemma append_events_covered:
  assumes con: "contiguous (cm_events c)" and "cm_events c \<noteq> []" and cov: "covered held"
    and seqs: "\<And>i. i < length (cm_events c) \<Longrightarrow> ev_sequence (cm_events c ! i) = ms_head held + int i + 1"
  shows "covered (append_events c held)"
proof (cases "cm_snapshot c")
  case None
  have last: "ev_sequence (last (cm_events c)) = ms_head held + int (length (cm_events c))"
    using seqs [of "length (cm_events c) - 1"] assms(2) by (simp add: last_conv_nth of_nat_diff Suc_leI)
  have "bt_contains (ms_events (append_events c held)) k"
    if k: "snapshot_position held < k" "k \<le> ms_head held + int (length (cm_events c))" for k
  proof (cases "k \<in> ev_sequence ` set (cm_events c)")
    case True
    then show ?thesis
      using append_events_get(1) [OF con] by (auto simp: bt_contains_def)
  next
    case False
    have "\<not> ms_head held < k"
    proof
      assume "ms_head held < k"
      then have "nat (k - ms_head held - 1) < length (cm_events c)"
        "ev_sequence (cm_events c ! nat (k - ms_head held - 1)) = k"
        using k(2) seqs [of "nat (k - ms_head held - 1)"] by auto
      then show False
        using False by (metis image_eqI nth_mem)
    qed
    then show ?thesis
      using cov k(1) append_events_get(2) [OF con False] by (simp add: covered_def bt_contains_def)
  qed
  then show ?thesis
    using None last by (simp add: covered_def append_events_def Let_def snapshot_position_def)
next
  case (Some new)
  have "ms_head held \<le> ev_sequence (last (cm_events c))"
    using seqs [of "length (cm_events c) - 1"] assms(2) by (simp add: last_conv_nth)
  then show ?thesis
    using Some by (auto simp: covered_def append_events_def Let_def snapshot_position_def written_snapshot_def)
qed

lemma commit_good:
  assumes laws: "aggregate_laws ag" and g: "good ag entity h s" and past: "past_state ag entity h l"
    and stage: "stage ag st generated l events m = Inr (l', c\<lparr>cm_outcome := None\<rparr>)" and ne: "events \<noteq> []"
    and run: "mem_commit j c hnd s = (Inr u, hnd', s')"
  shows "good ag entity (h @ cm_events c) s'"
    and "\<exists>l2. full_replay ag entity h = Inr l2 \<and> same_state l l2"
proof -
  let ?evs = "cm_events c" and ?a = "fold (ag_apply ag) events (ld_aggregate l)"
  have t: "tells ag entity h (stream_of s entity)" and inv: "mem_inv s"
    using g by (simp_all add: good_def)
  obtain k l2 where k: "k \<le> length h" "full_replay ag entity (take k h) = Inr l2" "same_state l l2"
    using past by (auto simp: past_state_def)
  have l: "ld_sequence l = int k" "ld_entity_id l = entity"
    using full_replay_sequence [OF laws numbered_take k(2)] k t by (simp_all add: tells_def same_state_def)
  note staged = stage_Inr(1-4) [OF stage, simplified]
  note ser = serialize_events_replay [OF laws staged(2) refl]
  have len: "length ?evs = length events" and seqs: "\<And>i. i < length ?evs \<Longrightarrow> ev_sequence (?evs ! i) = int k + int i + 1"
    using ser l(1) by auto
  have ne': "?evs \<noteq> []"
    using len ne by auto
  then have evs: "?evs \<noteq> []" "ev_sequence (hd ?evs) = int k + 1"
    using seqs [of 0] by (simp_all add: hd_conv_nth)
  obtain s1 where "check_manifest hnd s = (Inr (), hnd', s1)" and s1: "s1 = s\<lparr>mr_manifest := mr_manifest s1\<rparr>"
    and w: "writable j [c]" and valid: "validate j c = Inr ()"
    and checks: "write_checks s1 [c] [] (cm_views c) (stored_outcome c) (\<lambda>_. Inr ()) = Inr ()"
    and s': "s' = write_apply s1 [c] (cm_views c) (stored_outcome c)"
    using commit_written [OF run] evs(1) by blast
  have c: "cm_entity_id c = entity"
    using staged(1) l(2) by simp
  have old: "stream_of s1 entity = stream_of s entity"
    by (subst s1) (simp add: stream_of_def)
  have "ms_head (stream_of s entity) = int k"
    using written_head [OF w checks, of c] evs c old by simp
  then have full: "k = length h"
    using t by (simp add: tells_def)
  then show "\<exists>l2. full_replay ag entity h = Inr l2 \<and> same_state l l2"
    using k by simp
  have new: "stream_of s' entity = append_events c (stream_of s entity)"
    using write_apply_stream(1) [OF w, of c] evs(1) c old s' by simp
  have con: "contiguous ?evs"
    using validate_events [OF valid] by (simp add: well_formed_events_def)
  have last: "ev_sequence (last ?evs) = int (length (h @ ?evs))"
    using seqs [of "length ?evs - 1"] evs(1) full by (simp add: last_conv_nth of_nat_diff Suc_leI)
  have num: "numbered (h @ ?evs)"
    using t seqs full by (auto simp: numbered_def tells_def nth_append)
  obtain l3 where l3: "fold_result (replay ag) l ?evs = Inr l3" "ld_aggregate l3 = ?a"
    using ser by blast
  obtain l4 where l4: "fold_result (replay ag) l2 ?evs = Inr l4" "same_state l3 l4"
    using fold_replay_same_state [OF k(3) l3(1)] by blast
  have replayed: "full_replay ag entity (h @ ?evs) = Inr l4"
    using k(2) full l4(1) by (simp add: full_replay_def fold_result_append)
  have event: "0 < i \<and> e = (h @ ?evs) ! nat (i - 1)"
    if get: "bt_get (ms_events (append_events c (stream_of s entity))) i = Some e" for i e
  proof (cases "i \<in> ev_sequence ` set ?evs")
    case True
    then obtain n where n: "n < length ?evs" "i = ev_sequence (?evs ! n)"
      by (auto simp: in_set_conv_nth)
    then have "e = ?evs ! n"
      using append_events_get(1) [OF con, of "?evs ! n" "stream_of s entity"] get by simp
    moreover have "i = int (length h) + int n + 1"
      using n seqs full by simp
    ultimately show ?thesis
      by (simp add: nth_append nat_add_distrib)
  next
    case False
    then have "bt_get (ms_events (stream_of s entity)) i = Some e"
      using append_events_get(2) [OF con False] get by simp
    then have "0 < i" "e = h ! nat (i - 1)" "i \<le> int (length h)"
      using t good_stream_ok [OF g, of entity] stream_ok_above [of entity "stream_of s entity" i]
      by (auto simp: tells_def not_less [symmetric])
    then show ?thesis
      by (auto simp: nth_append)
  qed
  have "snapshot_tells ag entity (h @ ?evs) sn" if sn: "ms_snapshot (append_events c (stream_of s entity)) = Some sn" for sn
  proof (cases "cm_snapshot c")
    case None
    then have "snapshot_tells ag entity h sn"
      using sn t by (simp add: append_events_def Let_def tells_def)
    then show ?thesis
      by (auto simp: snapshot_tells_def nat_le_iff)
  next
    case (Some new)
    then have "sn_event_sequence sn = int (length (h @ ?evs))" "sn_payload sn = ns_payload new"
      using sn last by (auto simp: append_events_def Let_def written_snapshot_def)
    moreover have "ag_decode ag (ns_payload new) = Inr (ld_aggregate l4)"
      using staged(4) [OF Some] laws l3(2) l4(2) by (auto simp: aggregate_laws_def same_state_def)
    ultimately show ?thesis
      using replayed by (simp add: snapshot_tells_def)
  qed
  moreover have "ms_head (append_events c (stream_of s entity)) = int (length (h @ ?evs))"
    using last t by (simp add: append_events_def Let_def tells_def)
  ultimately have "tells ag entity (h @ ?evs) (stream_of s' entity)"
    unfolding new tells_def using num replayed event by simp
  moreover have "covered (stream_of s' entity)"
    unfolding new using g t seqs full
    by (intro append_events_covered [OF con evs(1)]) (simp_all add: good_def tells_def)
  ultimately show "good ag entity (h @ ?evs) s'"
    using mem_commit_ok [OF run inv] by (simp add: good_def)
qed

lemma failed_commit_good:
  assumes "mem_commit j c hnd s = (Inl e, hnd', s')" and "good ag entity h s"
  shows "good ag entity h s'"
proof -
  have "s' = s\<lparr>mr_manifest := mr_manifest s'\<rparr>"
    using assms(1) by (auto elim: mem_commit_cases)
  then show ?thesis
    using assms(2) good_manifest by metis
qed

section \<open>Executing\<close>

lemma declare_history_good:
  assumes "mem_declare_history_dependent types hnd s = (r, hnd', s')" and "good ag entity h s"
  shows "good ag entity h s'"
proof -
  have "s' = s \<or> (\<exists>m. s' = s\<lparr>mr_manifest := m\<rparr>)"
    using assms(1)
    by (auto simp: mem_declare_history_dependent_def mem_update_manifest_def Let_def split: if_splits)
  then show ?thesis
    using assms(2) by auto
qed

lemma store_ready_good:
  assumes env: "env_ok ag entity P env" and g: "good ag entity h s"
    and run: "store_ready (mem_repository j env) st (hnd, s) = (r, st', hnd', s')"
  shows "\<exists>h'. grows P h h' \<and> good ag entity h' s'"
proof -
  let ?pending = "pending_history (st_commit_projectors st) (st_history_declared st)"
  have "s' = s \<or> (\<exists>r1 hnd1. mem_declare_history_dependent ?pending hnd (env s) = (r1, hnd1, s'))"
    using run
    by (auto simp: store_ready_def ready_projectors_def mem_repository_def Let_def
        split: if_splits prod.splits sum.splits)
  moreover obtain h' where "grows P h h'" "good ag entity h' (env s)"
    by (rule env_okE [OF env g])
  ultimately show ?thesis
    using g declare_history_good by blast
qed

lemma store_commit_cases:
  assumes "store_commit ag rp generated l events m st r = (result, st', r')"
  obtains (refused) e where "result = Inl e" "r' = r"
  | (nothing) "events = []" "result = Inr (l, [])" "r' = r"
  | (not_ready) e where "store_ready rp st r = (Inl e, st', r')" "result = Inl e"
  | (not_staged) e where "store_ready rp st r = (Inr (), st', r')" "result = Inl e"
  | (failed) r1 l' c e where "events \<noteq> []" "store_ready rp st r = (Inr (), st', r1)"
      "stage ag st' generated l events m = Inr (l', c)" "rp_commit rp c r1 = (Inl e, r')" "result = Inl e"
  | (committed) r1 l' c where "events \<noteq> []" "store_ready rp st r = (Inr (), st', r1)"
      "stage ag st' generated l events m = Inr (l', c)" "rp_commit rp c r1 = (Inr (), r')"
      "result = Inr (l', cm_events c)"
  using assms unfolding store_commit_def commit_with_receipt_def receipt_of_commit_def
  by (fastforce split: sum.splits prod.splits if_splits)

lemma store_commit_good:
  assumes laws: "aggregate_laws ag" and env: "env_ok ag entity P env" and g: "good ag entity h s"
    and past: "past_state ag entity h l"
    and run: "store_commit ag (mem_repository j env) generated l events m st (hnd, s) = (result, st', hnd', s')"
  shows "\<exists>h'. grows P h h' \<and> (case result of
      Inl e \<Rightarrow> good ag entity h' s'
    | Inr (l', evs) \<Rightarrow> good ag entity (h' @ evs) s' \<and> (if events = [] then evs = [] \<and> l' = l
        else \<exists>l2. full_replay ag entity h' = Inr l2 \<and> same_state l l2
          \<and> serialize_events ag entity (int (length h')) events (stamp_commit_id m generated) = Inr evs
          \<and> ld_aggregate l' = fold (ag_apply ag) events (ld_aggregate l)))"
  using run
proof (cases rule: store_commit_cases)
  case (refused e)
  then show ?thesis
    using g by auto
next
  case nothing
  then show ?thesis
    using g by auto
next
  case (not_ready e)
  then show ?thesis
    using store_ready_good [OF env g] by auto
next
  case (not_staged e)
  then show ?thesis
    using store_ready_good [OF env g] by auto
next
  case (failed r1 l' c e)
  obtain hnd1 s1 where r1: "r1 = (hnd1, s1)"
    by (cases r1)
  obtain h1 where h1: "grows P h h1" "good ag entity h1 s1"
    using store_ready_good [OF env g] failed(2) r1 by blast
  obtain h2 where h2: "grows P h1 h2" "good ag entity h2 (env s1)"
    by (rule env_okE [OF env h1(2)])
  have "mem_commit j c hnd1 (env s1) = (Inl e, hnd', s')"
    using failed(4) r1 by (auto simp: mem_repository_def split: prod.splits)
  then have "good ag entity h2 s'"
    using failed_commit_good h2(2) by blast
  then show ?thesis
    using failed(5) grows_trans [OF h1(1) h2(1)] by auto
next
  case (committed r1 l' c)
  obtain hnd1 s1 where r1: "r1 = (hnd1, s1)"
    by (cases r1)
  obtain h1 where h1: "grows P h h1" "good ag entity h1 s1"
    using store_ready_good [OF env g] committed(2) r1 by blast
  obtain h2 where h2: "grows P h1 h2" "good ag entity h2 (env s1)"
    by (rule env_okE [OF env h1(2)])
  have pre: "grows P h h2"
    by (rule grows_trans [OF h1(1) h2(1)])
  have run: "mem_commit j c hnd1 (env s1) = (Inr (), hnd', s')"
    using committed(4) r1 by (auto simp: mem_repository_def split: prod.splits)
  have staged: "stage ag st' generated l events m = Inr (l', c\<lparr>cm_outcome := None\<rparr>)"
    using committed(3) stage_Inr(5) [OF committed(3)] by simp
  note good = commit_good [OF laws h2(2) past_state_mono [OF past pre] staged committed(1) run]
  obtain l2 where l2: "full_replay ag entity h2 = Inr l2" "same_state l l2"
    using good(2) by blast
  have "ld_sequence l = int (length h2)" "ld_entity_id l = entity"
    using full_replay_sequence [OF laws _ l2(1)] l2(2) h2(2) by (simp_all add: good_def tells_def same_state_def)
  then show ?thesis
    using good(1) l2 pre committed stage_Inr(2,3) [OF committed(3)] by auto
qed

end
