(* ===== verification/Store_History.thy ===== *)
theory Store_History
  imports Store_Mem
begin

text \<open>
  Commands against a history: what running a command, with and without retries, does to the history
  of an entity while other writers add to it, and which other writers the results allow for.
\<close>

section \<open>Executing\<close>

lemma execute_cases:
  assumes "execute ag rp generated entity command m st r = (result, st', r')"
  obtains (refused) e where "result = Inl e" "r' = r"
  | (not_loaded) e where "load ag rp st entity r = (Inl e, r')" "result = Inl (ExecuteStore e)"
  | (not_decided) l e where "load ag rp st entity r = (Inr l, r')" "result = Inl e"
  | (decided) l r1 events cr where "load ag rp st entity r = (Inr l, r1)"
      "ag_handle ag (ld_aggregate l) command = Inr events"
      "store_commit ag rp generated l events m st r1 = (cr, st', r')"
      "result = (case cr of Inl e \<Rightarrow> Inl (ExecuteStore e) | Inr x \<Rightarrow> Inr x)"
  using assms unfolding execute_def by (fastforce split: sum.splits prod.splits)

lemma execute_history:
  assumes laws: "aggregate_laws ag" and env: "env_ok ag entity P env" and g: "good ag entity h s"
    and run: "execute ag (mem_repository j env) generated entity command m st (hnd, s) = (result, st', hnd', s')"
  shows "\<exists>h'. grows P h h' \<and> (case result of
      Inl e \<Rightarrow> good ag entity h' s'
    | Inr (l', evs) \<Rightarrow> good ag entity (h' @ evs) s' \<and> (evs \<noteq> [] \<longrightarrow>
        (\<exists>l2 events. full_replay ag entity h' = Inr l2 \<and> ag_handle ag (ld_aggregate l2) command = Inr events
          \<and> serialize_events ag entity (int (length h')) events (stamp_commit_id m generated) = Inr evs
          \<and> ld_aggregate l' = fold (ag_apply ag) events (ld_aggregate l2))))"
  using run
proof (cases rule: execute_cases)
  case (refused e)
  then show ?thesis
    using g by auto
next
  case (not_loaded e)
  then show ?thesis
    using load_past [OF laws env g not_loaded(1) [unfolded load_def]] by auto
next
  case (not_decided l e)
  then show ?thesis
    using load_past [OF laws env g not_decided(1) [unfolded load_def]] by auto
next
  case (decided l r1 events cr)
  obtain hnd1 s1 where r1: "r1 = (hnd1, s1)"
    by (cases r1)
  obtain h1 where h1: "grows P h h1" "good ag entity h1 s1" "past_state ag entity h1 l"
    using load_past [OF laws env g decided(1) [unfolded load_def r1]] by blast
  obtain h2 where h2: "grows P h1 h2" and res: "case cr of
      Inl e \<Rightarrow> good ag entity h2 s'
    | Inr (l', evs) \<Rightarrow> good ag entity (h2 @ evs) s' \<and> (if events = [] then evs = [] \<and> l' = l
        else \<exists>l2. full_replay ag entity h2 = Inr l2 \<and> same_state l l2
          \<and> serialize_events ag entity (int (length h2)) events (stamp_commit_id m generated) = Inr evs
          \<and> ld_aggregate l' = fold (ag_apply ag) events (ld_aggregate l))"
    using store_commit_good [OF laws env h1(2,3) decided(3) [unfolded r1]] by blast
  have pre: "grows P h h2"
    by (rule grows_trans [OF h1(1) h2])
  show ?thesis
  proof (cases cr)
    case (Inl e)
    then show ?thesis
      using res pre decided(4) by auto
  next
    case (Inr x)
    obtain l' evs where x: "x = (l', evs)"
      by (cases x)
    then show ?thesis
      using res pre decided(2,4) Inr by (auto simp: same_state_def split: if_splits)
  qed
qed

section \<open>Loading with no other writer\<close>

lemma load_once_whole:
  assumes laws: "aggregate_laws ag" and g: "good ag entity h s"
  obtains l n l2 where "load_once ag (mem_repository j id) entity (hnd, s) = (Inr (l, n), hnd, s)"
    "full_replay ag entity h = Inr l2" "same_state l l2"
proof -
  obtain l0 l l2 where read: "loaded_snapshot ag entity (mem_snapshot s entity) = Inr l0"
    "mem_snapshot s entity = None \<longrightarrow> ld_sequence l0 = 0"
    "fold_result (replay ag) l0 (mem_events_after s entity (ld_sequence l0)) = Inr l"
    and l2: "full_replay ag entity h = Inr l2" "same_state l l2"
    by (rule load_reads_all [OF laws g])
  have "load_once ag (mem_repository j id) entity (hnd, s) =
      (Inr (l, length (mem_events_after s entity (ld_sequence l0))), hnd, s)"
    using read by (cases "mem_snapshot s entity") (auto simp: load_once_def mem_repository_def mem_events_zero)
  then show thesis
    using that l2 by blast
qed

lemma catch_up_same_state: "catch_up_snapshot ag rp l r = (l', r') \<Longrightarrow> same_state l' l"
  by (auto simp: catch_up_snapshot_def Let_def same_state_def split: sum.splits bool.splits prod.splits)

lemma load_whole:
  assumes laws: "aggregate_laws ag" and g: "good ag entity h s"
    and run: "load ag (mem_repository j id) st entity (hnd, s) = (result, hnd', s')"
  shows "good ag entity h s'" and "\<exists>l l2. result = Inr l \<and> full_replay ag entity h = Inr l2 \<and> same_state l l2"
proof -
  have quiet: "env_ok ag entity (\<lambda>_. False) id"
    by (auto simp: env_ok_def)
  have "h' = h" if "grows (\<lambda>_. False) h h'" for h'
    using that by (auto simp: grows_def list_all_iff)
  then show "good ag entity h s'"
    using load_past [OF laws quiet g run [unfolded load_def]] by blast
  obtain l n l2 where once: "load_once ag (mem_repository j id) entity (hnd, s) = (Inr (l, n), hnd, s)"
    and l2: "full_replay ag entity h = Inr l2" "same_state l l2"
    by (rule load_once_whole [OF laws g])
  have "load_attempts ag (mem_repository j id) entity (Suc left) (hnd, s) = (Inr (l, n), hnd, s)" for left
    using once by simp
  then have "load_attempts ag (mem_repository j id) entity (LOAD_ATTEMPTS - 1) (hnd, s) = (Inr (l, n), hnd, s)"
    by (simp only: LOAD_ATTEMPTS_def) (simp add: numeral_2_eq_2)
  then obtain l' where "result = Inr l'" "same_state l' l"
    using run catch_up_same_state
    by (fastforce simp: load_def load_with_catch_up_def split: if_splits prod.splits)
  then show "\<exists>l l2. result = Inr l \<and> full_replay ag entity h = Inr l2 \<and> same_state l l2"
    using l2 by (auto simp: same_state_def)
qed

section \<open>What other writers may do\<close>

lemma env_ok_id: "env_ok ag entity P id"
  by (auto simp: env_ok_def)

lemma env_ok_comp: "env_ok ag entity P f \<Longrightarrow> env_ok ag entity P g \<Longrightarrow> env_ok ag entity P (g \<circ> f)"
  unfolding env_ok_def comp_def using grows_trans by blast

lemma compact_good:
  assumes "mem_compact_below e through hnd s = (r, s')" and g: "good ag entity h s"
  shows "good ag entity h s'"
  using assms(1)
proof (cases rule: mem_compact_below_cases)
  case unchanged
  then show ?thesis
    using g by simp
next
  case (compacted st sn)
  have inv: "mem_inv s'"
    using mem_compact_below_ok [OF assms(1)] g by (simp add: good_def)
  have wf: "bt_wf (ms_events st)"
    using compacted(1) g by (auto simp: good_def mem_inv_def streams_ok_def stream_ok_def)
  show ?thesis
  proof (cases "e = entity")
    case True
    have s': "stream_of s entity = st" "stream_of s' entity = compact_stream through st"
      using True compacted by (simp_all add: stream_of_def bt_get_insert)
    have get: "bt_get (ms_events (compact_stream through st)) k = (if through < k then bt_get (ms_events st) k else None)" for k
      using wf by (simp add: compact_stream_def bt_simps split: option.splits)
    have rest: "ms_head (compact_stream through st) = ms_head st" "ms_snapshot (compact_stream through st) = ms_snapshot st"
      by (simp_all add: compact_stream_def)
    have "tells ag entity h (compact_stream through st)"
      using g by (auto simp: good_def tells_def s'(1) get rest split: if_splits)
    moreover have "covered (compact_stream through st)"
      using g compacted(2,4) by (auto simp: good_def covered_def snapshot_position_def bt_contains_def s'(1) get rest)
    ultimately show ?thesis
      using inv by (simp add: good_def s'(2))
  next
    case False
    then show ?thesis
      using compacted g inv by (simp add: stream_of_def bt_get_insert good_def)
  qed
qed

text \<open>Compaction is such a writer, and so is another process that runs a command on the same entity.\<close>

lemma env_ok_compact: "env_ok ag entity P (\<lambda>s. snd (mem_compact_below e through hnd s))"
  unfolding env_ok_def using compact_good by (metis grows_refl prod.collapse)

section \<open>Retries\<close>

lemma retry_loop_cases:
  assumes "retry_loop run policy random sleep retry s = Some (result, delays, s')"
  obtains (ended) "run retry s = (result, s')" "delays = []"
  | (again) e s1 d delays' where "run retry s = (Inl e, s1)" "retry + 1 < max (max_attempts policy) 1"
      "delay policy (random retry) retry = Some d" "delays = d # delays'"
      "retry_loop run policy random sleep (retry + 1) (sleep d s1) = Some (result, delays', s')"
  using assms by (subst (asm) retry_loop.simps) (auto split: prod.splits sum.splits option.splits if_splits)

lemma retry_loop_result:
  assumes "retry_loop run policy random sleep retry s = Some (result, delays, s')" and "I s"
    and failing: "\<And>n s e s'. I s \<Longrightarrow> run n s = (Inl e, s') \<Longrightarrow> I s'"
    and ending: "\<And>n s x s'. I s \<Longrightarrow> run n s = (Inr x, s') \<Longrightarrow> Q x s'"
    and sleeping: "\<And>d s. I s \<Longrightarrow> I (sleep d s)"
  shows "case result of Inl _ \<Rightarrow> I s' | Inr x \<Rightarrow> Q x s'"
  using assms(1,2)
proof (induction "max (max_attempts policy) 1 - retry" arbitrary: retry s delays rule: less_induct)
  case less
  show ?case
    using less.prems(1)
  proof (cases rule: retry_loop_cases)
    case ended
    then show ?thesis
      using failing ending less.prems(2) by (cases result) auto
  next
    case (again e s1 d delays')
    then show ?thesis
      using less.hyps [OF _ again(5)] sleeping failing less.prems(2) by auto
  qed
qed

lemma retry_loop_delays:
  assumes "retry_loop run policy random sleep retry s = Some (result, delays, s')"
    and "retry < max (max_attempts policy) 1"
  shows "retry + length delays < max (max_attempts policy) 1" and "\<forall>d \<in> set delays. d \<le> max_delay policy"
proof -
  have "retry + length delays < max (max_attempts policy) 1 \<and> (\<forall>d \<in> set delays. d \<le> max_delay policy)"
    using assms
  proof (induction "max (max_attempts policy) 1 - retry" arbitrary: retry s delays rule: less_induct)
    case less
    show ?case
      using less.prems(1)
    proof (cases rule: retry_loop_cases)
      case ended
      then show ?thesis
        using less.prems(2) by simp
    next
      case (again e s1 d delays')
      have "d \<le> max_delay policy"
        using delay_bounds(2) [OF again(3)] by (simp add: delay_ceiling_def)
      then show ?thesis
        using less.hyps [OF _ again(5)] again(2,4) by auto
    qed
  qed
  then show "retry + length delays < max (max_attempts policy) 1" and "\<forall>d \<in> set delays. d \<le> max_delay policy"
    by simp_all
qed

lemma retry_loop_returns:
  assumes "max_delay policy < u64_max"
  shows "\<exists>result delays s'. retry_loop run policy random sleep retry s = Some (result, delays, s')"
proof (induction "max (max_attempts policy) 1 - retry" arbitrary: retry s rule: less_induct)
  case less
  obtain r s1 where run: "run retry s = (r, s1)"
    by (cases "run retry s")
  obtain d where d: "delay policy (random retry) retry = Some d"
    using delay_returns [OF assms] by blast
  show ?case
  proof (cases "retry + 1 < max (max_attempts policy) 1")
    case True
    then have "max (max_attempts policy) 1 - (retry + 1) < max (max_attempts policy) 1 - retry"
      by linarith
    then obtain result delays s' where
      "retry_loop run policy random sleep (retry + 1) (sleep d s1) = Some (result, delays, s')"
      using less by blast
    then show ?thesis
      using run d by (subst retry_loop.simps) (auto split: sum.splits)
  next
    case False
    then show ?thesis
      using run by (subst retry_loop.simps) (auto split: sum.splits)
  qed
qed

section \<open>Executing with retries\<close>

lemma execute_with_retry_history:
  fixes st :: "('a, 'e, unit) store"
  assumes laws: "aggregate_laws ag" and env: "env_ok ag entity P env" and g: "good ag entity h s"
    and sleep: "\<And>d. env_ok ag entity P (sleep d)"
    and run: "execute_with_retry ag (mem_repository j env) generated entity command m policy random
        (\<lambda>d (hnd, s). (hnd, sleep d s)) st (hnd, s) = Some (result, delays, st', hnd', s')"
  shows "\<exists>h'. grows P h h' \<and> (case result of
      Inl e \<Rightarrow> good ag entity h' s'
    | Inr (l', evs) \<Rightarrow> good ag entity (h' @ evs) s')"
proof -
  define I :: "('a, 'e, unit) store \<times> mem_world \<Rightarrow> bool" where "I = (\<lambda>(st, hnd, s). \<exists>h'. grows P h h' \<and> good ag entity h' s)"
  define Q :: "'a loaded \<times> serialized_event list \<Rightarrow> ('a, 'e, unit) store \<times> mem_world \<Rightarrow> bool" where "Q = (\<lambda>(l', evs) (st, hnd, s). \<exists>h'. grows P h h' \<and> good ag entity (h' @ evs) s)"
  let ?run = "\<lambda>n (st, r). execute ag (mem_repository j env) (generated n) entity command m st r"
  let ?sleep = "\<lambda>d (st, r). (st, (\<lambda>(hnd, s). (hnd, sleep d s)) r)"
  have loop: "retry_loop ?run policy random ?sleep 0 (st, hnd, s) = Some (result, delays, st', hnd', s')"
    using run by (simp add: execute_with_retry_def)
  have step: "\<exists>h''. grows P h h'' \<and> (case r of Inl e \<Rightarrow> good ag entity h'' s'' | Inr (l', evs) \<Rightarrow> good ag entity (h'' @ evs) s'')"
    if "grows P h h'" "good ag entity h' s1"
      "execute ag (mem_repository j env) (generated n) entity command m st1 (hnd1, s1) = (r, st2, hnd2, s'')"
    for n st1 hnd1 s1 r st2 hnd2 s'' h'
    using execute_history [OF laws env that(2,3)] grows_trans [OF that(1)] by (cases r) fastforce+
  have "case result of Inl _ \<Rightarrow> I (st', hnd', s') | Inr x \<Rightarrow> Q x (st', hnd', s')"
  proof (rule retry_loop_result [OF loop, of I Q])
    show "I (st, hnd, s)"
      using g by (auto simp: I_def)
    show "I x'" if "I x" "?run n x = (Inl e, x')" for n x e x'
      using that step unfolding I_def by (cases x; cases x') fastforce
    show "Q y x'" if "I x" "?run n x = (Inr y, x')" for n x y x'
      using that step unfolding I_def Q_def by (cases x; cases x'; cases y) fastforce
    show "I (?sleep d x)" if "I x" for d x
      using that sleep [of d] grows_trans by (cases x) (fastforce simp: I_def env_ok_def)
  qed
  then show ?thesis
    by (cases result) (auto simp: I_def Q_def split: prod.splits)
qed

end
