(* ===== verification/Store_Outcomes.thy ===== *)
theory Store_Outcomes
  imports Store_History
begin

text \<open>
  Commands with outcomes over the in-memory repository: an answer is always the row that is recorded,
  and running such a command, retries and all, adds its events to the history once.
\<close>

section \<open>The recorded row\<close>

definition recorded :: "command_id \<Rightarrow> string \<Rightarrow> 'e command_outcome \<Rightarrow> mem_store \<Rightarrow> bool" where
  "recorded command digest co s \<longleftrightarrow>
    bt_get (mr_outcomes s) command = Some (co_outcome co) \<and> oc_digest (co_outcome co) = digest"

lemma mem_outcome_found: "mem_outcome s command = Inr (Some o') \<Longrightarrow> bt_get (mr_outcomes s) command = Some o'"
  by (simp add: mem_outcome_def result_simps)

lemma poll_repository_found:
  "poll_repository (mem_repository j env) command n waited window (hnd, s) = (Found o', sleeps, hnd', s') \<Longrightarrow>
    bt_get (mr_outcomes s') command = Some o'"
proof (induction "mem_repository j env" command n waited window "(hnd, s)" arbitrary: hnd s sleeps rule: poll_repository.induct)
  case (1 command n waited window hnd s)
  let ?rp = "mem_repository j env"
  have read: "rp_outcome ?rp command (hnd, s) = (mem_outcome (env s) command, hnd, env s)"
    by (simp add: mem_repository_def)
  have still: "rp_backoff ?rp d w = w" for d w
    by (simp add: mem_repository_def)
  show ?case
  proof (cases "mem_outcome (env s) command = Inr None \<and> waited < window")
    case True
    then show ?thesis
      using 1 read by (subst (asm) poll_repository.simps) (auto simp: still Let_def split: prod.splits)
  next
    case False
    then show ?thesis
      using 1(2) read mem_outcome_found
      by (subst (asm) poll_repository.simps) (auto split: sum.splits option.splits if_splits error.splits)
  qed
qed

text \<open>The three kinds of failed commits that \<open>settle\<close> tells apart.\<close>

lemma settle_other:
  assumes "\<And>c. e \<noteq> OutcomeConflict c" and "\<And>x. e \<noteq> Indeterminate x"
  shows "settle b p command digest (Inl e) =
      (if may_have_lost_the_race e then
         (case b of
            Some (Inr (Some stored)) \<Rightarrow> and_then (same_command stored digest) (\<lambda>x. Inr (Replayed x))
          | Some (Inl err) \<Rightarrow> (case err of InvalidRecord _ \<Rightarrow> Inl err | _ \<Rightarrow> Inl e)
          | _ \<Rightarrow> Inl e)
       else Inl e)"
    and "settle_commit rp command digest window (Inl e) r =
      (if may_have_lost_the_race e then
         (case read_bounded rp command window r of (b, r') \<Rightarrow> (settle b PollAbsent command digest (Inl e), r'))
       else (settle None PollAbsent command digest (Inl e), r))"
proof -
  show "settle b p command digest (Inl e) =
      (if may_have_lost_the_race e then
         (case b of
            Some (Inr (Some stored)) \<Rightarrow> and_then (same_command stored digest) (\<lambda>x. Inr (Replayed x))
          | Some (Inl err) \<Rightarrow> (case err of InvalidRecord _ \<Rightarrow> Inl err | _ \<Rightarrow> Inl e)
          | _ \<Rightarrow> Inl e)
       else Inl e)"
    by (cases e; (simp only: settle_def sum.case error.case)?; (use assms in blast)?)
  show "settle_commit rp command digest window (Inl e) r =
      (if may_have_lost_the_race e then
         (case read_bounded rp command window r of (b, r') \<Rightarrow> (settle b PollAbsent command digest (Inl e), r'))
       else (settle None PollAbsent command digest (Inl e), r))"
    by (cases e; (simp only: settle_commit_def sum.case error.case)?; (use assms in blast)?)
qed

lemma invalid_record_split:
  "(case err of InvalidRecord _ \<Rightarrow> Inl err | _ \<Rightarrow> Inl e) = (Inr x :: error + 'a) \<longleftrightarrow> False"
  by (cases err) simp_all

lemma settle_Inl_Inr:
  assumes "settle b p command digest (Inl e) = Inr x"
  shows "\<exists>o'. x = Replayed o' \<and> oc_digest o' = digest \<and>
    (if \<exists>y. e = Indeterminate y then p = Found o' else b = Some (Inr (Some o')))"
proof -
  consider (conflict) c where "e = OutcomeConflict c" | (indeterminate) y where "e = Indeterminate y"
    | (other) "\<And>c. e \<noteq> OutcomeConflict c" "\<And>y. e \<noteq> Indeterminate y"
    by blast
  then show ?thesis
  proof cases
    case conflict
    then show ?thesis
      using assms by (auto simp: settle_def same_command_def result_simps split: option.splits sum.splits if_splits)
  next
    case indeterminate
    then show ?thesis
      using assms by (auto simp: settle_def same_command_def result_simps split: polled.splits option.splits if_splits)
  next
    case other
    then show ?thesis
      using assms unfolding settle_other(1) [OF other]
      by (auto simp: same_command_def result_simps invalid_record_split split: option.splits sum.splits if_splits)
  qed
qed

lemma read_bounded_mem:
  "read_bounded (mem_repository j env) command window (hnd, s) = (Some (mem_outcome (env s) command), hnd, env s)"
  by (simp add: read_bounded_def mem_repository_def)

lemma settle_commit_recorded:
  assumes "settle_commit (mem_repository j env) command digest window result (hnd, s) = (Inr x, hnd', s')"
  shows "result = Inr () \<and> x = Committed \<and> s' = s \<or>
    (\<exists>e o'. result = Inl e \<and> x = Replayed o' \<and> bt_get (mr_outcomes s') command = Some o' \<and> oc_digest o' = digest)"
proof (cases result)
  case (Inr u)
  then show ?thesis
    using assms by (simp add: settle_commit_def settle_def)
next
  case (Inl e)
  consider (conflict) c where "e = OutcomeConflict c" | (indeterminate) y where "e = Indeterminate y"
    | (other) "\<And>c. e \<noteq> OutcomeConflict c" "\<And>y. e \<noteq> Indeterminate y"
    by blast
  then show ?thesis
  proof cases
    case conflict
    then have "settle (Some (mem_outcome (env s) command)) PollAbsent command digest (Inl e) = Inr x \<and> s' = env s"
      using assms Inl by (auto simp: settle_commit_def read_bounded_mem)
    then show ?thesis
      using settle_Inl_Inr [of "Some (mem_outcome (env s) command)" PollAbsent command digest e x]
        conflict Inl mem_outcome_found by auto
  next
    case indeterminate
    obtain p sleeps w where poll: "poll_repository (mem_repository j env) command 0 0 window (hnd, s) = (p, sleeps, w)"
      by (rule prod_cases3)
    have "\<not> rp_late (mem_repository j env) d (hnd, s)" for d
      by (simp add: mem_repository_def)
    then have "settle None p command digest (Inl e) = Inr x \<and> w = (hnd', s')"
      using assms Inl indeterminate poll by (auto simp: settle_commit_def poll_row_def)
    then show ?thesis
      using settle_Inl_Inr [of None p command digest e x] indeterminate Inl poll poll_repository_found by auto
  next
    case other
    then show ?thesis
      using assms Inl settle_Inl_Inr [of None PollAbsent command digest e x]
        settle_Inl_Inr [of "Some (mem_outcome (env s) command)" PollAbsent command digest e x] mem_outcome_found
      by (auto simp: settle_other(2) [OF other] read_bounded_mem split: if_splits)
  qed
qed

lemma commit_row:
  assumes run: "mem_commit j c hnd s = (Inr u, hnd', s')" and o': "cm_outcome c = Some o'"
  shows "bt_get (mr_outcomes s') (oc_command_id o') = Some (stored_outcome_of o' (map ev_id (cm_events c)))"
proof -
  have some: "cm_events c \<noteq> [] \<or> cm_outcome c \<noteq> None"
    using o' by simp
  obtain s1 where "s' = write_apply s1 [c] (cm_views c) (stored_outcome c)"
    by (rule commit_written [OF run some]) (rule that)
  then show ?thesis
    using o' by (simp add: write_apply_def stored_outcome_def stored_outcome_of_def bt_get_insert)
qed

lemma commit_with_receipt_mem:
  "commit_with_receipt (mem_repository j env) c (hnd, s) =
    (case mem_commit j c hnd (env s) of
       (Inl e, w) \<Rightarrow> (Inl e, w) | (Inr _, w) \<Rightarrow> (Inr (cm_events c), w))"
  by (simp add: commit_with_receipt_def mem_repository_def receipt_of_commit_def split: prod.splits sum.splits)

lemma settled_outcome_Inl:
  assumes "settle_commit rp command digest window (Inl e) r = (x, r')"
  shows "(\<exists>e'. settled_outcome stored events typed x = Inl e')
    \<or> (\<exists>o'. x = Inr (Replayed o') \<and> settled_outcome stored events typed x = Inr (replay_outcome o'))"
proof (cases x)
  case (Inl e')
  then show ?thesis
    by (simp add: settled_outcome_def)
next
  case (Inr y)
  have "\<exists>b p. settle b p command digest (Inl e) = x"
  proof -
    consider (conflict) c where "e = OutcomeConflict c" | (indeterminate) y where "e = Indeterminate y"
      | (other) "\<And>c. e \<noteq> OutcomeConflict c" "\<And>y. e \<noteq> Indeterminate y"
      by blast
    then show ?thesis
    proof cases
      case conflict
      then show ?thesis
        using assms by (auto simp: settle_commit_def split: prod.splits)
    next
      case indeterminate
      then show ?thesis
        using assms by (auto simp: settle_commit_def split: prod.splits)
    next
      case other
      then show ?thesis
        using assms by (auto simp: settle_other(2) [OF other] split: prod.splits if_splits)
    qed
  qed
  then obtain o' where "y = Replayed o'"
    using settle_Inl_Inr Inr by blast
  then show ?thesis
    using Inr by (simp add: settled_outcome_def)
qed

lemma record_commit_cases:
  assumes "record_commit (mem_repository j env) st c o' typed (hnd, s) = (result, hnd', s')"
  obtains (committed) "mem_commit j (commit_with_outcome c o') hnd (env s) = (Inr (), hnd', s')"
      "result = Inr (fresh_outcome (stored_outcome_of o' (map ev_id (cm_events c))) (cm_events c) typed)"
  | (settled) e hnd1 s1 x where "mem_commit j (commit_with_outcome c o') hnd (env s) = (Inl e, hnd1, s1)"
      "settle_commit (mem_repository j env) (oc_command_id o') (oc_digest o') (recovery_wait st) (Inl e) (hnd1, s1) = (x, hnd', s')"
      "(\<exists>e'. result = Inl e') \<or> (\<exists>r. x = Inr (Replayed r) \<and> result = Inr (replay_outcome r))"
proof -
  let ?stored = "stored_outcome_of o' (map ev_id (cm_events c))"
  obtain r hnd1 s1 where run: "mem_commit j (commit_with_outcome c o') hnd (env s) = (r, hnd1, s1)"
    by (rule prod_cases3)
  have c: "cm_events (commit_with_outcome c o') = cm_events c"
    by (simp add: commit_with_outcome_def)
  have ids: "oc_command_id ?stored = oc_command_id o'" "oc_digest ?stored = oc_digest o'"
    by (simp_all add: stored_outcome_of_def)
  obtain x w where settle: "settle_commit (mem_repository j env) (oc_command_id o') (oc_digest o') (recovery_wait st)
      (map_sum id (\<lambda>_. ()) r) (hnd1, s1) = (x, w)"
    by (rule prod.exhaust)
  have result: "result = settled_outcome ?stored (case r of Inl _ \<Rightarrow> [] | Inr _ \<Rightarrow> cm_events c) typed x" "w = (hnd', s')"
    using assms run settle
    by (simp_all add: record_commit_def Let_def commit_with_receipt_mem split_receipt_def ids c split: sum.splits)
  show thesis
  proof (cases r)
    case (Inl e)
    then show ?thesis
      using run settle result settled [of e hnd1 s1 x] settled_outcome_Inl [of _ _ _ _ e _ x w ?stored "[]" typed]
      by fastforce
  next
    case (Inr u)
    then show ?thesis
      using run settle result committed
      by (auto simp: settle_commit_def settle_def settled_outcome_def)
  qed
qed

lemma record_commit_recorded:
  assumes "record_commit (mem_repository j env) st c o' typed (hnd, s) = (Inr co, hnd', s')"
  shows "recorded (oc_command_id o') (oc_digest o') co s'"
  using assms
proof (cases rule: record_commit_cases)
  case committed
  then show ?thesis
    using commit_row [OF committed(1), of o']
    by (auto simp: recorded_def commit_with_outcome_def fresh_outcome_def) (simp add: stored_outcome_of_def)
next
  case (settled e hnd1 s1 x)
  then show ?thesis
    using settle_commit_recorded by (fastforce simp: recorded_def replay_outcome_def)
qed

section \<open>The history\<close>

lemma poll_repository_good:
  assumes env: "env_ok ag entity P env"
  shows "good ag entity h s \<Longrightarrow>
    poll_repository (mem_repository j env) command n waited window (hnd, s) = (p, sleeps, hnd', s') \<Longrightarrow>
    \<exists>h'. grows P h h' \<and> good ag entity h' s'"
proof (induction "mem_repository j env" command n waited window "(hnd, s)" arbitrary: h hnd s sleeps rule: poll_repository.induct)
  case (1 command n waited window hnd s)
  let ?rp = "mem_repository j env"
  have read: "rp_outcome ?rp command (hnd, s) = (mem_outcome (env s) command, hnd, env s)"
    and still: "\<And>d w. rp_backoff ?rp d w = w"
    by (simp_all add: mem_repository_def)
  obtain h1 where h1: "grows P h h1" "good ag entity h1 (env s)"
    by (rule env_okE [OF env 1(2)])
  show ?case
  proof (cases "mem_outcome (env s) command = Inr None \<and> waited < window")
    case True
    let ?step = "min (poll_delay n) (window - waited)"
    have "poll_repository ?rp command (n + 1) (waited + ?step) window (hnd, env s) = (p, tl sleeps, hnd', s')"
      using 1(3) True read by (subst (asm) poll_repository.simps) (auto simp: still Let_def split: prod.splits)
    then have "\<exists>h'. grows P h1 h' \<and> good ag entity h' s'"
      using 1(1) [OF read [symmetric] _ refl _ refl still h1(2)] True by auto
    then show ?thesis
      using grows_trans [OF h1(1)] by blast
  next
    case False
    have "s' = env s"
      using 1(3) read False by (subst (asm) poll_repository.simps) (auto split: sum.splits option.splits if_splits)
    then show ?thesis
      using h1 by blast
  qed
qed

lemma settle_commit_good:
  assumes env: "env_ok ag entity P env" and g: "good ag entity h s"
    and run: "settle_commit (mem_repository j env) command digest window result (hnd, s) = (x, hnd', s')"
  shows "\<exists>h'. grows P h h' \<and> good ag entity h' s'"
proof (cases "\<exists>e. result = Inl e \<and> (\<exists>y. e = Indeterminate y)")
  case True
  have "\<not> rp_late (mem_repository j env) d (hnd, s)" for d
    by (simp add: mem_repository_def)
  then obtain p sleeps where "poll_repository (mem_repository j env) command 0 0 window (hnd, s) = (p, sleeps, hnd', s')"
    using run True by (auto simp: settle_commit_def poll_row_def split: prod.splits)
  then show ?thesis
    using poll_repository_good [OF env g] by blast
next
  case False
  have "s' = s \<or> s' = env s"
  proof (cases result)
    case (Inl e)
    show ?thesis
    proof (cases "\<exists>c. e = OutcomeConflict c")
      case True
      then show ?thesis
        using run Inl by (auto simp: settle_commit_def read_bounded_mem)
    next
      case False
      with Inl \<open>\<not> (\<exists>e. result = Inl e \<and> (\<exists>y. e = Indeterminate y))\<close> have "\<And>c. e \<noteq> OutcomeConflict c" "\<And>y. e \<noteq> Indeterminate y"
        by blast+
      then show ?thesis
        using run Inl by (auto simp: settle_other(2) read_bounded_mem split: if_splits)
    qed
  qed (use run in \<open>simp add: settle_commit_def\<close>)
  then show ?thesis
    using g env_okE [OF env g] by (metis grows_refl)
qed

text \<open>A commit that only records an outcome leaves every stream alone.\<close>

lemma outcome_only_commit_good:
  assumes run: "mem_commit j c hnd s = (Inr u, hnd', s')" and "cm_events c = []" and g: "good ag entity h s"
  shows "good ag entity h s'"
  using run
proof (cases rule: mem_commit_cases)
  case written
  then obtain s1 where s1: "s1 = s\<lparr>mr_manifest := mr_manifest s1\<rparr>" "s' = write_apply s1 [c] (cm_views c) (stored_outcome c)"
    by (auto elim!: mem_write_Inr)
  have "stream_of s' entity = stream_of s1 entity"
    unfolding s1(2) by (rule write_apply_stream(2) [OF written(2)]) (use assms(2) in auto)
  also have "\<dots> = stream_of s entity"
    by (subst s1(1)) (simp add: stream_of_def)
  finally show ?thesis
    using g mem_commit_ok [OF run] by (simp add: good_def)
qed (use g in simp_all)

text \<open>What running a command does to a history: it adds what others add, and then the events it
  reports, decided on the state just before them.\<close>

definition decided_events :: "('a, 'c, 'e, 'x) aggregate \<Rightarrow> 'a \<Rightarrow> 'c \<Rightarrow> 'e list" where
  "decided_events ag a command =
    (case ag_handle ag a command of Inr events \<Rightarrow> events | Inl e \<Rightarrow> ag_rejection_events ag a e)"

definition decided_on ::
  "('a, 'c, 'e, 'x) aggregate \<Rightarrow> entity_id \<Rightarrow> 'c \<Rightarrow> metadata \<Rightarrow> serialized_event list \<Rightarrow> 'e command_outcome \<Rightarrow> bool" where
  "decided_on ag entity command m h co \<longleftrightarrow>
    (\<exists>l generated. full_replay ag entity h = Inr l
      \<and> co_typed_events co = decided_events ag (ld_aggregate l) command
      \<and> serialize_events ag entity (int (length h)) (co_typed_events co) (stamp_commit_id m generated) = Inr (co_events co))"

definition command_history ::
  "('a, 'c, 'e, 'x) aggregate \<Rightarrow> entity_id \<Rightarrow> (serialized_event \<Rightarrow> bool) \<Rightarrow> 'c \<Rightarrow> metadata
    \<Rightarrow> serialized_event list \<Rightarrow> 'f + 'e command_outcome \<Rightarrow> mem_store \<Rightarrow> bool" where
  "command_history ag entity P command m h result s \<longleftrightarrow>
    (\<exists>h'. grows P h h' \<and> (case result of
        Inl _ \<Rightarrow> good ag entity h' s
      | Inr co \<Rightarrow> good ag entity (h' @ co_events co) s \<and> (co_events co \<noteq> [] \<longrightarrow> decided_on ag entity command m h' co)))"

lemma command_history_Inl:
  "command_history ag entity P command m h (Inl f) s \<longleftrightarrow> (\<exists>h'. grows P h h' \<and> good ag entity h' s)"
  by (simp add: command_history_def)

lemma command_history_Inr:
  "command_history ag entity P command m h (Inr co :: 'f + 'e command_outcome) s \<longleftrightarrow>
    (\<exists>h'. grows P h h' \<and> good ag entity (h' @ co_events co) s \<and> (co_events co \<noteq> [] \<longrightarrow> decided_on ag entity command m h' co))"
  by (simp add: command_history_def)

lemma command_history_quiet:
  assumes "grows P h h'" and "good ag entity h' s" and "\<And>co. result = Inr co \<Longrightarrow> co_events co = []"
  shows "command_history ag entity P command m h result s"
  using assms unfolding command_history_def by (cases result) auto

lemma command_history_mono:
  "grows P h h' \<Longrightarrow> command_history ag entity P command m h' result s \<Longrightarrow> command_history ag entity P command m h result s"
  unfolding command_history_def using grows_trans by blast

lemma command_history_map_err [simp]:
  "command_history ag entity P command m h (map_err f result) s = command_history ag entity P command m h result s"
  by (simp add: command_history_def map_err_def split: sum.splits)

lemma settled_history:
  assumes env: "env_ok ag entity P env" and g: "good ag entity h s"
    and fail: "mem_commit j c hnd (env s) = (Inl e, hnd1, s1)"
    and settle: "settle_commit (mem_repository j env) command digest window result (hnd1, s1) = (x, hnd', s')"
  shows "\<exists>h'. grows P h h' \<and> good ag entity h' s'"
proof -
  obtain h1 where h1: "grows P h h1" "good ag entity h1 (env s)"
    by (rule env_okE [OF env g])
  then show ?thesis
    using settle_commit_good [OF env failed_commit_good [OF fail h1(2)] settle] grows_trans by blast
qed

lemma replay_outcome_events [simp]: "co_events (replay_outcome o') = []"
  by (simp add: replay_outcome_def)

lemma record_noop_history:
  assumes env: "env_ok ag entity P env" and g: "good ag entity h s"
    and run: "record_commit (mem_repository j env) st (new_commit e []) o' typed (hnd, s) = (result, hnd', s')"
  shows "command_history ag entity P command m h result s'"
  using run
proof (cases rule: record_commit_cases)
  case committed
  obtain h1 where h1: "grows P h h1" "good ag entity h1 (env s)"
    by (rule env_okE [OF env g])
  have "good ag entity h1 s'"
    using outcome_only_commit_good [OF committed(1) _ h1(2)] by (simp add: commit_with_outcome_def new_commit_def)
  then show ?thesis
    using committed(2) by (intro command_history_quiet [OF h1(1)]) (auto simp: fresh_outcome_def new_commit_def)
next
  case (settled e hnd1 s1 x)
  then obtain h' where "grows P h h'" "good ag entity h' s'"
    using settled_history [OF env g settled(1,2)] by blast
  then show ?thesis
    using settled(3) by (intro command_history_quiet) auto
qed

lemma record_staged_history:
  assumes laws: "aggregate_laws ag" and env: "env_ok ag entity P env" and g: "good ag entity h s"
    and past: "past_state ag entity h l" and ne: "events \<noteq> []"
    and decided: "events = decided_events ag (ld_aggregate l) command"
    and run: "record_staged ag (mem_repository j env) generated l events m outcome st (hnd, s) = (result, st', hnd', s')"
  shows "command_history ag entity P command m h result s'"
proof -
  let ?rp = "mem_repository j env"
  obtain r st1 hnd1 s1 where ready: "store_ready ?rp st (hnd, s) = (r, st1, hnd1, s1)"
    by (rule prod_cases4)
  obtain h1 where h1: "grows P h h1" "good ag entity h1 s1"
    using store_ready_good [OF env g ready] by blast
  show ?thesis
  proof (cases "\<exists>u l' c o'. r = Inr u \<and> stage ag st1 generated l events m = Inr (l', c) \<and> outcome (ld_aggregate l') = Inr o'")
    case False
    then have "\<exists>e. result = Inl e" "s' = s1"
      using run ready by (auto simp: record_staged_def split: sum.splits prod.splits)
    then show ?thesis
      by (intro command_history_quiet [OF h1(1)]) (use h1(2) in auto)
  next
    case True
    then obtain u l' c o' where stage: "r = Inr u" "stage ag st1 generated l events m = Inr (l', c)" "outcome (ld_aggregate l') = Inr o'"
      by blast
    obtain result1 where rec: "record_commit ?rp st1 c o' events (hnd1, s1) = (result1, hnd', s')" "result = map_err failed_committing result1"
      using run ready stage by (auto simp: record_staged_def split: prod.splits)
    have "command_history ag entity P command m h result1 s'"
      using rec(1)
    proof (cases rule: record_commit_cases)
      case committed
      obtain h2 where h2: "grows P h1 h2" "good ag entity h2 (env s1)"
        by (rule env_okE [OF env h1(2)])
      have pre: "grows P h h2"
        by (rule grows_trans [OF h1(1) h2(1)])
      have staged: "stage ag st1 generated l events m = Inr (l', (commit_with_outcome c o')\<lparr>cm_outcome := None\<rparr>)"
        using stage(2) stage_Inr(5) [OF stage(2)] by (simp add: commit_with_outcome_def)
      note appended = commit_good [OF laws h2(2) past_state_mono [OF past pre] staged ne committed(1)]
      obtain l2 where l2: "full_replay ag entity h2 = Inr l2" "same_state l l2"
        using appended(2) by blast
      have at: "ld_sequence l = int (length h2)" "ld_entity_id l = entity"
        using full_replay_sequence [OF laws _ l2(1)] l2(2) h2(2) by (simp_all add: good_def tells_def same_state_def)
      have "decided_on ag entity command m h2 (fresh_outcome (stored_outcome_of o' (map ev_id (cm_events c))) (cm_events c) events)"
        unfolding decided_on_def
        using l2 decided at stage_Inr(2) [OF stage(2)] by (auto simp: fresh_outcome_def same_state_def)
      then show ?thesis
        using pre appended(1) committed(2) unfolding command_history_def
        by (auto simp: fresh_outcome_def commit_with_outcome_def)
    next
      case (settled e hnd2 s2 x)
      obtain h' where "grows P h1 h'" "good ag entity h' s'"
        using settled_history [OF env h1(2) settled(1,2)] by blast
      then show ?thesis
        using settled(3) grows_trans [OF h1(1)] by (intro command_history_quiet [of P h h']) auto
    qed
    then show ?thesis
      using rec(2) by simp
  qed
qed

section \<open>Recording a rejection\<close>

lemma transaction_row:
  assumes run: "mem_commit_transaction j t hnd s = (Inr u, hnd', s')" and o': "tc_outcome t = Some o'"
  shows "bt_get (mr_outcomes s') (oc_command_id o') = Some (stored_outcome_of o' (transaction_event_ids (normal_form t)))"
  using run
proof (cases rule: mem_transaction_cases)
  case (noop t')
  then show ?thesis
    using o' by (simp add: normalize_Inr transaction_is_empty_def normal_form_def Let_def)
next
  case (written t')
  then have t': "t' = normal_form t"
    by (simp add: normalize_Inr)
  have "transaction_stored_outcome t' = Some (stored_outcome_of o' (transaction_event_ids (normal_form t)))"
    using o' by (simp add: t' transaction_stored_outcome_def normal_form_def Let_def)
  then show ?thesis
    using written(4) by (auto elim!: mem_write_Inr simp: write_apply_def bt_get_insert stored_outcome_of_def)
qed (simp)

lemma outcome_only_transaction_good:
  assumes run: "mem_commit_transaction j t hnd s = (r, hnd', s')" and "tc_streams t = []" and g: "good ag entity h s"
  shows "good ag entity h s'"
  using run
proof (cases rule: mem_transaction_cases)
  case (failed e)
  then show ?thesis
    using g good_manifest by metis
next
  case (written t')
  have streams: "tc_streams t' = []"
    using written(2) assms(2) by (simp add: normalize_Inr normal_form_def)
  obtain s1 where s1: "s1 = s\<lparr>mr_manifest := mr_manifest s1\<rparr>" "s' = write_apply s1 (tc_streams t') (tc_views t') (transaction_stored_outcome t')"
    by (rule mem_write_Inr [OF written(4)]) (rule that)
  have "stream_of s' entity = stream_of s1 entity"
    unfolding s1(2) streams by (simp add: write_apply_def stream_of_def)
  also have "\<dots> = stream_of s entity"
    by (subst s1(1)) (simp add: stream_of_def)
  finally show ?thesis
    using g mem_transaction_ok [OF run] by (simp add: good_def)
qed (use g in simp)

abbreviation outcome_only :: "outcome \<Rightarrow> unit transaction_commit" where
  "outcome_only o' \<equiv> transaction_with_outcome (new_transaction []) o'"

lemma persist_rejection_cases:
  assumes "persist_rejection j' (mem_repository j env) p wait rejection (hnd, s) = (result, hnd', s')"
  obtains (invalid) e where "result = Inl e" "s' = s"
  | (committed) canonical where "mem_commit_transaction j (outcome_only (pending_rejected p canonical)) hnd (env s) = (Inr (), hnd', s')"
      "result = Inr (fresh_outcome (stored_outcome_of (pending_rejected p canonical) []) [] [])"
  | (settled) canonical e hnd1 s1 x where "mem_commit_transaction j (outcome_only (pending_rejected p canonical)) hnd (env s) = (Inl e, hnd1, s1)"
      "settle_commit (mem_repository j env) (pc_command_id p) (pc_digest p) wait (Inl e) (hnd1, s1) = (x, hnd', s')"
      "(\<exists>e'. result = Inl e') \<or> (\<exists>r. x = Inr (Replayed r) \<and> result = Inr (replay_outcome r))"
proof (cases "canonical_rejection j' rejection")
  case (Inl e)
  then show ?thesis
    using assms invalid by (auto simp: persist_rejection_def)
next
  case (Inr canonical)
  let ?o = "pending_rejected p canonical"
  let ?t = "outcome_only ?o"
  obtain r hnd1 s1 where run: "mem_commit_transaction j ?t hnd (env s) = (r, hnd1, s1)"
    by (rule prod_cases3)
  have ids: "transaction_event_ids ?t = []"
    by (simp add: transaction_event_ids_def transaction_with_outcome_def new_transaction_def)
  have rp: "rp_commit_transaction (mem_repository j env) ?t (hnd, s) = (r, hnd1, s1)"
    using run by (simp add: mem_repository_def)
  obtain x w where settle: "settle_commit (mem_repository j env) (pc_command_id p) (pc_digest p) wait r (hnd1, s1) = (x, w)"
    by (rule prod.exhaust)
  have result: "result = settled_outcome (stored_outcome_of ?o []) [] [] x" "w = (hnd', s')"
    using assms Inr rp settle by (simp_all add: persist_rejection_def Let_def ids)
  show thesis
  proof (cases r)
    case (Inl e)
    then show ?thesis
      using run settle result settled [of canonical e hnd1 s1 x] settled_outcome_Inl [of _ _ _ _ e _ x w] by fastforce
  next
    case (Inr u)
    then show ?thesis
      using run settle result committed [of canonical] by (auto simp: settle_commit_def settle_def settled_outcome_def)
  qed
qed

lemma persist_rejection_recorded:
  assumes "persist_rejection j' (mem_repository j env) p wait rejection (hnd, s) = (Inr co, hnd', s')"
  shows "recorded (pc_command_id p) (pc_digest p) co s'"
  using assms
proof (cases rule: persist_rejection_cases)
  case (committed canonical)
  have "transaction_event_ids (normal_form (outcome_only o')) = []" for o' :: outcome
    by (simp add: transaction_event_ids_def transaction_with_outcome_def new_transaction_def normal_form_def)
  then show ?thesis
    using transaction_row [OF committed(1), of "pending_rejected p canonical"] committed(2)
    by (auto simp: recorded_def transaction_with_outcome_def fresh_outcome_def)
      (simp_all add: pending_rejected_def with_identity_def rejected_outcome_def stored_outcome_of_def)
next
  case (settled canonical e hnd1 s1 x)
  then show ?thesis
    using settle_commit_recorded by (fastforce simp: recorded_def replay_outcome_def)
qed simp

lemma persist_rejection_history:
  assumes env: "env_ok ag entity P env" and g: "good ag entity h s"
    and run: "persist_rejection j' (mem_repository j env) p wait rejection (hnd, s) = (result, hnd', s')"
  shows "command_history ag entity P command m h result s'"
proof -
  obtain h1 where h1: "grows P h h1" "good ag entity h1 (env s)"
    by (rule env_okE [OF env g])
  have none: "tc_streams (outcome_only o') = []" for o' :: outcome
    by (simp add: transaction_with_outcome_def new_transaction_def)
  show ?thesis
    using run
  proof (cases rule: persist_rejection_cases)
    case (invalid e)
    then show ?thesis
      using g by (intro command_history_quiet [of P h h]) auto
  next
    case (committed canonical)
    then show ?thesis
      using outcome_only_transaction_good [OF committed(1) none h1(2)]
      by (intro command_history_quiet [OF h1(1)]) (auto simp: fresh_outcome_def)
  next
    case (settled canonical e hnd1 s1 x)
    obtain h2 where "grows P h1 h2" "good ag entity h2 s'"
      using settle_commit_good [OF env outcome_only_transaction_good [OF settled(1) none h1(2)] settled(2)] by blast
    then show ?thesis
      using settled(3) grows_trans [OF h1(1)] by (intro command_history_quiet [of P h h2]) auto
  qed
qed

section \<open>Attempts\<close>

lemma attempt_rejected_history:
  assumes "aggregate_laws ag" and "env_ok ag entity P env" and g: "good ag entity h s"
    and "past_state ag entity h l" and handled: "ag_handle ag (ld_aggregate l) command = Inl error"
    and run: "attempt_rejected j' ag (mem_repository j env) generated l error m p st (hnd, s) = (result, st', hnd', s')"
  shows "command_history ag entity P command m h result s'"
proof (cases "\<exists>rejection canonical. ag_to_rejection ag error = Some rejection \<and> canonical_rejection j' rejection = Inr canonical")
  case False
  then have "\<exists>f. result = Inl f" "s' = s"
    using run by (auto simp: attempt_rejected_def split: option.splits sum.splits)
  then show ?thesis
    using g by (intro command_history_quiet [of P h h]) auto
next
  case True
  then obtain rejection canonical where canonical: "ag_to_rejection ag error = Some rejection" "canonical_rejection j' rejection = Inr canonical"
    by blast
  let ?events = "ag_rejection_events ag (ld_aggregate l) error"
  show ?thesis
  proof (cases "?events = []")
    case True
    obtain result1 where rec: "record_commit (mem_repository j env) st (new_commit (ld_entity_id l) [])
        (pending_rejected p canonical) [] (hnd, s) = (result1, hnd', s')" "result = map_err failed_committing result1"
      using run canonical True by (auto simp: attempt_rejected_def split: prod.splits)
    then show ?thesis
      using record_noop_history [OF assms(2) g rec(1)] by simp
  next
    case False
    have "?events = decided_events ag (ld_aggregate l) command"
      using handled by (simp add: decided_events_def)
    moreover have "record_staged ag (mem_repository j env) generated l ?events m (\<lambda>_. Inr (pending_rejected p canonical)) st (hnd, s)
        = (result, st', hnd', s')"
      using run canonical False by (simp add: attempt_rejected_def)
    ultimately show ?thesis
      using record_staged_history [OF assms(1-4) False] by blast
  qed
qed

lemma attempt_accepted_history:
  assumes "aggregate_laws ag" and "env_ok ag entity P env" and g: "good ag entity h s"
    and "past_state ag entity h l" and handled: "ag_handle ag (ld_aggregate l) command = Inr events"
    and run: "attempt_accepted ag (mem_repository j env) generated l events m p respond st (hnd, s) = (result, st', hnd', s')"
  shows "command_history ag entity P command m h result s'"
proof (cases "events = []")
  case True
  show ?thesis
  proof (cases "map_err response_error (respond (ld_aggregate l) events)")
    case (Inl e)
    then have "\<exists>f. result = Inl f" "s' = s"
      using run True by (auto simp: attempt_accepted_def)
    then show ?thesis
      using g by (intro command_history_quiet [of P h h]) auto
  next
    case (Inr response)
    obtain result1 where rec: "record_commit (mem_repository j env) st (new_commit (ld_entity_id l) [])
        (outcome_with_response (pending_accepted p) response) [] (hnd, s) = (result1, hnd', s')"
        "result = map_err failed_committing result1"
      using run Inr True by (auto simp: attempt_accepted_def split: prod.splits)
    then show ?thesis
      using record_noop_history [OF assms(2) g rec(1)] by simp
  qed
next
  case False
  have "events = decided_events ag (ld_aggregate l) command"
    using handled by (simp add: decided_events_def)
  moreover have "record_staged ag (mem_repository j env) generated l events m
      (\<lambda>a. and_then (map_err response_error (respond a events)) (\<lambda>response.
         Inr (outcome_with_response (pending_accepted p) response))) st (hnd, s) = (result, st', hnd', s')"
    using run False by (simp add: attempt_accepted_def)
  ultimately show ?thesis
    using record_staged_history [OF assms(1-4) False] by blast
qed

lemma pre_check_row_mem:
  "pre_check_row (mem_repository j env) command digest (hnd, s) = (pre_check (mem_outcome (env s) command) digest, hnd, env s)"
  by (simp add: pre_check_row_def mem_repository_def)

lemma attempt_cases:
  assumes "attempt_with_response j' ag (mem_repository j env) generated entity command m p respond (st, hnd, s)
      = (result, st', hnd', s')"
  obtains (failed) f where "pre_check (mem_outcome (env s) (pc_command_id p)) (pc_digest p) = Inl f"
      "result = Inl (failed_deciding f)" "st' = st" "hnd' = hnd" "s' = env s"
  | (stored) o' where "pre_check (mem_outcome (env s) (pc_command_id p)) (pc_digest p) = Inr (Some o')"
      "result = Inr (replay_outcome o')" "st' = st" "hnd' = hnd" "s' = env s"
  | (unloaded) f e where "load ag (mem_repository j env) st entity (hnd, env s) = (e, hnd', s')" "result = Inl f"
  | (rejected) l hnd1 s1 error where "load ag (mem_repository j env) st entity (hnd, env s) = (Inr l, hnd1, s1)"
      "ag_handle ag (ld_aggregate l) command = Inl error"
      "attempt_rejected j' ag (mem_repository j env) generated l error m p st (hnd1, s1) = (result, st', hnd', s')"
  | (accepted) l hnd1 s1 events where "load ag (mem_repository j env) st entity (hnd, env s) = (Inr l, hnd1, s1)"
      "ag_handle ag (ld_aggregate l) command = Inr events"
      "attempt_accepted ag (mem_repository j env) generated l events m p respond st (hnd1, s1) = (result, st', hnd', s')"
proof (cases "pre_check (mem_outcome (env s) (pc_command_id p)) (pc_digest p)")
  case (Inl f)
  show ?thesis
    by (rule failed [OF Inl]) (use assms Inl in \<open>auto simp: attempt_with_response_def pre_check_row_mem\<close>)
next
  case (Inr row)
  note checked = this
  show ?thesis
  proof (cases row)
    case (Some o')
    show ?thesis
      by (rule stored [OF checked [unfolded Some]])
        (use assms checked Some in \<open>auto simp: attempt_with_response_def pre_check_row_mem\<close>)
  next
    case None
    obtain lr hnd1 s1 where load: "load ag (mem_repository j env) st entity (hnd, env s) = (lr, hnd1, s1)"
      by (rule prod_cases3)
    show ?thesis
    proof (cases "\<exists>l. lr = Inr l \<and> \<not> has_seen l (pc_command_id p)")
      case False
      then have "\<exists>f. result = Inl f" "(hnd1, s1) = (hnd', s')"
        using assms checked None load
        by (auto simp: attempt_with_response_def pre_check_row_mem split: sum.splits if_splits)
      then show ?thesis
        using unloaded load by blast
    next
      case True
      then obtain l where l: "lr = Inr l" "\<not> has_seen l (pc_command_id p)"
        by blast
      show ?thesis
      proof (cases "ag_handle ag (ld_aggregate l) command")
        case (Inl error)
        show ?thesis
          by (rule rejected [OF load [unfolded l(1)] Inl])
            (use assms load l \<open>row = None\<close> Inl checked in \<open>simp add: attempt_with_response_def pre_check_row_mem\<close>)
      next
        case (Inr events)
        show ?thesis
          by (rule accepted [OF load [unfolded l(1)] Inr])
            (use assms load l \<open>row = None\<close> Inr checked in \<open>simp add: attempt_with_response_def pre_check_row_mem\<close>)
      qed
    qed
  qed
qed

lemma attempt_history:
  assumes laws: "aggregate_laws ag" and env: "env_ok ag entity P env" and g: "good ag entity h s"
    and run: "attempt_with_response j' ag (mem_repository j env) generated entity command m p respond (st, hnd, s)
      = (result, st', hnd', s')"
  shows "command_history ag entity P command m h result s'"
proof -
  obtain h1 where h1: "grows P h h1" "good ag entity h1 (env s)"
    by (rule env_okE [OF env g])
  show ?thesis
    using run
  proof (cases rule: attempt_cases)
    case (unloaded f e)
    obtain h2 where h2: "grows P h1 h2" "good ag entity h2 s'"
      using load_past [OF laws env h1(2) unloaded(1) [unfolded load_def]] by blast
    show ?thesis
      using unloaded(2) by (intro command_history_quiet [OF grows_trans [OF h1(1) h2(1)] h2(2)]) simp
  next
    case (rejected l hnd1 s1 error)
    obtain h2 where h2: "grows P h1 h2" "good ag entity h2 s1" "past_state ag entity h2 l"
      using load_past [OF laws env h1(2) rejected(1) [unfolded load_def]] by blast
    show ?thesis
      by (rule command_history_mono [OF grows_trans [OF h1(1) h2(1)]])
        (rule attempt_rejected_history [OF laws env h2(2,3) rejected(2,3)])
  next
    case (accepted l hnd1 s1 events)
    obtain h2 where h2: "grows P h1 h2" "good ag entity h2 s1" "past_state ag entity h2 l"
      using load_past [OF laws env h1(2) accepted(1) [unfolded load_def]] by blast
    show ?thesis
      by (rule command_history_mono [OF grows_trans [OF h1(1) h2(1)]])
        (rule attempt_accepted_history [OF laws env h2(2,3) accepted(2,3)])
  qed (auto intro: command_history_quiet [OF h1])
qed

lemma pending_ids [simp]:
  "oc_command_id (pending_rejected p r) = pc_command_id p" "oc_digest (pending_rejected p r) = pc_digest p"
  "oc_command_id (outcome_with_response (pending_accepted p) response) = pc_command_id p"
  "oc_digest (outcome_with_response (pending_accepted p) response) = pc_digest p"
  by (simp_all add: pending_rejected_def pending_accepted_def with_identity_def rejected_outcome_def accepted_outcome_def
      outcome_with_response_def with_response_def split: option.splits)

lemma record_staged_recorded:
  fixes st :: "('a, 'e, unit) store"
  assumes "record_staged ag (mem_repository j env) generated l events m outcome st (hnd, s) = (Inr co, st', hnd', s')"
    and "\<And>a o'. outcome a = Inr o' \<Longrightarrow> oc_command_id o' = command \<and> oc_digest o' = digest"
  shows "recorded command digest co s'"
proof -
  obtain st1 :: "('a, 'e, unit) store" and hnd1 s1 c a o' where "outcome a = Inr o'"
    "record_commit (mem_repository j env) st1 c o' events (hnd1, s1) = (Inr co, hnd', s')"
    using assms(1) by (auto simp: record_staged_def map_err_def split: sum.splits prod.splits)
  then show ?thesis
    using record_commit_recorded assms(2) by metis
qed

lemma attempt_rejected_recorded:
  assumes "attempt_rejected j' ag (mem_repository j env) generated l error m p st (hnd, s) = (Inr co, st', hnd', s')"
  shows "recorded (pc_command_id p) (pc_digest p) co s'"
proof -
  obtain rejection canonical where canonical: "ag_to_rejection ag error = Some rejection" "canonical_rejection j' rejection = Inr canonical"
    using assms by (auto simp: attempt_rejected_def split: option.splits sum.splits)
  show ?thesis
  proof (cases "ag_rejection_events ag (ld_aggregate l) error = []")
    case True
    then have "record_commit (mem_repository j env) st (new_commit (ld_entity_id l) []) (pending_rejected p canonical) [] (hnd, s)
        = (Inr co, hnd', s')"
      using assms canonical by (auto simp: attempt_rejected_def map_err_def split: prod.splits sum.splits)
    then show ?thesis
      using record_commit_recorded by fastforce
  next
    case False
    then show ?thesis
      using assms canonical record_staged_recorded [of ag j env generated l _ m "\<lambda>_. Inr (pending_rejected p canonical)"]
      by (simp add: attempt_rejected_def)
  qed
qed

lemma attempt_accepted_recorded:
  assumes "attempt_accepted ag (mem_repository j env) generated l events m p respond st (hnd, s) = (Inr co, st', hnd', s')"
  shows "recorded (pc_command_id p) (pc_digest p) co s'"
proof (cases "events = []")
  case True
  then obtain response where "record_commit (mem_repository j env) st (new_commit (ld_entity_id l) [])
      (outcome_with_response (pending_accepted p) response) [] (hnd, s) = (Inr co, hnd', s')"
    using assms by (auto simp: attempt_accepted_def map_err_def and_then_def split: prod.splits sum.splits)
  then show ?thesis
    using record_commit_recorded by fastforce
next
  case False
  then have "record_staged ag (mem_repository j env) generated l events m
      (\<lambda>a. and_then (map_err response_error (respond a events)) (\<lambda>response.
         Inr (outcome_with_response (pending_accepted p) response))) st (hnd, s) = (Inr co, st', hnd', s')"
    using assms by (simp add: attempt_accepted_def)
  then show ?thesis
    by (rule record_staged_recorded) (auto simp: result_simps)
qed

lemma attempt_recorded:
  assumes "attempt_with_response j' ag (mem_repository j env) generated entity command m p respond (st, hnd, s)
      = (Inr co, st', hnd', s')"
  shows "recorded (pc_command_id p) (pc_digest p) co s'"
  using assms
proof (cases rule: attempt_cases)
  case (stored o')
  then show ?thesis
    by (auto simp: pre_check_def same_command_def recorded_def replay_outcome_def result_simps
        split: option.splits if_splits dest!: mem_outcome_found)
next
  case (rejected l hnd1 s1 error)
  show ?thesis
    by (rule attempt_rejected_recorded [OF rejected(3)])
next
  case (accepted l hnd1 s1 events)
  show ?thesis
    by (rule attempt_accepted_recorded [OF accepted(3)])
qed simp_all

section \<open>The retry loop\<close>

lemma command_loop_cases:
  assumes "command_loop en c persist backoff attempt n b s = Some (result, delays, s')"
  obtains (ended) x where "attempt n s = (Inr x, s')" "result = Inr x" "delays = []"
  | (failed) f where "attempt n s = (Inl f, s')" "result = Inl (fl_error f)" "delays = []"
  | (persisted) f s1 rejection where "attempt n s = (Inl f, s1)" "persist rejection s1 = (result, s')" "delays = []"
  | (again) f s1 d b' delays' where "attempt n s = (Inl f, s1)"
      "budget_next (en_elapsed en n) (en_random en n) b = Some (Some d, b')" "delays = d # delays'"
      "command_loop en c persist backoff attempt (n + 1) b' (backoff d s1) = Some (result, delays', s')"
proof -
  obtain r s1 where att: "attempt n s = (r, s1)"
    by (rule prod.exhaust)
  note unfolded = assms [unfolded command_loop.simps [of en c persist backoff attempt n b s] att]
  show thesis
  proof (cases r)
    case (Inr x)
    then show ?thesis
      using unfolded att ended by simp
  next
    case (Inl f)
    note failing = unfolded [unfolded Inl prod.case sum.case]
    show ?thesis
    proof (cases "journal_row (fl_error f)")
      case (Some row)
      then show ?thesis
        using failing att Inl persisted by (auto split: prod.splits)
    next
      case None
      then show ?thesis
        using failing att Inl failed persisted again by (auto split: prod.splits option.splits if_splits)
    qed
  qed
qed

lemma command_loop_result:
  assumes "command_loop en c persist backoff attempt n b s = Some (result, delays, s')" and "I s"
    and failing: "\<And>n s f s'. I s \<Longrightarrow> attempt n s = (Inl f, s') \<Longrightarrow> I s'"
    and ending: "\<And>n s x s'. I s \<Longrightarrow> attempt n s = (Inr x, s') \<Longrightarrow> Q x s'"
    and refused: "\<And>rejection s e s'. I s \<Longrightarrow> persist rejection s = (Inl e, s') \<Longrightarrow> I s'"
    and persisting: "\<And>rejection s x s'. I s \<Longrightarrow> persist rejection s = (Inr x, s') \<Longrightarrow> Q x s'"
    and sleeping: "\<And>d s. I s \<Longrightarrow> I (backoff d s)"
  shows "case result of Inl _ \<Rightarrow> I s' | Inr x \<Rightarrow> Q x s'"
  using assms(1,2)
proof (induction "max (max_attempts (rb_policy b)) 1 - rb_attempt b" arbitrary: n b s delays rule: less_induct)
  case less
  show ?case
    using less.prems(1)
  proof (cases rule: command_loop_cases)
    case (ended x)
    then show ?thesis
      using ending less.prems(2) by simp
  next
    case (failed f)
    then show ?thesis
      using failing less.prems(2) by simp
  next
    case (persisted f s1 rejection)
    then show ?thesis
      using refused persisting failing [OF less.prems(2) persisted(1)] by (cases result) auto
  next
    case (again f s1 d b' delays')
    then show ?thesis
      using less.hyps [OF budget_next_measure [OF again(2)] again(4)] sleeping failing less.prems(2) by blast
  qed
qed

lemma command_loop_delays:
  assumes "command_loop en c persist backoff attempt n b s = Some (result, delays, s')"
    and "rb_attempt b \<le> max (max_attempts (rb_policy b)) 1"
  shows "rb_attempt b + length delays \<le> max (max_attempts (rb_policy b)) 1"
    and "\<forall>d \<in> set delays. d \<le> max_delay (rb_policy b)"
proof -
  have "rb_attempt b + length delays \<le> max (max_attempts (rb_policy b)) 1 \<and> (\<forall>d \<in> set delays. d \<le> max_delay (rb_policy b))"
    using assms
  proof (induction "max (max_attempts (rb_policy b)) 1 - rb_attempt b" arbitrary: n b s delays rule: less_induct)
    case less
    show ?case
      using less.prems(1)
    proof (cases rule: command_loop_cases)
      case (again f s1 d b' delays')
      note step = budget_next_attempts(1-4) [OF again(2)]
      have "rb_attempt b' + length delays' \<le> max (max_attempts (rb_policy b')) 1 \<and> (\<forall>d \<in> set delays'. d \<le> max_delay (rb_policy b'))"
        by (rule less.hyps [OF budget_next_measure [OF again(2)] again(4)]) (use step in simp)
      then show ?thesis
        using step again(3) by auto
    qed (use less.prems(2) in simp_all)
  qed
  then show "rb_attempt b + length delays \<le> max (max_attempts (rb_policy b)) 1" "\<forall>d \<in> set delays. d \<le> max_delay (rb_policy b)"
    by simp_all
qed

lemma budget_next_returns:
  assumes "max_delay (rb_policy b) < u64_max"
  shows "\<exists>d b'. budget_next elapsed random b = Some (d, b')"
  using delay_returns [OF assms, of random "rb_attempt b - 1"] by (auto simp: budget_next_def Let_def)

lemma command_loop_returns:
  assumes "max_delay (rb_policy b) < u64_max"
  shows "\<exists>result delays s'. command_loop en c persist backoff attempt n b s = Some (result, delays, s')"
  using assms
proof (induction "max (max_attempts (rb_policy b)) 1 - rb_attempt b" arbitrary: n b s rule: less_induct)
  case less
  obtain r s1 where att: "attempt n s = (r, s1)"
    by (rule prod.exhaust)
  obtain d b' where budget: "budget_next (en_elapsed en n) (en_random en n) b = Some (d, b')"
    using budget_next_returns [OF less.prems] by blast
  have "\<exists>result delays s'. command_loop en c persist backoff attempt (n + 1) b' (backoff d' s1) = Some (result, delays, s')"
    if "d = Some d'" for d'
    using less.hyps [OF budget_next_measure] budget_next_attempts(2) budget less.prems that by simp
  then show ?case
    using att budget by (subst command_loop.simps) (auto split: sum.splits option.splits prod.splits)
qed

section \<open>Whole commands\<close>

definition response_loop where
  "response_loop en ag rp entity command m respond c p =
    command_loop en c
      (\<lambda>rejection (st, r). case persist_rejection (en_json en) rp p (cf_recovery_wait c) rejection r of
         (result, r') \<Rightarrow> (result, st, r'))
      (\<lambda>d (st, r). (st, rp_backoff rp d r))
      (\<lambda>n. attempt_with_response (en_json en) ag rp (en_commit_id en n) entity command m p respond)
      0 (new_budget (cf_retry c))"

lemma execute_with_response_cases:
  assumes "execute_with_response en ag rp entity command m respond st r = Some (result, delays, st', r')"
  obtains (refused) e where "result = Inl e" "st' = st" "r' = r"
  | (run) c p where "st_outcomes st = Some c" "freeze_for_response ag c entity command m = Inr p"
    "response_loop en ag rp entity command m respond c p (st, r) = Some (result, delays, st', r')"
  using assms unfolding response_loop_def
  by (auto simp: execute_with_response_def need_outcomes_def ok_or_def and_then_def split: sum.splits option.splits)

lemma response_recorded:
  fixes st :: "('a, 'e, unit) store"
  assumes "response_loop en ag (mem_repository j env) entity command m respond c p (st, hnd, s) = Some (Inr co, delays, st', hnd', s')"
  shows "recorded (pc_command_id p) (pc_digest p) co s'"
proof -
  define Q where "Q = (\<lambda>co (st :: ('a, 'e, unit) store, hnd :: mem_handle, s). recorded (pc_command_id p) (pc_digest p) (co :: 'e command_outcome) s)"
  have "case Inr co of Inl (_ :: error) \<Rightarrow> True | Inr x \<Rightarrow> Q x (st', hnd', s')"
    by (rule command_loop_result [OF assms [unfolded response_loop_def], of "\<lambda>_. True" Q])
      (auto simp: Q_def split: prod.splits dest: attempt_recorded persist_rejection_recorded)
  then show ?thesis
    by (simp add: Q_def)
qed

lemma response_history:
  fixes st :: "('a, 'e, unit) store"
  assumes laws: "aggregate_laws ag" and env: "env_ok ag entity P env" and g: "good ag entity h s"
    and run: "response_loop en ag (mem_repository j env) entity command m respond c p (st, hnd, s) = Some (result, delays, st', hnd', s')"
  shows "command_history ag entity P command m h result s'"
proof -
  let ?H = "\<lambda>result s. command_history ag entity P command m h result s"
  define I where "I = (\<lambda>(st :: ('a, 'e, unit) store, hnd :: mem_handle, s). \<exists>h'. grows P h h' \<and> good ag entity h' s)"
  define Q where "Q = (\<lambda>co (st :: ('a, 'e, unit) store, hnd :: mem_handle, s). ?H (Inr co :: error + 'e command_outcome) s)"
  have attempt: "?H r s''" if "grows P h h'" "good ag entity h' s1"
    "attempt_with_response (en_json en) ag (mem_repository j env) (en_commit_id en n) entity command m p respond (st1, hnd1, s1) = (r, st2, hnd2, s'')"
    for n st1 hnd1 s1 r st2 hnd2 s'' h'
    by (rule command_history_mono [OF that(1) attempt_history [OF laws env that(2,3)]])
  let ?persist = "\<lambda>rejection (st, r). case persist_rejection (en_json en) (mem_repository j env) p (cf_recovery_wait c) rejection r of
      (result, r') \<Rightarrow> (result, st, r')"
  have persist: "?H r (snd (snd x'))" if start: "I x" and step: "?persist rejection x = (r, x')" for rejection x r x'
  proof -
    obtain st1 hnd1 s1 where x: "x = (st1, hnd1, s1)"
      by (rule prod_cases3)
    obtain r' :: "error + 'e command_outcome" and hnd2 s2 where rej: "persist_rejection (en_json en) (mem_repository j env) p (cf_recovery_wait c) rejection (hnd1, s1) = (r', hnd2, s2)"
      by (rule prod_cases3)
    have "r = r'" "x' = (st1, hnd2, s2)"
      using step by (simp_all add: x rej)
    moreover obtain h' where "grows P h h'" "good ag entity h' s1"
      using start by (auto simp: I_def x)
    ultimately show ?thesis
      using command_history_mono persist_rejection_history [OF env _ rej] by fastforce
  qed
  have "case result of Inl _ \<Rightarrow> I (st', hnd', s') | Inr x \<Rightarrow> Q x (st', hnd', s')"
  proof (rule command_loop_result [OF run [unfolded response_loop_def], of I Q])
    show "I (st, hnd, s)"
      using g by (auto simp: I_def)
    show "I x'" if "I x" "attempt_with_response (en_json en) ag (mem_repository j env) (en_commit_id en n) entity command m p respond x = (Inl f, x')"
      for n x f x'
      using that attempt unfolding I_def by (cases x; cases x') (fastforce simp: command_history_Inl)
    show "Q y x'" if "I x" "attempt_with_response (en_json en) ag (mem_repository j env) (en_commit_id en n) entity command m p respond x = (Inr y, x')"
      for n x y x'
      using that attempt unfolding I_def Q_def by (cases x; cases x') (fastforce simp: command_history_Inr)
    show "I x'" if "I x" "?persist rejection x = (Inl e :: error + 'e command_outcome, x')" for rejection x e x'
      using persist [OF that] by (cases x') (simp add: I_def command_history_Inl)
    show "Q y x'" if "I x" "?persist rejection x = (Inr y, x')" for rejection x y x'
      using persist [OF that] by (cases x') (simp add: Q_def)
    show "I (case x of (st, r) \<Rightarrow> (st, rp_backoff (mem_repository j env) d r))" if "I x" for d x
      using that by (cases x) (auto simp: I_def mem_repository_def)
  qed
  then show ?thesis
    by (cases result) (simp_all add: I_def Q_def command_history_Inl)
qed

end
