(* ===== verification/Transaction_Mem.thy ===== *)
theory Transaction_Mem
  imports Transaction_Sessions Store_Outcomes
begin

text \<open>
  Transactions over the in-memory repository: a committed transaction ran on the heads it read, and the
  answer to a command over several streams is the row recorded for it.
\<close>

section \<open>Prepared commits\<close>

lemma prepare_Inr:
  assumes "prepare generated m tx = Inr t"
  shows "tc_streams t = map (stream_commit (stamp_commit_id m generated))
      (sort_key ss_entity_id (filter (\<lambda>ss. ss_events ss \<noteq> []) (tx_streams tx)))"
    and "tc_fences t = unread_fences tx @ map engine_fence (filter (\<lambda>ss. ss_events ss = []) (tx_streams tx))"
    and "tc_outcome t = None"
  using assms by (auto simp: prepare_def result_simps Let_def new_transaction_def)

lemma stream_commit_simps [simp]:
  "cm_entity_id (stream_commit m ss) = ss_entity_id ss" "cm_events (stream_commit m ss) = stamped_events m ss"
  "cm_operations (stream_commit m ss) = []" "cm_views (stream_commit m ss) = []"
  "(stream_commit m ss)\<lparr>cm_operations := [], cm_views := []\<rparr> = stream_commit m ss"
  "stamped_events m ss = [] \<longleftrightarrow> ss_events ss = []"
  by (simp_all add: stream_commit_def stamped_events_def)

lemma prepared_normal_form:
  assumes "prepare generated m tx = Inr t"
  shows "tc_streams (normal_form (t\<lparr>tc_outcome := o'\<rparr>)) = tc_streams t"
proof -
  let ?m = "stamp_commit_id m generated"
  let ?written = "sort_key ss_entity_id (filter (\<lambda>ss. ss_events ss \<noteq> []) (tx_streams tx))"
  have events: "filter has_events (map (stream_commit ?m) ?written) = map (stream_commit ?m) ?written"
    by (rule filter_True) (simp add: has_events_def)
  have strip: "map strip_stream (map (stream_commit ?m) ?written) = map (stream_commit ?m) ?written"
    by simp
  have sorted: "sort_key cm_entity_id (map (stream_commit ?m) ?written) = map (stream_commit ?m) ?written"
    by (rule sort_key_id_if_sorted) (simp add: comp_def)
  have streams: "tc_streams (t\<lparr>tc_outcome := o'\<rparr>) = map (stream_commit ?m) ?written"
    by (simp add: prepare_Inr(1) [OF assms])
  show ?thesis
    unfolding normal_form_streams streams events strip sorted prepare_Inr(1) [OF assms] ..
qed

section \<open>Recording the outcome\<close>

lemma commit_transaction_with_receipt_mem:
  "commit_transaction_with_receipt (mem_repository j env) t (hnd, s) =
    (case mem_commit_transaction j t hnd (env s) of
       (Inl e, w) \<Rightarrow> (Inl e, w) | (Inr _, w) \<Rightarrow> (Inr (receipt_of_transaction t), w))"
  by (simp add: commit_transaction_with_receipt_def mem_repository_def split: prod.splits sum.splits)

lemma record_transaction_cases:
  assumes "record_transaction j' (mem_repository j env) p o' t tx (hnd, s) = (result, hnd', s')"
  obtains (committed) "mem_commit_transaction j (transaction_with_outcome t o') hnd (env s) = (Inr (), hnd', s')"
      "result = Inr (fresh_outcome (stored_outcome_of o' (transaction_event_ids t)) (receipt_of_transaction t) [])"
  | (stale) e hnd1 s1 where "mem_commit_transaction j (transaction_with_outcome t o') hnd (env s) = (Inl e, hnd1, s1)"
      "persist_stale_fence j' (mem_repository j env) p tx (hnd1, s1) = (result, hnd', s')"
  | (settled) e hnd1 s1 x where "mem_commit_transaction j (transaction_with_outcome t o') hnd (env s) = (Inl e, hnd1, s1)"
      "settle_commit (mem_repository j env) (pc_command_id p) (pc_digest p) (tx_recovery_wait tx) (Inl e) (hnd1, s1) = (x, hnd', s')"
      "(\<exists>e'. result = Inl e') \<or> (\<exists>r. x = Inr (Replayed r) \<and> result = Inr (replay_outcome r))"
proof -
  let ?t = "transaction_with_outcome t o'"
  obtain r hnd1 s1 where run: "mem_commit_transaction j ?t hnd (env s) = (r, hnd1, s1)"
    by (rule prod_cases3)
  have t: "transaction_event_ids ?t = transaction_event_ids t" "receipt_of_transaction ?t = receipt_of_transaction t"
    by (simp_all add: transaction_with_outcome_def transaction_event_ids_def receipt_of_transaction_def)
  obtain x w where settle: "settle_commit (mem_repository j env) (pc_command_id p) (pc_digest p) (tx_recovery_wait tx)
      (map_sum id (\<lambda>_. ()) r) (hnd1, s1) = (x, w)"
    by (rule prod.exhaust)
  show thesis
  proof (cases r)
    case (Inl e)
    show ?thesis
    proof (cases "caller_fence_conflict (Inl e)")
      case True
      then show ?thesis
        using assms run Inl stale
        by (simp add: record_transaction_def Let_def commit_transaction_with_receipt_mem split_receipt_def)
    next
      case False
      then have result: "result = settled_outcome (stored_outcome_of o' (transaction_event_ids t)) [] [] x" "w = (hnd', s')"
        using assms run settle Inl
        by (simp_all add: record_transaction_def Let_def commit_transaction_with_receipt_mem split_receipt_def t)
      show ?thesis
        using run settle result Inl settled [of e hnd1 s1 x]
          settled_outcome_Inl [of "mem_repository j env" "pc_command_id p" "pc_digest p" "tx_recovery_wait tx" e "(hnd1, s1)" x w
            "stored_outcome_of o' (transaction_event_ids t)" "[]" "[]"] by fastforce
    qed
  next
    case (Inr u)
    have "\<not> caller_fence_conflict (Inr ())"
      by (simp add: caller_fence_conflict_def)
    then show ?thesis
      using assms run settle Inr committed
      by (auto simp: record_transaction_def Let_def commit_transaction_with_receipt_mem split_receipt_def t
          settle_commit_def settle_def settled_outcome_def)
  qed
qed

lemma record_transaction_recorded:
  assumes run: "record_transaction j' (mem_repository j env) p o' t tx (hnd, s) = (Inr co, hnd', s')"
    and ids: "transaction_event_ids (normal_form (transaction_with_outcome t o')) = transaction_event_ids t"
    and o': "oc_command_id o' = pc_command_id p" "oc_digest o' = pc_digest p"
  shows "recorded (pc_command_id p) (pc_digest p) co s'"
  using run
proof (cases rule: record_transaction_cases)
  case committed
  then show ?thesis
    using transaction_row [OF committed(1), of o'] ids o'
    by (auto simp: recorded_def transaction_with_outcome_def fresh_outcome_def) (simp add: stored_outcome_of_def)
next
  case (stale e hnd1 s1)
  then show ?thesis
    using persist_rejection_recorded by (auto simp: persist_stale_fence_def)
next
  case (settled e hnd1 s1 x)
  then show ?thesis
    using settle_commit_recorded by (fastforce simp: recorded_def replay_outcome_def)
qed

lemma prepared_ids:
  "prepare generated m tx = Inr t \<Longrightarrow> transaction_event_ids (normal_form (transaction_with_outcome t o')) = transaction_event_ids t"
  using prepared_normal_form [of generated m tx t "Some o'"] by (simp add: transaction_event_ids_def transaction_with_outcome_def)

lemma fences_ids: "transaction_event_ids (normal_form (transaction_with_outcome (with_fences (new_transaction []) fences) o')) =
    transaction_event_ids (with_fences (new_transaction []) fences)"
  by (simp add: transaction_event_ids_def transaction_with_outcome_def with_fences_def new_transaction_def normal_form_def)

lemma tx_reject_recorded:
  assumes run: "tx_reject j' (mem_repository j env) rejection tx (hnd, s) = (Inr co, tx', hnd', s')"
    and p: "\<And>q. tx_command tx = Some q \<Longrightarrow> q = p"
  shows "recorded (pc_command_id p) (pc_digest p) co s'"
proof -
  obtain canonical where "record_transaction j' (mem_repository j env) p (pending_rejected p canonical)
      (with_fences (new_transaction []) (map engine_fence (tx_streams tx) @ unread_fences tx)) tx (hnd, s) = (Inr co, hnd', s')"
    using run p by (auto simp: tx_reject_def take_command_def commit_rejection_def result_simps ok_or_def
        split: sum.splits prod.splits option.splits)
  then show ?thesis
    by (rule record_transaction_recorded) (simp_all add: fences_ids)
qed

lemma reject_with_events_recorded:
  assumes run: "reject_with_events j' (mem_repository j env) generated rejection tx (hnd, s) = (Inr co, tx', hnd', s')"
    and p: "\<And>q. tx_command tx = Some q \<Longrightarrow> q = p"
  shows "recorded (pc_command_id p) (pc_digest p) co s'"
proof -
  obtain t canonical hnd1 s1 tx1 where prep: "prepare generated (pc_metadata p) tx1 = Inr t"
    and rec: "record_transaction j' (mem_repository j env) p (pending_rejected p canonical) t tx1 (hnd1, s1) = (Inr co, hnd', s')"
    using run p by (auto simp: reject_with_events_def take_command_def commit_rejection_def result_simps ok_or_def
        split: sum.splits prod.splits option.splits)
  show ?thesis
    using rec by (rule record_transaction_recorded) (simp_all add: prepared_ids [OF prep])
qed

lemma tx_commit_with_outcome_recorded:
  assumes run: "tx_commit_with_outcome j' (mem_repository j env) generated response tx (hnd, s) = (Inr co, tx', hnd', s')"
    and p: "\<And>q. tx_command tx = Some q \<Longrightarrow> q = p"
  shows "recorded (pc_command_id p) (pc_digest p) co s'"
proof -
  consider (reject) rejection where "tx_reject j' (mem_repository j env) rejection tx (hnd, s) = (Inr co, tx', hnd', s')"
    | (accept) t hnd1 s1 tx1 where "prepare generated (pc_metadata p) tx1 = Inr t"
      "record_transaction j' (mem_repository j env) p (outcome_with_response (pending_accepted p) response) t tx1 (hnd1, s1)
        = (Inr co, hnd', s')"
    using run p by (auto simp: tx_commit_with_outcome_def take_command_def result_simps ok_or_def
        split: sum.splits prod.splits option.splits if_splits)
  then show ?thesis
  proof cases
    case reject
    then show ?thesis
      using tx_reject_recorded p by blast
  next
    case accept
    show ?thesis
      using accept(2) by (rule record_transaction_recorded) (simp_all add: prepared_ids [OF accept(1)])
  qed
qed

lemma conclude_recorded:
  assumes "conclude j' (mem_repository j env) generated d tx (hnd, s) = (Inr co, tx', hnd', s')"
    and "\<And>q. tx_command tx = Some q \<Longrightarrow> q = p"
  shows "recorded (pc_command_id p) (pc_digest p) co s'"
proof (cases d)
  case (Accept response)
  show ?thesis
    by (rule tx_commit_with_outcome_recorded) (use assms Accept in \<open>simp_all add: conclude_def\<close>)
next
  case (Reject rejection)
  show ?thesis
    by (rule tx_reject_recorded) (use assms Reject in \<open>simp_all add: conclude_def\<close>)
next
  case (RejectWithEvents rejection)
  show ?thesis
    by (rule reject_with_events_recorded) (use assms RejectWithEvents in \<open>simp_all add: conclude_def\<close>)
qed

text \<open>The application's step does not touch the command of its transaction.\<close>

definition keeps_command ::
  "('op transaction \<Rightarrow> 'r \<Rightarrow> (error + decision) \<times> 'op transaction \<times> 'r) \<Rightarrow> bool" where
  "keeps_command step \<longleftrightarrow> (\<forall>tx r d tx' r'. step tx r = (d, tx', r') \<longrightarrow> tx_command tx' = tx_command tx)"

lemma begin_frozen_mem:
  assumes "begin_frozen (mem_repository j env) p tx (hnd, s) = (Inr b, tx', hnd', s')"
  shows "hnd' = hnd" "s' = env s"
    "b = BeginProceed \<and> tx_command tx' = Some p \<or> (\<exists>o'. b = BeginReplayed (replay_outcome o')
      \<and> bt_get (mr_outcomes (env s)) (pc_command_id p) = Some o' \<and> oc_digest o' = pc_digest p)"
  using assms
  by (auto simp: begin_frozen_def begin_pending_def pre_check_row_mem pre_check_def same_command_def result_simps
      split: sum.splits option.splits if_splits dest!: mem_outcome_found)

lemma attempt_transaction_cases:
  assumes "attempt_transaction en rp generated ident p step (st, r) = (result, st', r')"
  obtains (failed) f where "result = Inl f"
  | (replayed) co tx where "begin_frozen rp p (store_transaction ident st) r = (Inr (BeginReplayed co), tx, r')" "result = Inr co"
  | (decided) tx r1 d tx' r2 result' tx'' where
      "begin_frozen rp p (store_transaction ident st) r = (Inr BeginProceed, tx, r1)" "step tx r1 = (Inr d, tx', r2)"
      "conclude (en_json en) rp generated d tx' r2 = (result', tx'', r')" "result = map_err failed_committing result'"
  using assms by (auto simp: attempt_transaction_def split: sum.splits prod.splits begun.splits)

lemma attempt_transaction_recorded:
  assumes run: "attempt_transaction en (mem_repository j env) generated ident p step (st, hnd, s) = (Inr co, st', hnd', s')"
    and step: "keeps_command step"
  shows "recorded (pc_command_id p) (pc_digest p) co s'"
  using run
proof (cases rule: attempt_transaction_cases)
  case (replayed co' tx)
  then show ?thesis
    using begin_frozen_mem(2,3) [OF replayed(1)] by (auto simp: recorded_def replay_outcome_def)
next
  case (decided tx r1 d tx' r2 result' tx'')
  obtain hnd2 s2 where r2: "r2 = (hnd2, s2)"
    by (cases r2)
  have "tx_command tx = Some p"
    using begin_frozen_mem(3) [of j env p "store_transaction ident st" hnd s BeginProceed tx "fst r1" "snd r1"] decided(1) by simp
  then have "tx_command tx' = Some p"
    using decided(2) step unfolding keeps_command_def by metis
  then show ?thesis
    using decided(3,4) unfolding r2 by (intro conclude_recorded) (auto simp: map_err_def split: sum.splits)
qed simp

definition transaction_loop where
  "transaction_loop en rp first step c p =
    command_loop en c
      (\<lambda>rejection (st, r). case persist_rejection (en_json en) rp p (cf_recovery_wait c) rejection r of
         (result, r') \<Rightarrow> (result, st, r'))
      (\<lambda>d (st, r). (st, rp_backoff rp d r))
      (\<lambda>n. attempt_transaction en rp (en_commit_id en n) (first + n) p (step n))
      0 (new_budget (cf_retry c))"

lemma execute_transaction_cases:
  assumes "execute_transaction en rp first identity m step st r = Some (result, delays, st', r')"
  obtains (refused) e where "result = Inl e" "st' = st" "r' = r"
  | (run) c p where "st_outcomes st = Some c" "freeze_command c identity m = Inr p"
    "transaction_loop en rp first step c p (st, r) = Some (result, delays, st', r')"
  using assms unfolding transaction_loop_def
  by (auto simp: execute_transaction_def need_outcomes_def ok_or_def and_then_def split: sum.splits option.splits)

lemma transaction_loop_recorded:
  fixes st :: "('a, 'e, unit) store"
  assumes "transaction_loop en (mem_repository j env) first step c p (st, hnd, s) = Some (Inr co, delays, st', hnd', s')"
    and "\<And>n. keeps_command (step n)"
  shows "recorded (pc_command_id p) (pc_digest p) co s'"
proof -
  define Q where "Q = (\<lambda>co (st :: ('a, 'e, unit) store, hnd :: mem_handle, s). recorded (pc_command_id p) (pc_digest p) (co :: unit command_outcome) s)"
  have "case Inr co of Inl (_ :: error) \<Rightarrow> True | Inr x \<Rightarrow> Q x (st', hnd', s')"
    by (rule command_loop_result [OF assms(1) [unfolded transaction_loop_def], of "\<lambda>_. True" Q])
      (auto simp: Q_def split: prod.splits dest: attempt_transaction_recorded [OF _ assms(2)] persist_rejection_recorded)
  then show ?thesis
    by (simp add: Q_def)
qed

section \<open>The heads a commit ran on\<close>

lemma mem_events_after_head: "mem_inv s \<Longrightarrow> mem_events_after s entity (ms_head (stream_of s entity)) = []"
proof -
  assume "mem_inv s"
  then have ok: "stream_ok entity (stream_of s entity)"
    by (simp add: mem_inv_def stream_of_ok)
  have "\<not> ms_head (stream_of s entity) < k" if "(k, e) \<in> set (ms_events (stream_of s entity))" for k e
    using stream_ok_above [OF ok, of k] bt_get_iff [of "ms_events (stream_of s entity)" k e] ok that
    by (auto simp: stream_ok_def)
  then show ?thesis
    by (auto simp: mem_events_after_stream filter_empty_conv)
qed

lemma prepared_commit_heads:
  assumes ok: "tx_ok tx" and inv: "mem_inv s" and t: "prepare generated m tx = Inr t"
    and run: "mem_commit_transaction j (t\<lparr>tc_outcome := o'\<rparr>) hnd s = (Inr (), hnd', s')" and ss: "ss \<in> set (tx_streams tx)"
  shows "ms_head (stream_of s (ss_entity_id ss)) = ss_head ss"
    and "mem_events_after s' (ss_entity_id ss) (ss_head ss) = stamped_events (stamp_commit_id m generated) ss"
proof -
  let ?t = "t\<lparr>tc_outcome := o'\<rparr>"
  obtain t' where norm: "normalize j ?t = Inr t'"
    using run by (cases rule: mem_transaction_cases) auto
  have t': "t' = normal_form ?t"
    using norm by (simp add: normalize_Inr)
  have streams: "tc_streams t' = tc_streams t"
    using prepared_normal_form [OF t] by (simp add: t')
  have written: "stream_commit (stamp_commit_id m generated) ss \<in> set (tc_streams t')" if "ss_events ss \<noteq> []"
    using that ss by (simp add: streams prepare_Inr(1) [OF t])
  have unwritten: "ss_entity_id ss \<notin> cm_entity_id ` set (tc_streams t')" if "ss_events ss = []"
  proof
    assume "ss_entity_id ss \<in> cm_entity_id ` set (tc_streams t')"
    then obtain ss2 where "ss2 \<in> set (tx_streams tx)" "ss_events ss2 \<noteq> []" "ss_entity_id ss = ss_entity_id ss2"
      by (auto simp: streams prepare_Inr(1) [OF t])
    then show False
      using ok ss that by (auto simp: tx_ok_def distinct_map dest: inj_onD)
  qed
  have fenced: "engine_fence ss \<in> set (tc_fences t')" if "ss_events ss = []"
    using that ss unwritten by (auto simp: t' normal_form_fences prepare_Inr(2) [OF t] engine_fence_def)
  have "\<not> transaction_is_empty t'"
    using written fenced by (cases "ss_events ss = []") (auto simp: transaction_is_empty_def)
  then obtain s1 where s1: "s1 = s\<lparr>mr_manifest := mr_manifest s1\<rparr>" and w: "writable j (tc_streams t')"
    and checks: "write_checks s1 (tc_streams t') (tc_fences t') (tc_views t') (transaction_stored_outcome t')
      (\<lambda>m. check_retention t' m (\<lambda>_. False)) = Inr ()"
    and s': "s' = write_apply s1 (tc_streams t') (tc_views t') (transaction_stored_outcome t')"
    by (rule transaction_written [OF run norm])
  have inv1: "mem_inv s1"
    using inv by (subst s1) simp
  have same: "stream_of s1 entity = stream_of s entity" for entity
    by (subst s1) (simp add: stream_of_def)
  have ev: "ev_sequence (hd (stamped_events (stamp_commit_id m generated) ss)) = ss_head ss + 1" if "ss_events ss \<noteq> []"
    using ok ss that by (auto simp: tx_ok_def staged_ok_def stamped_events_def hd_conv_nth hd_map dest!: bspec [of _ _ ss] spec [of _ 0])
  show head: "ms_head (stream_of s (ss_entity_id ss)) = ss_head ss"
  proof (cases "ss_events ss = []")
    case True
    have "rank (write_failures s1 (tc_streams t') (tc_fences t')) = None"
      using checks by (simp add: write_checks_Inr)
    from write_failures_None(2) [OF this fenced [OF True]] unwritten [OF True] show ?thesis
      by (auto simp: engine_fence_def same)
  next
    case False
    then show ?thesis
      using written_head [OF w checks written [OF False]] ev by (simp add: same)
  qed
  show "mem_events_after s' (ss_entity_id ss) (ss_head ss) = stamped_events (stamp_commit_id m generated) ss"
  proof (cases "ss_events ss = []")
    case True
    have "stream_of s' (ss_entity_id ss) = stream_of s1 (ss_entity_id ss)"
      using unwritten [OF True] unfolding s' by (intro write_apply_stream(2) [OF w]) auto
    then have "mem_events_after s' (ss_entity_id ss) (ss_head ss) = mem_events_after s1 (ss_entity_id ss) (ss_head ss)"
      by (simp add: mem_events_after_stream)
    also have "\<dots> = []"
      using mem_events_after_head [OF inv1, of "ss_entity_id ss"] head by (simp add: same)
    finally show ?thesis
      using True by (simp add: stamped_events_def)
  next
    case False
    then show ?thesis
      using written_stream(1) [OF inv1 w checks written [OF False]] ev unfolding s' by simp
  qed
qed

lemma tx_ready_mem:
  assumes "tx_ready (mem_repository j env) tx (hnd, s) = (r, tx', hnd', s')"
  shows "tx_streams tx' = tx_streams tx" "tx_outcomes tx' = tx_outcomes tx"
    and "s' = s \<or> (\<exists>types r1. mem_declare_history_dependent types hnd (env s) = (r1, hnd', s'))"
  using assms
  by (auto simp: tx_ready_def ready_projectors_def mem_repository_def Let_def split: if_splits prod.splits sum.splits)

lemma tx_ready_good:
  assumes env: "env_ok ag entity P env" and g: "good ag entity h s"
    and run: "tx_ready (mem_repository j env) tx (hnd, s) = (r, tx', hnd', s')"
  shows "\<exists>h'. grows P h h' \<and> good ag entity h' s'"
  using tx_ready_mem(3) [OF run] env_okE [OF env g] declare_history_good g by (metis grows_refl)

lemma tx_ready_inv:
  assumes env: "\<And>s. mem_inv s \<Longrightarrow> mem_inv (env s)" and "mem_inv s"
    and run: "tx_ready (mem_repository j env) tx (hnd, s) = (r, tx', hnd', s')"
  shows "mem_inv s'"
  using tx_ready_mem(3) [OF run] mem_declare_history_ok env assms(2) by blast

lemma tx_commit_Inr:
  assumes "tx_commit (mem_repository j env) generated m tx (hnd, s) = (Inr events, tx', hnd', s')"
  obtains hnd1 s1 t where "tx_ready (mem_repository j env) tx (hnd, s) = (Inr (), tx', hnd1, s1)" "prepare generated m tx' = Inr t"
    "mem_commit_transaction j t hnd1 (env s1) = (Inr (), hnd', s')" "events = receipt_of_transaction t"
  using assms by (auto simp: tx_commit_def commit_transaction_with_receipt_mem split: if_splits prod.splits sum.splits)

lemma stale_from_Nil:
  assumes "stale_from streams expected = Inr []" and "(entity, v) \<in> set expected"
  shows "\<exists>ss \<in> set streams. ss_entity_id ss = entity \<and> ss_head ss = v"
  using assms
proof (induction streams expected rule: stale_from.induct)
  case (2 streams entity' expected rest)
  then show ?case
    by (cases "find (\<lambda>ss. ss_entity_id ss = entity') streams") (auto simp: result_simps find_Some_iff split: if_splits)
qed simp

lemma rejected_status [simp]: "oc_status (stored_outcome_of (pending_rejected p r) ids) = Rejected"
  by (simp add: stored_outcome_of_def pending_rejected_def with_identity_def rejected_outcome_def)

lemma persist_rejection_status:
  assumes "persist_rejection j' (mem_repository j env) p wait rejection (hnd, s) = (Inr co, hnd', s')"
  shows "co_replayed co \<or> oc_status (co_outcome co) = Rejected"
  using assms by (cases rule: persist_rejection_cases) (auto simp: fresh_outcome_def replay_outcome_def)

lemma record_transaction_fresh:
  assumes run: "record_transaction j' (mem_repository j env) p o' t tx (hnd, s) = (Inr co, hnd', s')"
    and fresh: "\<not> co_replayed co" "oc_status (co_outcome co) = Accepted"
  shows "mem_commit_transaction j (t\<lparr>tc_outcome := Some o'\<rparr>) hnd (env s) = (Inr (), hnd', s')"
    and "co_outcome co = stored_outcome_of o' (transaction_event_ids t)" and "co_events co = receipt_of_transaction t"
  using run fresh
  by (cases rule: record_transaction_cases;
      auto simp: transaction_with_outcome_def fresh_outcome_def replay_outcome_def persist_stale_fence_def dest: persist_rejection_status)+

lemma tx_reject_status:
  assumes "tx_reject j' (mem_repository j env) rejection tx (hnd, s) = (Inr co, tx', hnd', s')"
  shows "co_replayed co \<or> oc_status (co_outcome co) = Rejected"
proof -
  obtain p canonical t where rec: "record_transaction j' (mem_repository j env) p (pending_rejected p canonical) t tx (hnd, s) = (Inr co, hnd', s')"
    using assms by (auto simp: tx_reject_def commit_rejection_def split: sum.splits prod.splits)
  show ?thesis
    using record_transaction_fresh(2) [OF rec] rejected_status outcome_status.exhaust by metis
qed

lemma accepted_Inr:
  assumes run: "tx_commit_with_outcome j' (mem_repository j env) generated response tx (hnd, s) = (Inr co, tx', hnd', s')"
    and fresh: "\<not> co_replayed co" "oc_status (co_outcome co) = Accepted"
  obtains p t hnd1 s1 o' where "tx_command tx = Some p" "tx_ready (mem_repository j env) tx (hnd, s) = (Inr (), tx', hnd1, s1)"
    "prepare generated (pc_metadata p) tx' = Inr t" "co_events co = receipt_of_transaction t"
    "mem_commit_transaction j (t\<lparr>tc_outcome := Some o'\<rparr>) hnd1 (env s1) = (Inr (), hnd', s')"
    "\<And>entity v. (entity, v) \<in> set (tx_expected tx) \<Longrightarrow> \<exists>ss \<in> set (tx_streams tx). ss_entity_id ss = entity \<and> ss_head ss = v"
proof -
  have "tx_reject j' (mem_repository j env) rejection tx (hnd, s) \<noteq> (Inr co, tx', hnd', s')" for rejection
    using tx_reject_status fresh by force
  then obtain p t hnd1 s1 where p: "tx_command tx = Some p" and ready: "tx_ready (mem_repository j env) tx (hnd, s) = (Inr (), tx', hnd1, s1)"
    and t: "prepare generated (pc_metadata p) tx' = Inr t"
    and rec: "record_transaction j' (mem_repository j env) p (outcome_with_response (pending_accepted p) response) t tx' (hnd1, s1)
      = (Inr co, hnd', s')"
    and stale: "tx_expected tx \<noteq> [] \<longrightarrow> stale_versions tx = Inr []"
    using run by (auto simp: tx_commit_with_outcome_def take_command_def result_simps ok_or_def bt_empty_def
        split: sum.splits prod.splits option.splits if_splits)
  show thesis
  proof (rule that [OF p ready t record_transaction_fresh(3,1) [OF rec fresh]])
    fix entity v
    assume expected: "(entity, v) \<in> set (tx_expected tx)"
    then have "tx_expected tx \<noteq> []"
      by auto
    with stale have "stale_from (tx_streams tx) (tx_expected tx) = Inr []"
      by (simp add: stale_versions_def)
    then show "\<exists>ss \<in> set (tx_streams tx). ss_entity_id ss = entity \<and> ss_head ss = v"
      using expected by (rule stale_from_Nil)
  qed
qed

end
