(* ===== verification/Store_Correct.thy ===== *)
theory Store_Correct
  imports Store_History Samples
begin

text \<open>
  What the store promises over the in-memory repository: a load is the replay of the whole history, a
  command is decided on the state it commits after, retries commit at most once and are bounded.
\<close>

section \<open>A sample aggregate\<close>

text \<open>A note is what was written to it; an empty line is refused.\<close>

definition notebook :: "(string, string, string, string) aggregate" where
  "notebook =
    \<lparr>ag_type = ''note'', ag_snapshot_interval = Some 2, ag_default = [],
     ag_handle = (\<lambda>a c. if c = [] then Inl ''empty'' else Inr [c]), ag_apply = (\<lambda>e a. a @ e),
     ag_upcasters = [], ag_encode = Inr, ag_decode = Inr,
     de_event_type = (\<lambda>_. ''written''), de_event_version = (\<lambda>_. 1), de_to_payload = Inr,
     de_from_payload = (\<lambda>_ _ p. Inr p), ag_rejection_events = (\<lambda>_ _. []),
     ag_to_rejection = (\<lambda>e. Some (new_rejection e ''refused'')), ag_error_text = id,
     cd_command_type = (\<lambda>_. ''write''), cd_canonical_payload = (\<lambda>c. Inr (Some c))\<rparr>"

lemma notebook_laws: "aggregate_laws notebook"
  by (simp add: aggregate_laws_def notebook_def)

lemma good_new: "good ag entity [] new_store"
proof -
  have "mem_inv new_store"
    using reachable_inv [OF reachable_new] by (simp add: sys_inv_def new_system_def)
  then show ?thesis
    by (auto simp: good_def stream_of_def new_store_def absent_stream_def tells_def numbered_def full_replay_def
        covered_def snapshot_position_def)
qed

abbreviation write_note :: "string \<Rightarrow> mem_world \<Rightarrow> (string execute_error + string loaded \<times> serialized_event list)
    \<times> (string, string, unit) store \<times> mem_world" where
  "write_note line \<equiv> execute notebook (mem_repository sample_codec id) ''first'' ''n'' line default_metadata new_store_config"

definition note_event :: "string \<Rightarrow> event_sequence \<Rightarrow> serialized_event" where
  "note_event line k =
    \<lparr>ev_id = for_event ''n'' k, ev_sequence = k, ev_type = ''written'', ev_version = 1, ev_entity_id = ''n'',
     ev_entity_type = ''note'', ev_payload = line, ev_metadata = default_metadata\<lparr>md_commit_id := ''first''\<rparr>\<rparr>"

text \<open>The store after a first line, and after a second one, whose commit writes a snapshot.\<close>

definition note_store :: "(event_sequence, serialized_event) btree \<Rightarrow> serialized_snapshot option \<Rightarrow> event_sequence \<Rightarrow> mem_store" where
  "note_store events sn head =
    \<lparr>mr_streams = [(''n'', \<lparr>ms_events = events, ms_snapshot = sn, ms_head = head\<rparr>)],
     mr_views = [], mr_outcomes = [],
     mr_manifest = Some \<lparr>fm_version = 1, fm_features = [(''stream-heads'', 1)], fm_history_dependent = [],
        fm_retention = []\<rparr>,
     mr_rebuild = default_rebuild_state\<rparr>"

definition first_world :: mem_world where
  "first_world = (sample_handle, note_store [(1, note_event ''ab'' 1)] None 1)"

definition second_world :: mem_world where
  "second_world =
    (sample_handle, note_store [(1, note_event ''ab'' 1), (2, note_event ''c'' 2)]
      (Some \<lparr>sn_entity_type = ''note'', sn_entity_id = ''n'', sn_sequence = 1, sn_event_sequence = 2, sn_payload = ''abc''\<rparr>) 2)"

lemma write_note_good:
  assumes "good notebook ''n'' h s" and "map_prod (map_sum id snd) snd (write_note line (hnd, s)) = (Inr evs, hnd', s')"
  shows "good notebook ''n'' (h @ evs) s'"
proof -
  obtain l st' where run: "write_note line (hnd, s) = (Inr (l, evs), st', hnd', s')"
    using assms(2) by (cases "write_note line (hnd, s)") (auto simp: map_sum_def split: sum.splits)
  have quiet: "env_ok notebook ''n'' (\<lambda>_. False) id"
    by (rule env_ok_id)
  show ?thesis
    using execute_history [OF notebook_laws quiet assms(1) run] by (auto simp: grows_def list_all_iff)
qed

lemma note_runs:
  "map_prod (map_sum id snd) snd (write_note ''ab'' (new_handle, new_store)) = (Inr [note_event ''ab'' 1], first_world)"
  "map_prod (map_sum id snd) snd (write_note ''c'' first_world) = (Inr [note_event ''c'' 2], second_world)"
  by code_simp+

abbreviation note_history :: "serialized_event list" where
  "note_history \<equiv> [note_event ''ab'' 1, note_event ''c'' 2]"

lemma second_world_good: "good notebook ''n'' note_history (snd second_world)"
proof -
  have first: "good notebook ''n'' [note_event ''ab'' 1] (snd first_world)"
    using write_note_good [OF good_new] note_runs(1) by (simp add: first_world_def)
  show ?thesis
    using write_note_good [OF first] note_runs(2) by (simp add: first_world_def second_world_def)
qed

text \<open>Another process that compacts the note before every call.\<close>

definition compactor :: "mem_store \<Rightarrow> mem_store" where
  "compactor s = snd (mem_compact_below ''n'' 2 new_handle s)"

lemma compactor_ok: "env_ok notebook ''n'' P compactor"
  using env_ok_compact [of notebook "''n''" P "''n''" 2 new_handle] by (simp add: compactor_def [abs_def])

abbreviation raced :: "(mem_world, unit) repository" where
  "raced \<equiv> mem_repository sample_codec compactor"

abbreviation plain_store :: "(string, string, unit) store" where
  "plain_store \<equiv> new_store_config"

section \<open>Loads and commands\<close>

text \<open>C2: with no other writer, loading an entity gives the state its whole history replays to, whatever
  snapshots, compaction and catch-up snapshots have made of its log, and leaves the history as it was.\<close>

theorem load_replays_the_whole_history:
  assumes "aggregate_laws ag" and "good ag entity h s"
    and "load ag (mem_repository j id) st entity (hnd, s) = (result, hnd', s')"
  shows "good ag entity h s' \<and>
    (\<exists>l l2. result = Inr l \<and> full_replay ag entity h = Inr l2 \<and> same_state l l2)"
  using load_whole [OF assms] by blast

theorem load_replays_the_whole_history_witness:
  "\<exists>l. fst (load notebook (mem_repository sample_codec id) plain_store ''n'' second_world) = Inr l
    \<and> ld_aggregate l = ''abc'' \<and> ld_sequence l = 2"
proof -
  obtain result hnd' s' where run: "load notebook (mem_repository sample_codec id) plain_store ''n''
      (fst second_world, snd second_world) = (result, hnd', s')"
    by (rule prod_cases3)
  have whole: "map_sum id (\<lambda>l. (ld_aggregate l, ld_sequence l)) (full_replay notebook ''n'' note_history) = Inr (''abc'', 2)"
    by code_simp
  obtain l l2 where "result = Inr l" "full_replay notebook ''n'' note_history = Inr l2" "same_state l l2"
    using load_replays_the_whole_history [OF notebook_laws second_world_good run] by blast
  then show ?thesis
    using run whole by (auto simp: same_state_def)
qed

text \<open>C22: a load that races with other writers gives a state the entity was in: the replay of the history
  up to some point of what it is when the load returns.\<close>

theorem racing_load_gives_a_past_state:
  assumes "aggregate_laws ag" and "env_ok ag entity P env" and "good ag entity h s"
    and "load ag (mem_repository j env) st entity (hnd, s) = (Inr l, hnd', s')"
  shows "\<exists>h' k l2. grows P h h' \<and> good ag entity h' s' \<and> k \<le> length h'
    \<and> full_replay ag entity (take k h') = Inr l2 \<and> same_state l l2"
  using load_past [OF assms(1-3) assms(4) [unfolded load_def]] by (fastforce simp: past_state_def)

theorem racing_load_gives_a_past_state_witness:
  "\<exists>l k l2. fst (load notebook raced plain_store ''n'' second_world) = Inr l \<and> k \<le> length note_history
    \<and> full_replay notebook ''n'' (take k note_history) = Inr l2 \<and> same_state l l2"
proof -
  have "is_ok (fst (load notebook raced plain_store ''n'' second_world))"
    by code_simp
  then obtain l where l: "fst (load notebook raced plain_store ''n'' second_world) = Inr l"
    by (auto simp: is_ok_iff)
  obtain hnd' s' where run: "load notebook raced plain_store ''n'' (fst second_world, snd second_world) = (Inr l, hnd', s')"
    using l by (metis prod.collapse)
  show ?thesis
    using racing_load_gives_a_past_state [OF notebook_laws compactor_ok [of "\<lambda>_. False"] second_world_good run] l
    by (fastforce simp: grows_def list_all_iff)
qed

text \<open>C18: compacting any entity changes nothing a later load shows.\<close>

theorem compaction_is_invisible_to_loads:
  assumes "aggregate_laws ag" and "good ag entity h s" and "mem_compact_below e through hnd0 s = (r, s')"
    and "load ag (mem_repository j id) st entity (hnd, s) = (before, hnd1, s1)"
    and "load ag (mem_repository j id) st entity (hnd, s') = (after, hnd2, s2)"
  shows "\<exists>l1 l2. before = Inr l1 \<and> after = Inr l2 \<and> same_state l1 l2"
proof -
  note load_whole(2) [OF assms(1,2,4)] load_whole(2) [OF assms(1) compact_good [OF assms(3,2)] assms(5)]
  then show ?thesis
    by (auto simp: same_state_def)
qed

theorem compaction_is_invisible_to_loads_witness:
  "length (mem_events (snd second_world) ''n'') = 2 \<and> mem_events (compactor (snd second_world)) ''n'' = [] \<and>
   (\<exists>l1 l2. fst (load notebook (mem_repository sample_codec id) plain_store ''n'' second_world) = Inr l1
    \<and> fst (load notebook (mem_repository sample_codec id) plain_store ''n''
        (fst second_world, compactor (snd second_world))) = Inr l2 \<and> same_state l1 l2)"
proof -
  let ?load = "\<lambda>s. load notebook (mem_repository sample_codec id) plain_store ''n'' (fst second_world, s)"
  obtain before hnd1 s1 where b: "?load (snd second_world) = (before, hnd1, s1)"
    by (rule prod_cases3)
  obtain after hnd2 s2 where a: "?load (compactor (snd second_world)) = (after, hnd2, s2)"
    by (rule prod_cases3)
  have "\<exists>l1 l2. before = Inr l1 \<and> after = Inr l2 \<and> same_state l1 l2"
    by (rule compaction_is_invisible_to_loads [OF notebook_laws second_world_good _ b a, of "''n''" 2 new_handle])
      (simp add: compactor_def prod_eq_iff)
  moreover have "length (mem_events (snd second_world) ''n'') = 2 \<and> mem_events (compactor (snd second_world)) ''n'' = []"
    by code_simp
  ultimately show ?thesis
    using a b by simp
qed

text \<open>C1: commands are serializable. While other writers add events to the history, a command that
  succeeds appends exactly the events it returns, and it decided them on the state the whole history
  before them replays to, not on what it happened to load; its result is that state with the events
  applied. A command that fails appends nothing.\<close>

theorem execute_is_serializable:
  assumes "aggregate_laws ag" and "env_ok ag entity P env" and "good ag entity h s"
    and "execute ag (mem_repository j env) generated entity command m st (hnd, s) = (result, st', hnd', s')"
  shows "\<exists>h'. grows P h h' \<and> (case result of
      Inl e \<Rightarrow> good ag entity h' s'
    | Inr (l', evs) \<Rightarrow> good ag entity (h' @ evs) s' \<and> (evs \<noteq> [] \<longrightarrow>
        (\<exists>l2 events. full_replay ag entity h' = Inr l2 \<and> ag_handle ag (ld_aggregate l2) command = Inr events
          \<and> serialize_events ag entity (int (length h')) events (stamp_commit_id m generated) = Inr evs
          \<and> ld_aggregate l' = fold (ag_apply ag) events (ld_aggregate l2))))"
  by (rule execute_history [OF assms])

theorem execute_is_serializable_witness:
  "\<exists>l' e s'. fst (execute notebook raced ''g'' ''n'' ''d'' default_metadata plain_store second_world) = Inr (l', [e])
    \<and> good notebook ''n'' (note_history @ [e]) s' \<and> ld_aggregate l' = ''abcd''"
proof -
  let ?run = "execute notebook raced ''g'' ''n'' ''d'' default_metadata plain_store"
  obtain result st' hnd' s' where run: "?run (fst second_world, snd second_world) = (result, st', hnd', s')"
    by (rule prod_cases4)
  have "map_sum id (\<lambda>(l, evs). (ld_aggregate l, length evs)) (fst (?run second_world)) = Inr (''abcd'', 1)"
    by code_simp
  then have "map_sum id (\<lambda>(l, evs). (ld_aggregate l, length evs)) result = Inr (''abcd'', 1)"
    using run by simp
  then obtain l' e where result: "result = Inr (l', [e])" and agg: "ld_aggregate l' = ''abcd''"
    by (cases result) (auto simp: length_Suc_conv)
  have "good notebook ''n'' (note_history @ [e]) s'"
    using execute_is_serializable [OF notebook_laws compactor_ok [of "\<lambda>_. False"] second_world_good run]
    unfolding result by (auto simp: grows_def list_all_iff)
  then show ?thesis
    using run result agg by auto
qed

text \<open>C13: retries never commit twice. Whatever the other writers add between and during the attempts, a
  command run with retries has appended the events it returns once, after everything else, when it
  succeeds, and nothing when it fails.\<close>

theorem retries_commit_at_most_once:
  assumes "aggregate_laws ag" and "env_ok ag entity P env" and "\<And>d. env_ok ag entity P (sleep d)"
    and "good ag entity h s"
    and "execute_with_retry ag (mem_repository j env) generated entity command m policy random
        (\<lambda>d (hnd, s). (hnd, sleep d s)) st (hnd, s) = Some (result, delays, st', hnd', s')"
  shows "\<exists>h'. grows P h h' \<and> (case result of
      Inl e \<Rightarrow> good ag entity h' s'
    | Inr (l', evs) \<Rightarrow> good ag entity (h' @ evs) s')"
  by (rule execute_with_retry_history [OF assms(1,2,4,3,5)])

theorem retries_commit_at_most_once_witness:
  "\<exists>l' e delays st' hnd' s'. execute_with_retry notebook raced (\<lambda>_. ''g'') ''n'' ''d'' default_metadata
        default_retry_policy (\<lambda>_. 0) (\<lambda>d (hnd, s). (hnd, compactor s)) plain_store (fst second_world, snd second_world)
      = Some (Inr (l', [e]), delays, st', hnd', s')
    \<and> good notebook ''n'' (note_history @ [e]) s'"
proof -
  let ?run = "\<lambda>w. execute_with_retry notebook raced (\<lambda>_. ''g'') ''n'' ''d'' default_metadata
        default_retry_policy (\<lambda>_. 0) (\<lambda>d (hnd, s). (hnd, compactor s)) plain_store w"
  have "map_option (\<lambda>(result, _). map_sum id (\<lambda>(_, evs). length evs) result) (?run second_world) = Some (Inr 1)"
    by code_simp
  then obtain result delays st' hnd' s' where run: "?run (fst second_world, snd second_world) = Some (result, delays, st', hnd', s')"
    and one: "map_sum id (\<lambda>(_, evs). length evs) result = Inr 1"
    by (auto simp: case_prod_unfold)
  obtain l' e where result: "result = Inr (l', [e])"
    using one by (cases result) (auto simp: length_Suc_conv)
  have "good notebook ''n'' (note_history @ [e]) s'"
    using retries_commit_at_most_once [OF notebook_laws compactor_ok [of "\<lambda>_. False"] compactor_ok second_world_good run]
    unfolding result by (auto simp: grows_def list_all_iff)
  then show ?thesis
    using run result by auto
qed

text \<open>C27: a command with retries always returns, when delays are below the panic of the jitter at 64 bits:
  it makes no more attempts than its policy allows, at least one, and sleeps before each further one no
  longer than the policy's largest delay.\<close>

theorem retries_are_bounded:
  assumes "max_delay policy < u64_max"
  shows "\<exists>result delays w'. execute_with_retry ag rp generated entity command m policy random sleep st w
      = Some (result, delays, w')
    \<and> length delays < max (max_attempts policy) 1 \<and> (\<forall>d \<in> set delays. d \<le> max_delay policy)"
proof -
  obtain result delays w' where run: "execute_with_retry ag rp generated entity command m policy random sleep st w
      = Some (result, delays, w')"
    unfolding execute_with_retry_def
    using retry_loop_returns [OF assms, of "\<lambda>n (st, r). execute ag rp (generated n) entity command m st r"
        random "\<lambda>d (st, r). (st, sleep d r)" 0 "(st, w)"] by blast
  then show ?thesis
    using retry_loop_delays [OF run [unfolded execute_with_retry_def]] by simp
qed

theorem retries_are_bounded_witness:
  "max_delay default_retry_policy < u64_max \<and>
   (\<exists>result delays w'. execute_with_retry notebook raced (\<lambda>_. ''g'') ''n'' [] default_metadata
        default_retry_policy (\<lambda>_. 0) (\<lambda>_. id) plain_store second_world = Some (result, delays, w')
    \<and> length delays < max (max_attempts default_retry_policy) 1
    \<and> (\<forall>d \<in> set delays. d \<le> max_delay default_retry_policy))"
proof -
  have bound: "max_delay default_retry_policy < u64_max"
    by code_simp
  show ?thesis
    by (rule conjI [OF bound], rule retries_are_bounded [OF bound])
qed

end
