(* ===== verification/Store_Answers.thy ===== *)
theory Store_Answers
  imports Store_Outcomes Store_Correct
begin

text \<open>
  What a store with outcomes promises over the in-memory repository: the answer to a command is the row
  recorded for it, its events are appended once, and the command sent again gets the same answer.
\<close>

section \<open>Answering from the row\<close>

lemma freeze_for_response_Inr:
  assumes "freeze_for_response ag c entity command m = Inr p"
  shows "require_command_id m = Inr (pc_command_id p)" "md_command_id m = Some (pc_command_id p)"
    "check_command_id (pc_command_id p) = Inr ()"
  using assms
  by (auto simp: freeze_for_response_def new_pending_def require_command_id_def non_empty_def result_simps
      split: option.splits if_splits)

lemma attempt_known:
  assumes "check_command_id (pc_command_id p) = Inr ()" and "bt_get (mr_outcomes (env s)) (pc_command_id p) = Some o'"
  shows "attempt_with_response j ag (mem_repository j2 env) generated entity command m p respond (st, hnd, s) =
    ((case same_command o' (pc_digest p) of Inl e \<Rightarrow> Inl (failed_deciding e) | Inr _ \<Rightarrow> Inr (replay_outcome o')), st, hnd, env s)"
  using assms
  by (auto simp: attempt_with_response_def pre_check_row_def mem_repository_def mem_outcome_def pre_check_def
      same_command_def result_simps)

lemma reuse_never_retried:
  "failed_retry (failed_deciding (IdempotencyKeyReuse command o')) = Never"
  "journal_row (IdempotencyKeyReuse command o') = None"
  "fl_error (failed_deciding (IdempotencyKeyReuse command o')) = IdempotencyKeyReuse command o'"
  by code_simp+

lemma execute_known:
  assumes "st_outcomes st = Some c" and "freeze_for_response ag c entity command m = Inr p"
    and "bt_get (mr_outcomes (env s)) (pc_command_id p) = Some o'"
  shows "execute_with_response en ag (mem_repository j env) entity command m respond st (hnd, s) =
    Some ((if oc_digest o' = pc_digest p then Inr (replay_outcome o') else Inl (IdempotencyKeyReuse (oc_command_id o') o')),
      [], st, hnd, env s)"
proof -
  have known: "attempt_with_response (en_json en) ag (mem_repository j env) generated entity command m p respond (st, hnd, s) =
      ((if oc_digest o' = pc_digest p then Inr (replay_outcome o')
        else Inl (failed_deciding (IdempotencyKeyReuse (oc_command_id o') o'))), st, hnd, env s)" for generated
    by (simp add: attempt_known [where env = env and s = s, OF freeze_for_response_Inr(3) [OF assms(2)] assms(3)] same_command_def)
  show ?thesis
    using assms(1,2)
    by (simp add: execute_with_response_def need_outcomes_def ok_or_def and_then_def command_loop.simps known reuse_never_retried)
qed

section \<open>A sample configuration\<close>

definition note_config :: outcome_config where
  "note_config = new_outcome_config (\<lambda>i. Inr (di_command_type i @ di_payload i))"

definition answering_store :: "(string, string, unit) store" where
  "answering_store = with_outcomes new_store_config note_config"

definition note_engine :: engine where
  "note_engine = \<lparr>en_json = sample_codec, en_debug = id, en_show = (\<lambda>_. []), en_commit_id = (\<lambda>_. ''g''), en_random = (\<lambda>_. 0), en_elapsed = (\<lambda>_. 0)\<rparr>"

definition note_metadata :: metadata where
  "note_metadata = default_metadata\<lparr>md_command_id := Some ''c1''\<rparr>"

abbreviation answer_note where
  "answer_note line \<equiv> execute_with_response note_engine notebook raced ''n'' line note_metadata (\<lambda>a _. Inr (Some a)) answering_store"

definition note_frozen :: "string \<Rightarrow> pending_command" where
  "note_frozen line =
    \<lparr>pc_command_id = ''c1'', pc_digest = ''write'' @ line,
     pc_identity = \<lparr>ri_command_type = ''write'', ri_targets = [''n''], ri_principal = None\<rparr>, pc_metadata = note_metadata\<rparr>"

lemma note_freezes: "freeze_for_response notebook note_config ''n'' ''d'' note_metadata = Inr (note_frozen ''d'')"
  "freeze_for_response notebook note_config ''n'' ''e'' note_metadata = Inr (note_frozen ''e'')"
  by code_simp+

lemma note_answer:
  obtains co e st' hnd' s' where "answer_note ''d'' (fst second_world, snd second_world) = Some (Inr co, [], st', hnd', s')"
    and "oc_response (co_outcome co) = Some ''abcd''" and "co_events co = [e]"
proof -
  have "map_option (\<lambda>(result, delays, _). (map_sum id (\<lambda>co. (oc_response (co_outcome co), length (co_events co))) result, delays))
      (answer_note ''d'' second_world) = Some (Inr (Some ''abcd'', 1), [])"
    by code_simp
  then obtain result st' hnd' s' where run: "answer_note ''d'' second_world = Some (result, [], st', hnd', s')"
    and result: "map_sum id (\<lambda>co. (oc_response (co_outcome co), length (co_events co))) result = Inr (Some ''abcd'', 1)"
    by auto
  then show thesis
    using that by (cases result) (auto simp: length_Suc_conv)
qed

lemma compactor_outcomes: "mr_outcomes (compactor s) = mr_outcomes s"
  by (simp add: compactor_def mem_compact_below_def split: sum.splits option.splits)

section \<open>Answers\<close>

text \<open>C5: the answer to a command with outcomes is the row that is recorded for it when the command
  returns, with the digest of the command, whatever other processes did in between. This holds for a
  fresh answer, a replayed one and a rejection.\<close>

theorem answered_commands_are_recorded:
  assumes "execute_with_response en ag (mem_repository j env) entity command m respond st (hnd, s)
      = Some (Inr co, delays, st', hnd', s')"
  shows "\<exists>c p. st_outcomes st = Some c \<and> freeze_for_response ag c entity command m = Inr p
    \<and> md_command_id m = Some (pc_command_id p)
    \<and> bt_get (mr_outcomes s') (pc_command_id p) = Some (co_outcome co) \<and> oc_digest (co_outcome co) = pc_digest p"
  using assms
proof (cases rule: execute_with_response_cases)
  case (run c p)
  show ?thesis
    using run(1,2) response_recorded [OF run(3)] freeze_for_response_Inr(2) [OF run(2)] by (auto simp: recorded_def)
qed simp

theorem answered_commands_are_recorded_witness:
  "\<exists>co delays st' hnd' s'. answer_note ''d'' (fst second_world, snd second_world) = Some (Inr co, delays, st', hnd', s')
    \<and> oc_response (co_outcome co) = Some ''abcd'' \<and> bt_get (mr_outcomes s') ''c1'' = Some (co_outcome co)
    \<and> oc_digest (co_outcome co) = ''writed''"
proof -
  obtain co e st' hnd' s' where run: "answer_note ''d'' (fst second_world, snd second_world) = Some (Inr co, [], st', hnd', s')"
    and answer: "oc_response (co_outcome co) = Some ''abcd''" and e: "co_events co = [e]"
    by (rule note_answer)
  show ?thesis
    using answered_commands_are_recorded [OF run] run answer note_freezes(1)
    by (auto simp: answering_store_def with_outcomes_def note_frozen_def)
qed

text \<open>C3: commands with outcomes are serializable, whatever is retried. While other writers add events to
  the history, a command that is answered has appended exactly the events it returns, after everything
  else, and they are what it decides on the state the whole history before them replays to, or the events
  the aggregate gives its rejection there. A command that fails appended nothing.\<close>

theorem outcome_commands_are_serializable:
  fixes st :: "('a, 'e, unit) store"
  assumes "aggregate_laws ag" and "env_ok ag entity P env" and "good ag entity h s"
    and "execute_with_response en ag (mem_repository j env) entity command m respond st (hnd, s)
      = Some (result, delays, st', hnd', s')"
  shows "\<exists>h'. grows P h h' \<and> (case result of
      Inl _ \<Rightarrow> good ag entity h' s'
    | Inr co \<Rightarrow> good ag entity (h' @ co_events co) s' \<and> (co_events co \<noteq> [] \<longrightarrow>
        (\<exists>l generated. full_replay ag entity h' = Inr l
          \<and> co_typed_events co = (case ag_handle ag (ld_aggregate l) command of
                Inr events \<Rightarrow> events | Inl e \<Rightarrow> ag_rejection_events ag (ld_aggregate l) e)
          \<and> serialize_events ag entity (int (length h')) (co_typed_events co) (stamp_commit_id m generated)
              = Inr (co_events co))))"
  using assms(4)
proof (cases rule: execute_with_response_cases)
  case (refused e)
  then show ?thesis
    using assms(3) by auto
next
  case (run c p)
  show ?thesis
    using response_history [OF assms(1-3) run(3)] unfolding command_history_def decided_on_def decided_events_def .
qed

theorem outcome_commands_are_serializable_witness:
  "\<exists>co e delays st' hnd' s'. answer_note ''d'' (fst second_world, snd second_world) = Some (Inr co, delays, st', hnd', s')
    \<and> co_events co = [e] \<and> good notebook ''n'' (note_history @ [e]) s'"
proof -
  obtain co e st' hnd' s' where run: "answer_note ''d'' (fst second_world, snd second_world) = Some (Inr co, [], st', hnd', s')"
    and answer: "oc_response (co_outcome co) = Some ''abcd''" and e: "co_events co = [e]"
    by (rule note_answer)
  have "good notebook ''n'' (note_history @ [e]) s'"
    using outcome_commands_are_serializable [OF notebook_laws compactor_ok [of "\<lambda>_. False"] second_world_good run] e
    by (auto simp: grows_def list_all_iff)
  then show ?thesis
    using run e by auto
qed

text \<open>C4: a command takes effect once. When it was answered and its row is kept, sending it again, from any
  store with the same configuration and at any later point, gives the recorded answer as a replay and
  writes nothing: it neither runs the handler nor asks for a response.\<close>

theorem repeated_command_is_answered_from_its_row:
  assumes "execute_with_response en ag (mem_repository j env) entity command m respond st (hnd, s)
      = Some (Inr co, delays, st', hnd', s')"
    and "bt_get (mr_outcomes (env s2)) (the (md_command_id m)) = bt_get (mr_outcomes s') (the (md_command_id m))"
    and "st_outcomes st2 = st_outcomes st"
  shows "execute_with_response en2 ag (mem_repository j env) entity command m respond2 st2 (hnd2, s2)
      = Some (Inr (replay_outcome (co_outcome co)), [], st2, hnd2, env s2)"
  using assms(1)
proof (cases rule: execute_with_response_cases)
  case (run c p)
  have "recorded (pc_command_id p) (pc_digest p) co s'"
    by (rule response_recorded [OF run(3)])
  then show ?thesis
    using execute_known [of st2 c ag entity command m p env s2 "co_outcome co" en2 j respond2 hnd2] run(1,2) assms(2,3)
      freeze_for_response_Inr(2) [OF run(2)] by (simp add: recorded_def)
qed simp

theorem repeated_command_is_answered_from_its_row_witness:
  "\<exists>co delays st' hnd' s'. answer_note ''d'' (fst second_world, snd second_world) = Some (Inr co, delays, st', hnd', s')
    \<and> answer_note ''d'' (hnd', s') = Some (Inr (replay_outcome (co_outcome co)), [], answering_store, hnd', compactor s')"
proof -
  obtain co e st' hnd' s' where run: "answer_note ''d'' (fst second_world, snd second_world) = Some (Inr co, [], st', hnd', s')"
    and answer: "oc_response (co_outcome co) = Some ''abcd''" and e: "co_events co = [e]"
    by (rule note_answer)
  have "answer_note ''d'' (hnd', s') = Some (Inr (replay_outcome (co_outcome co)), [], answering_store, hnd', compactor s')"
    by (rule repeated_command_is_answered_from_its_row [OF run]) (simp_all add: compactor_outcomes)
  then show ?thesis
    using run by blast
qed

text \<open>C25: a command ID names one command. When a row is recorded under the ID with another digest, the
  command is refused with that row, at once and without writing anything, instead of being answered with
  the result of the other command.\<close>

theorem reused_command_id_is_refused:
  assumes "st_outcomes st = Some c" and "freeze_for_response ag c entity command m = Inr p"
    and "bt_get (mr_outcomes (env s)) (pc_command_id p) = Some o'" and "oc_digest o' \<noteq> pc_digest p"
  shows "execute_with_response en ag (mem_repository j env) entity command m respond st (hnd, s) =
    Some (Inl (IdempotencyKeyReuse (oc_command_id o') o'), [], st, hnd, env s)"
  by (simp add: execute_known [where env = env and s = s, OF assms(1-3)] assms(4))

theorem reused_command_id_is_refused_witness:
  "\<exists>o' s. bt_get (mr_outcomes s) ''c1'' = Some o' \<and>
    answer_note ''e'' (new_handle, s) = Some (Inl (IdempotencyKeyReuse (oc_command_id o') o'), [], answering_store, new_handle, compactor s)"
proof -
  let ?o = "accepted_outcome ''c1'' ''writed''"
  let ?s = "new_store\<lparr>mr_outcomes := [(''c1'', ?o)]\<rparr>"
  have row: "bt_get (mr_outcomes (compactor ?s)) (pc_command_id (note_frozen ''e'')) = Some ?o"
    by (simp add: compactor_outcomes note_frozen_def bt_get_def)
  have "answer_note ''e'' (new_handle, ?s) = Some (Inl (IdempotencyKeyReuse (oc_command_id ?o) ?o), [], answering_store, new_handle, compactor ?s)"
    by (rule reused_command_id_is_refused [where env = compactor and s = ?s, OF _ note_freezes(2) row]) (simp_all add: answering_store_def with_outcomes_def note_frozen_def accepted_outcome_def)
  moreover have "bt_get (mr_outcomes ?s) ''c1'' = Some ?o"
    using row by (simp add: compactor_outcomes note_frozen_def)
  ultimately show ?thesis
    by blast
qed

text \<open>C26: a command with outcomes always returns over any repository, when its largest delay is below the
  panic of the jitter at 64 bits: it makes no more attempts than its policy allows, at least one, and waits
  before each further one no longer than the largest delay.\<close>

theorem outcome_retries_are_bounded:
  assumes "\<And>c. st_outcomes st = Some c \<Longrightarrow> cf_retry c = policy" and "max_delay policy < u64_max"
  shows "\<exists>result delays w'. execute_with_response en ag rp entity command m respond st r = Some (result, delays, w')
    \<and> length delays < max (max_attempts policy) 1 \<and> (\<forall>d \<in> set delays. d \<le> max_delay policy)"
proof (cases "and_then (need_outcomes (st_outcomes st)) (\<lambda>c. and_then (freeze_for_response ag c entity command m) (\<lambda>p. Inr (c, p)))")
  case (Inl e)
  then show ?thesis
    by (simp add: execute_with_response_def)
next
  case (Inr cp)
  obtain c p where cp: "cp = (c, p)"
    by (cases cp)
  have policy: "cf_retry c = policy"
    using Inr assms(1) cp by (auto simp: need_outcomes_def ok_or_def and_then_def split: sum.splits option.splits)
  have run: "execute_with_response en ag rp entity command m respond st r = response_loop en ag rp entity command m respond c p (st, r)"
    using Inr cp by (simp add: execute_with_response_def response_loop_def)
  obtain result delays w' where loop: "response_loop en ag rp entity command m respond c p (st, r) = Some (result, delays, w')"
    using command_loop_returns [of "new_budget policy" en c] assms(2) unfolding response_loop_def policy
    by (fastforce simp: new_budget_def)
  show ?thesis
    using run loop command_loop_delays [OF loop [unfolded response_loop_def policy]] by (auto simp: new_budget_def)
qed

theorem outcome_retries_are_bounded_witness:
  "\<exists>result delays w'. answer_note [] second_world = Some (result, delays, w')
    \<and> length delays < max (max_attempts default_retry_policy) 1
    \<and> (\<forall>d \<in> set delays. d \<le> max_delay default_retry_policy)"
  by (rule outcome_retries_are_bounded [of answering_store])
    (simp add: answering_store_def with_outcomes_def note_config_def new_outcome_config_def, code_simp)

end
