(* ===== verification/Transaction_Correct.thy ===== *)
theory Transaction_Correct
  imports Transaction_Mem Store_Answers
begin

text \<open>
  What transactions promise: they stay well formed whatever the application does with them, a commit ran
  on the heads it read, and a command over several streams is answered by its recorded row.
\<close>

section \<open>Sample sessions\<close>

text \<open>A transaction that reads the note and another one, and writes a line to the second only.\<close>

abbreviation no_text :: "error \<Rightarrow> string" where
  "no_text \<equiv> \<lambda>_. []"

definition pair_one :: "(error + (string, string, unit) read_handle) \<times> unit transaction \<times> mem_world" where
  "pair_one = read_stream no_text notebook raced ''n'' (store_transaction 7 plain_store) second_world"

definition pair_two :: "(error + (string, string, unit) read_handle) \<times> unit transaction \<times> mem_world" where
  "pair_two = read_stream no_text notebook raced ''k'' (fst (snd pair_one)) (snd (snd pair_one))"

definition pair_staged :: "((error + unit) \<times> (string, string, unit) read_handle \<times> unit transaction) option" where
  "pair_staged = append_events_to notebook (projr (fst pair_two)) [''z''] (fst (snd pair_two))"

abbreviation pair_tx :: "unit transaction" where
  "pair_tx \<equiv> snd (snd (the pair_staged))"

lemma pair_runs:
  "\<not> isl (fst pair_one)" "\<not> isl (fst pair_two)" "pair_staged \<noteq> None"
  "map (\<lambda>ss. (ss_entity_id ss, ss_head ss, length (ss_events ss))) (tx_streams pair_tx) = [(''n'', 2, 0), (''k'', 0, 1)]"
  "map_sum id (map ev_entity_id) (fst (tx_commit raced ''g'' default_metadata pair_tx (snd (snd pair_two)))) = Inr [''k'']"
  by code_simp+

lemma compactor_inv: "mem_inv s \<Longrightarrow> mem_inv (compactor s)"
  unfolding compactor_def using mem_compact_below_ok by (metis prod.collapse)

lemma second_world_inv: "mem_inv (snd second_world)"
  using second_world_good by (simp add: good_def)

lemma pair_world: "mem_inv (snd (snd (snd pair_two)))"
proof -
  have "snd (snd (snd pair_two)) = compactor (compactor (compactor (compactor (snd second_world))))"
    by code_simp
  then show ?thesis
    by (simp add: compactor_inv second_world_inv)
qed

lemma pair_session:
  "tx_session no_text raced (fst (snd pair_two)) [(notebook, projr (fst pair_one)), (notebook, projr (fst pair_two))] (snd (snd pair_two))"
  "tx_session no_text raced pair_tx [(notebook, projr (fst pair_one)), (notebook, fst (snd (the pair_staged)))] (snd (snd pair_two))"
proof -
  obtain h1 where h1: "fst pair_one = Inr h1"
    using pair_runs(1) by (cases "fst pair_one") auto
  obtain h2 where h2: "fst pair_two = Inr h2"
    using pair_runs(2) by (cases "fst pair_two") auto
  have one: "read_stream no_text notebook raced ''n'' (store_transaction 7 plain_store) second_world
      = (Inr h1, fst (snd pair_one), snd (snd pair_one))"
    using h1 by (metis pair_one_def prod.collapse)
  have two: "read_stream no_text notebook raced ''k'' (fst (snd pair_one)) (snd (snd pair_one))
      = (Inr h2, fst (snd pair_two), snd (snd pair_two))"
    using h2 by (metis pair_two_def prod.collapse)
  have "tx_session no_text raced (fst (snd pair_one)) ([] @ [(notebook, h1)]) (snd (snd pair_one))"
    by (rule session_read [OF session_new one])
  then have read: "tx_session no_text raced (fst (snd pair_two)) (([] @ [(notebook, h1)]) @ [(notebook, h2)]) (snd (snd pair_two))"
    by (rule session_read [OF _ two])
  then show "tx_session no_text raced (fst (snd pair_two)) [(notebook, projr (fst pair_one)), (notebook, projr (fst pair_two))] (snd (snd pair_two))"
    by (simp add: h1 h2)
  have "stage_stream notebook h2 [''z''] [] 2 (fst (snd pair_two)) = Some (the pair_staged)"
    using pair_runs(3) by (simp add: pair_staged_def h2 append_events_to_def append_with_def notebook_def)
  then have "tx_session no_text raced pair_tx ((([] @ [(notebook, h1)]) @ [(notebook, h2)])[1 := (notebook, fst (snd (the pair_staged)))]) (snd (snd pair_two))"
    by (intro session_stage [OF read, of 1 notebook h2 "[''z'']" "[]" 2 "fst (the pair_staged)"]) simp_all
  then show "tx_session no_text raced pair_tx [(notebook, projr (fst pair_one)), (notebook, fst (snd (the pair_staged)))] (snd (snd pair_two))"
    by (simp add: h1)
qed

text \<open>A command that writes a line to the note, decided on what it read, at the head its client saw.\<close>

definition line_begun :: "(error + begun) \<times> unit transaction \<times> mem_world" where
  "line_begun = begin_frozen raced (note_frozen ''d'') (store_transaction 7 answering_store) second_world"

definition line_read :: "(error + (string, string, unit) read_handle) \<times> unit transaction \<times> mem_world" where
  "line_read = read_stream no_text notebook raced ''n'' (fst (snd line_begun)) (snd (snd line_begun))"

definition line_staged :: "((error + unit) \<times> (string, string, unit) read_handle \<times> unit transaction) option" where
  "line_staged = append_events_to notebook (projr (fst line_read)) [''d''] (fst (snd line_read))"

definition line_expected :: "error + unit transaction" where
  "line_expected = expect_version ''n'' 2 (snd (snd (the line_staged)))"

abbreviation line_tx :: "unit transaction" where
  "line_tx \<equiv> projr line_expected"

lemma line_runs:
  "\<not> isl (fst line_read)" "line_staged \<noteq> None" "\<not> isl line_expected"
  "snd (snd (snd line_begun)) = compactor (snd second_world)" "tx_expected line_tx = [(''n'', 2)]"
  "rd_base_sequence (projr (fst line_read)) = 2"
  "map (\<lambda>ss. (ss_entity_id ss, ss_head ss, length (ss_events ss))) (tx_streams line_tx) = [(''n'', 2, 1)]"
  "map_sum id (\<lambda>co. (co_replayed co, oc_status (co_outcome co)))
    (fst (tx_commit_with_outcome sample_codec raced ''g'' None line_tx (snd (snd line_read)))) = Inr (False, Accepted)"
  by code_simp+

lemma line_session: "\<exists>h h'. fst line_read = Inr h \<and> tx_session no_text raced line_tx [(notebook, h')] (snd (snd line_read))"
proof -
  obtain h where h: "fst line_read = Inr h"
    using line_runs(1) by (cases "fst line_read") auto
  have begun: "tx_session no_text raced (fst (snd line_begun))
      ([] :: ((string, string, string, string) aggregate \<times> (string, string, unit) read_handle) list) (snd (snd line_begun))"
    by (rule session_begin [OF session_new [of no_text raced 7 answering_store second_world], of "note_frozen ''d''" "fst line_begun"])
      (simp add: line_begun_def)
  have read: "read_stream no_text notebook raced ''n'' (fst (snd line_begun)) (snd (snd line_begun))
      = (Inr h, fst (snd line_read), snd (snd line_read))"
    using h by (metis line_read_def prod.collapse)
  have one: "tx_session no_text raced (fst (snd line_read)) ([] @ [(notebook, h)]) (snd (snd line_read))"
    by (rule session_read [OF begun read])
  have "stage_stream notebook h [''d''] [] 2 (fst (snd line_read)) = Some (the line_staged)"
    using line_runs(2) by (simp add: line_staged_def h append_events_to_def append_with_def notebook_def)
  then have "tx_session no_text raced (snd (snd (the line_staged)))
      (([] @ [(notebook, h)])[0 := (notebook, fst (snd (the line_staged)))]) (snd (snd line_read))"
    by (intro session_stage [OF one, of 0 notebook h "[''d'']" "[]" 2 "fst (the line_staged)"]) simp_all
  then have "tx_session no_text raced line_tx (([] @ [(notebook, h)])[0 := (notebook, fst (snd (the line_staged)))]) (snd (snd line_read))"
    by (rule session_expect [of _ _ _ _ _ "''n''" 2]) (use line_runs(3) in \<open>cases line_expected; simp add: line_expected_def [symmetric]\<close>)
  then show ?thesis
    using h by auto
qed

section \<open>Building a transaction\<close>

text \<open>C15: a transaction stays well formed. Whatever sequence of reads, appends, fences and expectations built
  it, staging events on any handle it gave out returns (it never panics), leaves every stream with events
  that continue the head the stream was read at and belong to it, keeps the handles at the end of their
  streams, and changes no stream when it is refused.\<close>

theorem staging_keeps_transactions_well_formed:
  assumes "tx_session display rp tx hs r" and "i < length hs" and "hs ! i = (ag, h)"
  shows "\<exists>result h' tx'. stage_stream ag h events named interval tx = Some (result, h', tx')
    \<and> distinct (map ss_entity_id (tx_streams tx')) \<and> (\<forall>ss \<in> set (tx_streams tx'). staged_ok ss)
    \<and> (\<forall>k < length hs. read_ok tx' (fst (hs[i := (ag, h')] ! k)) (snd (hs[i := (ag, h')] ! k)))
    \<and> (\<forall>e. result = Inl e \<longrightarrow> tx_streams tx' = tx_streams tx)"
proof -
  have ok: "session_ok tx hs"
    by (rule session_invariant [OF assms(1)])
  have tx: "tx_ok tx" and h: "read_ok tx ag h"
    using ok nth_mem [OF assms(2)] assms(3) by (auto simp: session_ok_def)
  obtain result h' tx' where run: "stage_stream ag h events named interval tx = Some (result, h', tx')"
    and kept: "(\<forall>u. result \<noteq> Inr u) \<longrightarrow> tx_streams tx' = tx_streams tx"
    by (rule stage_stream_ok [OF tx h, of events named interval]) (rule that)
  have ok': "session_ok tx' (hs[i := (ag, h')])"
    by (rule session_ok_stage [OF ok assms(2,3) run])
  then have "read_ok tx' (fst (hs[i := (ag, h')] ! k)) (snd (hs[i := (ag, h')] ! k))" if "k < length hs" for k
    using nth_mem [of k "hs[i := (ag, h')]"] that by (auto simp: session_ok_def)
  then show ?thesis
    using run ok' kept by (auto simp: session_ok_def tx_ok_def)
qed

theorem staging_keeps_transactions_well_formed_witness:
  "\<exists>result h' tx'. stage_stream notebook (projr (fst pair_two)) [''z''] [] 2 (fst (snd pair_two)) = Some (result, h', tx')
    \<and> (\<forall>ss \<in> set (tx_streams tx'). staged_ok ss) \<and> read_ok tx' notebook (projr (fst pair_one)) \<and> read_ok tx' notebook h'"
proof -
  let ?hs = "[(notebook, projr (fst pair_one)), (notebook, projr (fst pair_two))]"
  obtain result h' tx' where run: "stage_stream notebook (projr (fst pair_two)) [''z''] [] 2 (fst (snd pair_two)) = Some (result, h', tx')"
    and ok: "\<forall>ss \<in> set (tx_streams tx'). staged_ok ss"
    and kept: "\<forall>k < length ?hs. read_ok tx' (fst (?hs[1 := (notebook, h')] ! k)) (snd (?hs[1 := (notebook, h')] ! k))"
    using staging_keeps_transactions_well_formed [OF pair_session(1), of 1 notebook "projr (fst pair_two)" "[''z'']" "[]" 2] by auto
  show ?thesis
    using run ok spec [OF kept, of 0] spec [OF kept, of 1] by auto
qed

section \<open>Committing\<close>

text \<open>C7: a committed transaction ran on the heads it read. When the commit returns, every stream it read,
  written or not, holds exactly the events the transaction staged on it after the head it was read at,
  in whatever order the streams were read and whatever other processes did before the commit.\<close>

theorem transaction_commits_on_the_heads_it_read:
  assumes "tx_session display (mem_repository j env) tx hs (hnd, s)" and "mem_inv s" and "\<And>s. mem_inv s \<Longrightarrow> mem_inv (env s)"
    and "tx_commit (mem_repository j env) generated m tx (hnd, s) = (Inr events, tx', hnd', s')" and "ss \<in> set (tx_streams tx)"
  shows "mem_events_after s' (ss_entity_id ss) (ss_head ss) = stamped_events (stamp_commit_id m generated) ss"
  using assms(4)
proof (rule tx_commit_Inr)
  fix hnd1 s1 t
  assume ready: "tx_ready (mem_repository j env) tx (hnd, s) = (Inr (), tx', hnd1, s1)" and t: "prepare generated m tx' = Inr t"
    and run: "mem_commit_transaction j t hnd1 (env s1) = (Inr (), hnd', s')"
  note same = tx_ready_mem(1) [OF ready]
  have ok: "tx_ok tx'"
    using session_invariant [OF assms(1)] same by (simp add: session_ok_def tx_ok_def)
  have inv: "mem_inv (env s1)"
    using tx_ready_inv [OF assms(3,2) ready] assms(3) by blast
  have none: "t\<lparr>tc_outcome := None\<rparr> = t"
    using prepare_Inr(3) [OF t] by simp
  show ?thesis
    using prepared_commit_heads(2) [OF ok inv t, of j None] run assms(5) by (simp add: none same)
qed

theorem transaction_commits_on_the_heads_it_read_witness:
  "\<exists>events tx' hnd' s'. tx_commit raced ''g'' default_metadata pair_tx (snd (snd pair_two)) = (Inr events, tx', hnd', s')
    \<and> mem_events_after s' ''n'' 2 = [] \<and> length (mem_events_after s' ''k'' 0) = 1"
proof -
  obtain hnd s where w: "snd (snd pair_two) = (hnd, s)"
    by (cases "snd (snd pair_two)")
  obtain result tx' hnd' s' where run: "tx_commit raced ''g'' default_metadata pair_tx (hnd, s) = (result, tx', hnd', s')"
    by (rule prod_cases4)
  obtain events where result: "result = Inr events"
    using pair_runs(5) run w by (cases result) auto
  have inv: "mem_inv s"
    using pair_world w by simp
  note commit = transaction_commits_on_the_heads_it_read [OF pair_session(2) [unfolded w] inv compactor_inv run [unfolded result]]
  obtain n k where tx: "tx_streams pair_tx = [n, k]" "ss_entity_id n = ''n''" "ss_head n = 2" "ss_events n = []"
    "ss_entity_id k = ''k''" "ss_head k = 0" "length (ss_events k) = 1"
    using pair_runs(4) by auto
  have "mem_events_after s' ''n'' 2 = []" "length (mem_events_after s' ''k'' 0) = 1"
    using commit [of n] commit [of k] tx by (simp_all add: stamped_events_def)
  then show ?thesis
    using run w result by auto
qed

text \<open>C6: an accepted command decided on the current state. What a transaction read of a stream, when its
  command is accepted afresh, is the state the stream's whole history replays to when the commit applies,
  and the commit appends exactly the staged events to it. Every version the client expected is the head
  of that read.\<close>

theorem accepted_command_decided_on_the_current_state:
  assumes "aggregate_laws ag" and "env_ok ag entity P env" and "good ag entity hist s0"
    and "read_stream display ag (mem_repository j env) entity tx0 (hnd0, s0) = (Inr h0, tx1, hnd1, s1)"
    and "\<And>h. good ag entity h s1 \<Longrightarrow> \<exists>h'. grows P h h' \<and> good ag entity h' s"
    and "tx_session display (mem_repository j env) tx hs (hnd, s)"
    and "ss \<in> set (tx_streams tx)" and "ss_entity_id ss = entity" and "ss_head ss = rd_base_sequence h0"
    and "tx_commit_with_outcome j' (mem_repository j env) generated response tx (hnd, s) = (Inr co, tx', hnd', s')"
    and "\<not> co_replayed co" and "oc_status (co_outcome co) = Accepted"
  shows "(\<exists>h l p. grows P hist h \<and> full_replay ag entity h = Inr l \<and> same_state (rd_loaded h0) l \<and> tx_command tx = Some p
      \<and> mem_events_after s' entity (int (length h)) = stamped_events (stamp_commit_id (pc_metadata p) generated) ss)
    \<and> (\<forall>v. (entity, v) \<in> set (tx_expected tx) \<longrightarrow> v = ss_head ss)"
proof -
  obtain l where load: "load_with_catch_up ag (mem_repository j env) entity (tx_catch_up_threshold tx0) (hnd0, s0) = (Inr l, hnd1, s1)"
    and read: "read_loaded ag l tx0 = (Inr h0, tx1)"
    by (rule read_stream_Inr [OF assms(4)])
  have l: "rd_loaded h0 = l" "ss_head ss = ld_sequence l"
    using read_loaded_Inr(4,5) [OF read] assms(9) by simp_all
  obtain h1 where h1: "grows P hist h1" "good ag entity h1 s1" "past_state ag entity h1 l"
    using load_past [OF assms(1-3) load] by blast
  obtain h2 where h2: "grows P h1 h2" "good ag entity h2 s"
    using assms(5) [OF h1(2)] by blast
  obtain p t hnd2 s2 o' where p: "tx_command tx = Some p"
    and ready: "tx_ready (mem_repository j env) tx (hnd, s) = (Inr (), tx', hnd2, s2)"
    and t: "prepare generated (pc_metadata p) tx' = Inr t"
    and run: "mem_commit_transaction j (t\<lparr>tc_outcome := Some o'\<rparr>) hnd2 (env s2) = (Inr (), hnd', s')"
    and expected: "\<And>entity v. (entity, v) \<in> set (tx_expected tx) \<Longrightarrow> \<exists>ss \<in> set (tx_streams tx). ss_entity_id ss = entity \<and> ss_head ss = v"
    by (rule accepted_Inr [OF assms(10-12)]) (rule that)
  obtain h3 where h3: "grows P h2 h3" "good ag entity h3 s2"
    using tx_ready_good [OF assms(2) h2(2) ready] by blast
  obtain h where h: "grows P h3 h" "good ag entity h (env s2)"
    by (rule env_okE [OF assms(2) h3(2)])
  note grown = grows_trans [OF h2(1) grows_trans [OF h3(1) h(1)]]
  note same = tx_ready_mem(1) [OF ready]
  have ok: "tx_ok tx'" and ok2: "tx_ok tx"
    using session_invariant [OF assms(6)] same by (simp_all add: session_ok_def tx_ok_def)
  have inv: "mem_inv (env s2)" and t2: "tells ag entity h (stream_of (env s2) entity)"
    using h(2) by (simp_all add: good_def)
  note heads = prepared_commit_heads [OF ok inv t run, of ss]
  have "ms_head (stream_of (env s2) entity) = ld_sequence l"
    using heads(1) assms(7,8) l(2) by (simp add: same)
  then have len: "ld_sequence l = int (length h)" and num: "numbered h"
    using t2 by (simp_all add: tells_def)
  obtain k l2 where k: "k \<le> length h" "full_replay ag entity (take k h) = Inr l2" "same_state l l2"
    using past_state_mono [OF h1(3) grown] by (auto simp: past_state_def)
  have "k = length h"
    using full_replay_sequence(1) [OF assms(1) numbered_take [OF num] k(2)] k len by (simp add: same_state_def)
  moreover have "mem_events_after s' entity (int (length h)) = stamped_events (stamp_commit_id (pc_metadata p) generated) ss"
    using heads(2) assms(7,8) l(2) len by (simp add: same)
  moreover have "v = ss_head ss" if "(entity, v) \<in> set (tx_expected tx)" for v
    using expected [OF that] ok2 assms(7,8) by (auto simp: tx_ok_def distinct_map dest: inj_onD)
  ultimately show ?thesis
    using k l(1) p grows_trans [OF h1(1) grown] by auto
qed

theorem accepted_command_decided_on_the_current_state_witness:
  "\<exists>co tx' hnd' s' h l. tx_commit_with_outcome sample_codec raced ''g'' None line_tx (snd (snd line_read)) = (Inr co, tx', hnd', s')
    \<and> full_replay notebook ''n'' h = Inr l \<and> same_state (rd_loaded (projr (fst line_read))) l
    \<and> length (mem_events_after s' ''n'' (int (length h))) = 1"
proof -
  obtain h0 h1 where h0: "fst line_read = Inr h0" and session: "tx_session no_text raced line_tx [(notebook, h1)] (snd (snd line_read))"
    using line_session by blast
  obtain hnd0 s0 where w0: "snd (snd line_begun) = (hnd0, s0)"
    by (cases "snd (snd line_begun)")
  obtain tx1 hnd s where w: "snd line_read = (tx1, hnd, s)"
    by (rule prod_cases3)
  have read: "read_stream no_text notebook raced ''n'' (fst (snd line_begun)) (hnd0, s0) = (Inr h0, tx1, hnd, s)"
    using h0 w by (metis line_read_def prod.collapse w0)
  obtain result tx' hnd' s' where run: "tx_commit_with_outcome sample_codec raced ''g'' None line_tx (hnd, s) = (result, tx', hnd', s')"
    by (rule prod_cases4)
  obtain co where co: "result = Inr co" "\<not> co_replayed co" "oc_status (co_outcome co) = Accepted"
    using line_runs(8) run w by (cases result) auto
  obtain ss where ss: "ss \<in> set (tx_streams line_tx)" "ss_entity_id ss = ''n''" "ss_head ss = 2" "length (ss_events ss) = 1"
    using line_runs(7) by auto
  obtain hist where hist: "good notebook ''n'' hist s0"
    using env_okE [OF compactor_ok second_world_good] line_runs(4) w0 by (metis snd_conv)
  have at_head: "ss_head ss = rd_base_sequence h0"
    using ss(3) line_runs(6) h0 by simp
  have still: "\<exists>h'. grows (\<lambda>_. True) h h' \<and> good notebook ''n'' h' s" if "good notebook ''n'' h s" for h
    using that by blast
  note decided = accepted_command_decided_on_the_current_state [OF notebook_laws compactor_ok hist read still
      session [unfolded w snd_conv] ss(1,2) at_head run [unfolded co(1)] co(2,3)]
  obtain h l and p :: pending_command where "full_replay notebook ''n'' h = Inr l" "same_state (rd_loaded h0) l"
    "mem_events_after s' ''n'' (int (length h)) = stamped_events (stamp_commit_id (pc_metadata p) ''g'') ss"
    using decided by blast
  moreover from this(3) have "length (mem_events_after s' ''n'' (int (length h))) = 1"
    using ss(4) by (simp add: stamped_events_def)
  moreover have "tx_commit_with_outcome sample_codec raced ''g'' None line_tx (snd (snd line_read)) = (Inr co, tx', hnd', s')"
    using run co(1) w by simp
  moreover have "projr (fst line_read) = h0"
    by (simp add: h0)
  ultimately show ?thesis
    by blast
qed

text \<open>C14: the answer to a command over several streams is the row recorded for it when the command returns,
  with its digest, whatever the application read and staged and whatever other processes did.\<close>

theorem transaction_answers_are_recorded:
  assumes "execute_transaction en (mem_repository j env) first identity m step st (hnd, s) = Some (Inr co, delays, st', hnd', s')"
    and "\<And>n. keeps_command (step n)"
  shows "\<exists>c p. st_outcomes st = Some c \<and> freeze_command c identity m = Inr p
    \<and> bt_get (mr_outcomes s') (pc_command_id p) = Some (co_outcome co) \<and> oc_digest (co_outcome co) = pc_digest p"
  using assms(1)
proof (cases rule: execute_transaction_cases)
  case (run c p)
  show ?thesis
    using run(1,2) transaction_loop_recorded [OF run(3) assms(2)] by (auto simp: recorded_def)
qed simp

definition note_step :: "nat \<Rightarrow> unit transaction \<Rightarrow> mem_world \<Rightarrow> (error + decision) \<times> unit transaction \<times> mem_world" where
  "note_step n tx w =
    (case read_stream no_text notebook raced ''n'' tx w of
       (Inl e, tx1, w1) \<Rightarrow> (Inl e, tx1, w1)
     | (Inr h, tx1, w1) \<Rightarrow>
        (case append_events_to notebook h [''d''] tx1 of
           Some (Inr _, _, tx2) \<Rightarrow> (Inr (Accept (Some (ld_aggregate (rd_loaded h)))), tx2, w1)
         | Some (Inl e, _, tx2) \<Rightarrow> (Inl e, tx2, w1)
         | None \<Rightarrow> (Inl TransactionPoisoned, tx1, w1)))"

lemma read_stream_command: "read_stream display ag rp entity tx r = (result, tx', r') \<Longrightarrow> tx_command tx' = tx_command tx"
  by (auto simp: read_stream_def read_loaded_def split: sum.splits prod.splits)

lemma stage_stream_command:
  "stage_stream ag h events named interval tx = Some (result, h', tx') \<Longrightarrow> tx_command tx' = tx_command tx"
  by (auto simp: stage_stream_def Let_def split: if_splits sum.splits prod.splits option.splits)

lemma note_step_keeps: "keeps_command (note_step n)"
  using read_stream_command stage_stream_command
  by (fastforce simp: keeps_command_def note_step_def append_events_to_def append_with_def
      split: sum.splits prod.splits option.splits)

definition line_identity :: command_identity where
  "line_identity = with_payload_json (with_targets (new_identity ''write'') [''n'']) ''d''"

theorem transaction_answers_are_recorded_witness:
  "\<exists>co delays st' hnd' s'. execute_transaction note_engine raced 7 line_identity note_metadata note_step answering_store
        (fst second_world, snd second_world) = Some (Inr co, delays, st', hnd', s')
    \<and> oc_response (co_outcome co) = Some ''abc'' \<and> bt_get (mr_outcomes s') ''c1'' = Some (co_outcome co)"
proof -
  let ?run = "execute_transaction note_engine raced 7 line_identity note_metadata note_step answering_store"
  have "map_option (\<lambda>(result, _). map_sum id (\<lambda>co. oc_response (co_outcome co)) result) (?run second_world) = Some (Inr (Some ''abc''))"
    by code_simp
  then obtain result delays st' hnd' s' where run: "?run (fst second_world, snd second_world) = Some (result, delays, st', hnd', s')"
    and result: "map_sum id (\<lambda>co. oc_response (co_outcome co)) result = Inr (Some ''abc'')"
    by (auto simp: case_prod_unfold)
  obtain co where co: "result = Inr co" "oc_response (co_outcome co) = Some ''abc''"
    using result by (cases result) auto
  have "freeze_command note_config line_identity note_metadata = Inr (note_frozen ''d'')"
    by code_simp
  then show ?thesis
    using transaction_answers_are_recorded [OF run [unfolded co(1)] note_step_keeps] run co
    by (auto simp: answering_store_def with_outcomes_def note_frozen_def)
qed

end
