(* ===== verification/Spec2Isabelle.thy ===== *)
theory Spec2Isabelle
  imports Mem_Services Transaction_Correct
begin

text \<open>
  A model of \<^verbatim>\<open>evt\<close>, an event-sourcing library in Rust (\<^verbatim>\<open>src/crates/evt\<close>), and what
  its theorems show. A store keeps one log of events per stream, with the stream's head, an optional
  snapshot, projected view rows, recorded command outcomes, a feature marker and a rebuild fence.
  Commits are optimistic: they name the head they expect, and a commit applies whole or not at all.

  \<^bold>\<open>Conventions.\<close> A Rust string or byte vector is a HOL string; an \<open>i64\<close> is an \<open>int\<close> with the
  checked and saturating operations of the source written out; a \<open>Duration\<close> is a number of
  nanoseconds; a \<open>usize\<close> is a \<open>nat\<close>, also where the code casts it to \<open>i64\<close>; the generations of the rebuild
  fence and the versions of the feature marker, which the code increments unchecked, do not wrap; a \<open>BTreeMap\<close> is a list of pairs ordered by key (\<open>BTree_Map\<close>); a \<open>Result\<close> is a sum with
  the error left; a formatted message keeps its format and arguments. The JSON library is the record
  \<open>json_codec\<close>, and what a theorem needs of it is a hypothesis (\<open>cursor_codec\<close>). Clock readings are
  arguments. The build has the \<open>journal\<close> feature.

  \<^bold>\<open>Theories.\<close>
  \<^item> \<open>Prelude\<close>, \<open>BTree_Map\<close>: results, text and integers; the ordered map and its interface locale.
  \<^item> \<open>Events\<close> (\<^verbatim>\<open>ids.rs, metadata.rs, event.rs, upcast.rs\<close>), \<open>Errors\<close> (\<^verbatim>\<open>error.rs\<close>), \<open>Heads\<close>
    (\<^verbatim>\<open>heads.rs\<close>), \<open>Features\<close> (\<^verbatim>\<open>features.rs\<close>), \<open>Budget\<close> and \<open>View_Ops\<close> (\<^verbatim>\<open>repository.rs,
    projection.rs\<close>), \<open>Rebuild\<close> (\<^verbatim>\<open>rebuild.rs\<close>), \<open>Numbers\<close> (\<^verbatim>\<open>numbers.rs\<close>), \<open>Base64\<close>
    (\<^verbatim>\<open>json.rs\<close>), \<open>Outcomes\<close> (\<^verbatim>\<open>outcome.rs\<close>), \<open>Wire_Dynamo\<close> (\<^verbatim>\<open>wire/dynamo.rs\<close>): the values the
    store works with, their checks and their stored form.
  \<^item> \<open>Repository\<close> (\<^verbatim>\<open>repository.rs\<close>): commits, transactions, validation, normal form and sizes.
    \<open>Repository_Trait\<close>: the trait as a record of operations on a world, and reading and settling an
    outcome row on any of them. \<open>Commands\<close> (\<^verbatim>\<open>outcome.rs, transaction.rs\<close>): command identities,
    configuration, frozen commands and the loop that retries them.
  \<^item> \<open>Mem_Repository\<close> (\<^verbatim>\<open>mem.rs\<close>), \<open>Views\<close> (\<^verbatim>\<open>views.rs, mem/views.rs\<close>): the in-memory repository.
    An operation takes the handle it runs on and the shared store and returns both. It holds its locks
    from its first check to its last write, so calls of different handles interleave whole. A declaration of
    a history-dependent type is one such call.
  \<^item> \<open>Mem_Invariants\<close>, \<open>Mem_System\<close>: the invariant each operation keeps, and any number of handles over
    one store as a step relation with its reachable systems.
  \<^item> \<open>Mem_Correct\<close>, \<open>Mem_Services\<close>: what holds of reachable stores, of commits and transactions, of
    compaction, of the rebuild fence and of the view listings. \<open>Samples\<close> holds the concrete inputs.
  \<^item> \<open>Projection\<close> (\<^verbatim>\<open>projection.rs\<close>), \<open>Retry\<close> (\<^verbatim>\<open>retry.rs\<close>), \<open>Store\<close> (\<^verbatim>\<open>store.rs\<close>): running commit
    projectors, retry policies, and the store, over any repository. Aggregates, events and projectors
    are application code, records of functions.
  \<^item> \<open>Store_Mem\<close>, \<open>Store_History\<close>, \<open>Store_Correct\<close>: the store over the in-memory repository refines a
    history, the list of all events of an entity, which loads replay whole and commands append to, while
    other writers add to it before every call. The writers are any function of the store that keeps its
    invariant; the in-memory repository has no failing calls to inject.
  \<^item> \<open>Store_Outcomes\<close>, \<open>Store_Answers\<close>: the same for commands with recorded outcomes, whose answers are the
    recorded rows, given once and again.
  \<^item> \<open>Transaction\<close> (\<^verbatim>\<open>transaction.rs\<close>): the transaction engine and \<^verbatim>\<open>Store::execute_transaction\<close>.
    \<open>Transaction_Sessions\<close>: what an application can do with a transaction, as an inductive relation whose
    handles share one type of aggregate states and events, and the invariant of it. \<open>Transaction_Mem\<close>, \<open>Transaction_Correct\<close>: over the in-memory repository a
    commit ran on the heads that were read, and a command's answer is its recorded row.
  \<^item> This theory: identifiers, codecs, budgets, batches and outcome polling.

  \<^bold>\<open>Loops.\<close> The only loop that the source does not bound is the one that follows page cursors. It is a
  partial function, and the two paging theorems show that it returns. Every other recursion is total.

  \<^bold>\<open>Not modelled.\<close> The rebuild of projections and the journal, with its compaction write
  (\<^verbatim>\<open>mem/journal.rs\<close>), are not modelled. The DynamoDB and PostgreSQL backends are calls of an SDK and a SQL driver;
  only the wire format of the first is here. Three test hooks of the in-memory repository write around
  its checks and are not steps. The conformance suites are tests.
\<close>

section \<open>Identifiers, metadata and the codecs\<close>

text \<open>C37: an event ID determines its stream and its sequence: two different positions of the log never
  share an ID, whatever characters the entity IDs hold.\<close>

theorem event_id_identifies:
  "for_event e s = for_event e' s' \<longleftrightarrow> e = e' \<and> s = s'"
  by (rule for_event_inject)

text \<open>C35: \<open>Metadata::eq\<close> is equality of what \<open>Metadata::serialize\<close> writes, so a stored event compares
  equal to the event it was written from.\<close>

theorem metadata_equality_is_wire_equality:
  "metadata_eq a b \<longleftrightarrow> metadata_wire a = metadata_wire b"
  by (rule metadata_eq_iff_wire)

text \<open>C34: decoding the base64 text of any bytes returns the bytes, and the text is as long as RFC 4648
  says.\<close>

theorem base64_decodes_its_encoding:
  "base64_decode (base64_encode bytes) = Inr bytes
    \<and> length (base64_encode bytes) = 4 * ((length bytes + 2) div 3)"
  by (simp add: base64_round_trip length_base64_encode)

text \<open>C33: two command identities, with every field and every target shorter than \<open>2^32\<close> bytes and fewer than
  \<open>2^32\<close> targets (\<open>digestible\<close>), have the same canonical digest bytes exactly when they name the same command
  type, the same set of target streams, the same payload and the same principal. The bound is what the
  code's 32-bit length prefixes can tell apart: it writes lengths \<open>as u32\<close>, which wraps beyond it.\<close>

theorem digest_bytes_identify_the_command:
  assumes "digestible a" and "digestible b"
  shows "canonical_digest_bytes a = canonical_digest_bytes b \<longleftrightarrow>
    di_command_type a = di_command_type b \<and> set (di_targets a) = set (di_targets b)
    \<and> di_payload a = di_payload b \<and> di_principal a = di_principal b"
  using assms by (rule canonical_digest_bytes_inject)

theorem digest_bytes_identify_the_command_witness:
  "canonical_digest_bytes \<lparr>di_command_type = ''Open'', di_targets = [''b'', ''a'', ''b''],
      di_payload = ''{}'', di_principal = ''p''\<rparr>
    = canonical_digest_bytes \<lparr>di_command_type = ''Open'', di_targets = [''a'', ''b''],
      di_payload = ''{}'', di_principal = ''p''\<rparr>"
  by (rule digest_bytes_identify_the_command [THEN iffD2]) (simp_all add: digestible_def insert_commute)

section \<open>Budgets, views and batches\<close>

text \<open>C36: the commit budget accepts a list of action sizes exactly when there are at most 100 of them,
  they sum to at most \<open>MAX_COMMIT_BYTES\<close> and none is above \<open>MAX_COMMIT_ITEM_BYTES\<close>: the saturating sum
  never hides an overflow.\<close>

theorem budget_accepts_exactly:
  "check_budget sizes = Inr () \<longleftrightarrow>
    length sizes \<le> 100 \<and> sum_list sizes \<le> MAX_COMMIT_BYTES
    \<and> (\<forall>s \<in> set sizes. s \<le> MAX_COMMIT_ITEM_BYTES)"
  by (rule check_budget_ok)

theorem budget_accepts_exactly_witness: "check_budget [380000, 1] = Inr ()"
  by (rule budget_accepts_exactly [THEN iffD2])
    (simp add: MAX_COMMIT_BYTES_def MAX_COMMIT_ITEM_BYTES_def)

text \<open>C31: the batches of a rebuild are its view operations, in order and each exactly once. Every batch has
  at least one and at most \<open>MAX_REBUILD_VIEW_BATCH\<close> operations and, unless it is a single one, fits the
  commit's bytes with the lease guard. So the guarded write accepts a batch exactly when its operations
  are valid together and none is above \<open>MAX_COMMIT_ITEM_BYTES\<close>; when that holds of all the operations, every
  batch is accepted. No batch is cut short: it is full, or the next operation would not fit its bytes.\<close>

theorem rebuild_batches_partition:
  "concat (rebuild_batches views) = views
    \<and> (\<forall>batch \<in> set (rebuild_batches views).
        batch \<noteq> [] \<and> length batch \<le> MAX_REBUILD_VIEW_BATCH
        \<and> (length batch = 1 \<or> lock_check_size + batch_bytes batch \<le> MAX_COMMIT_BYTES)
        \<and> (check_view_batch batch = Inr () \<longleftrightarrow>
            check_views batch = Inr () \<and> (\<forall>v \<in> set batch. view_operation_size (pv_op v) \<le> MAX_COMMIT_ITEM_BYTES)))
    \<and> (\<forall>i. Suc i < length (rebuild_batches views) \<longrightarrow>
        length (rebuild_batches views ! i) = MAX_REBUILD_VIEW_BATCH
        \<or> MAX_COMMIT_BYTES < lock_check_size + batch_bytes (rebuild_batches views ! i)
            + view_operation_size (pv_op (hd (rebuild_batches views ! Suc i))))
    \<and> (check_views views = Inr () \<and> (\<forall>v \<in> set views. view_operation_size (pv_op v) \<le> MAX_COMMIT_ITEM_BYTES) \<longrightarrow>
        (\<forall>batch \<in> set (rebuild_batches views). check_view_batch batch = Inr ()))"
proof (intro conjI ballI)
  show "concat (rebuild_batches views) = views"
    by (rule concat_rebuild_batches)
qed (use rebuild_batch_bounds rebuild_batch_accepted rebuild_batches_full rebuild_batches_ok in blast)+

definition sample_view :: "string \<Rightarrow> projected_view" where
  "sample_view pk = \<lparr>pv_projector = ''p'', pv_projector_index = 0, pv_operation = 0,
     pv_op = view_delete pk ''s'' ''owner''\<rparr>"

theorem rebuild_batches_partition_witness:
  "concat (rebuild_batches [sample_view ''a'', sample_view ''b'']) = [sample_view ''a'', sample_view ''b'']
    \<and> list_all (\<lambda>batch. check_view_batch batch = Inr ()) (rebuild_batches [sample_view ''a'', sample_view ''b''])
    \<and> (let batches = rebuild_batches (replicate 100 (sample_view ''a''))
       in Suc 0 < length batches
          \<and> (length (batches ! 0) = MAX_REBUILD_VIEW_BATCH
             \<or> MAX_COMMIT_BYTES < lock_check_size + batch_bytes (batches ! 0)
                 + view_operation_size (pv_op (hd (batches ! Suc 0)))))"
proof -
  have "check_views [sample_view ''a'', sample_view ''b''] = Inr ()"
    "list_all (\<lambda>v. view_operation_size (pv_op v) \<le> MAX_COMMIT_ITEM_BYTES) [sample_view ''a'', sample_view ''b'']"
    by code_simp+
  then have "concat (rebuild_batches [sample_view ''a'', sample_view ''b'']) = [sample_view ''a'', sample_view ''b'']
    \<and> list_all (\<lambda>batch. check_view_batch batch = Inr ()) (rebuild_batches [sample_view ''a'', sample_view ''b''])"
    using rebuild_batches_partition [of "[sample_view ''a'', sample_view ''b'']"] by (simp add: list_all_iff)
  moreover have "map length (rebuild_batches (replicate 100 (sample_view ''a''))) = [99, 1]"
    by code_simp
  then have "Suc 0 < length (rebuild_batches (replicate 100 (sample_view ''a'')))"
    by (metis length_map length_Cons lessI list.size(3))
  ultimately show ?thesis
    using rebuild_batches_partition [of "replicate 100 (sample_view ''a'')"] unfolding Let_def by blast
qed

section \<open>Outcomes\<close>

text \<open>C32: polling for an outcome row always ends: it sleeps no longer than its window in all, and
  reports the row absent only after it has waited the whole window.\<close>

theorem poll_loop_waits_its_window:
  "sum_list (snd (poll_loop read window)) \<le> window
    \<and> (fst (poll_loop read window) = PollAbsent \<longrightarrow> sum_list (snd (poll_loop read window)) = window)"
  using poll_rounds_waits [of 0 window read 0] by (simp add: poll_loop_def)

theorem poll_loop_waits_its_window_witness:
  "fst (poll_loop (\<lambda>_. Inr None) 70000000) = PollAbsent
    \<and> sum_list (snd (poll_loop (\<lambda>_. Inr None) 70000000)) = 70000000"
proof -
  have "fst (poll_loop (\<lambda>_. Inr None) 70000000) = PollAbsent"
    by (simp add: poll_loop_def poll_rounds.simps one_millisecond_def one_second_def)
  then show ?thesis
    using poll_loop_waits_its_window [of "\<lambda>_. Inr None" 70000000] by simp
qed

end
